(* ===== verification/Prelude.thy ===== *)
theory Prelude
  imports Main "HOL-Library.Word"
begin

text \<open>
  Shared ground of the development: the machine integers of the program, the
  faults an execution can end in, sequencing of fallible steps, the little
  endian byte images of integers, and the environment the program reads
  (the clock and memory it has not initialised).

  Everything a C++ execution can do besides returning normally is a value of
  type \<open>fault\<close>: reading or writing outside an array, dereferencing a null
  pointer, an exception nobody catches, a call of \<open>exit\<close>.
\<close>

unbundle bit_operations_syntax

named_theorems layout "the numeric constants of the disk layout, to be unfolded"

section \<open>Machine integers and byte strings\<close>

type_synonym byte = "8 word"
type_synonym u16 = "16 word"
type_synonym u32 = "32 word"
type_synonym u64 = "64 word"

lemma unat_u32_of_nat: "n < 2 ^ 32 \<Longrightarrow> unat (word_of_nat n :: u32) = n"
  by (simp add: unat_of_nat)

lemma sint_small: "uint w < 2 ^ 31 \<Longrightarrow> sint (w :: u32) = uint w"
  using order_trans [of "- (2 ^ 31)" 0 "uint w"]
  by (simp add: sint_uint signed_take_bit_int_eq_self)

lemma sint_of_nat_u32: "n < 2 ^ 31 \<Longrightarrow> sint (word_of_nat n :: u32) = int n"
  by (simp add: sint_small uint_nat unat_u32_of_nat)

section \<open>Faults and sequencing\<close>

datatype fault =
    OutOfBounds    \<comment> \<open>access outside the array of disk blocks\<close>
  | NullDeref      \<comment> \<open>member access through a null pointer\<close>
  | HeapOverflow   \<comment> \<open>access outside a buffer obtained from \<open>malloc\<close>\<close>
  | OutOfRange     \<comment> \<open>uncaught \<open>std::out_of_range\<close>\<close>
  | LengthError    \<comment> \<open>uncaught \<open>std::length_error\<close>\<close>
  | IntOverflow    \<comment> \<open>\<open>atoi\<close> on a number that is not an \<open>int\<close>\<close>
  | Exited         \<comment> \<open>\<open>exit\<close> was called\<close>
  | VerifyFailed   \<comment> \<open>a failed \<open>VERIFY\<close>: assertion failure or \<open>abort\<close>\<close>
  | DivideByZero   \<comment> \<open>integer division by zero\<close>
  | BadPointer     \<comment> \<open>use or release of memory that is not allocated or not initialised\<close>

type_synonym 'a result = "fault + 'a"

definition andThen :: "'a result \<Rightarrow> ('a \<Rightarrow> 'b result) \<Rightarrow> 'b result" where
  "andThen m f = (case m of Inl e \<Rightarrow> Inl e | Inr x \<Rightarrow> f x)"

lemma andThen_Inr [simp]: "andThen (Inr x) f = f x"
  by (simp add: andThen_def)

lemma andThen_Inl [simp]: "andThen (Inl e) f = Inl e"
  by (simp add: andThen_def)

text \<open>The macro of src/lang/verify.h, with or without \<open>NDEBUG\<close>.\<close>

definition VERIFY :: "bool \<Rightarrow> unit result" where
  "VERIFY expr = (if \<not> expr then Inl VerifyFailed else Inr ())"

lemma VERIFY_simps [simp]: "VERIFY True = Inr ()" "VERIFY False = Inl VerifyFailed"
  "VERIFY b = Inr x \<longleftrightarrow> b"
  by (simp_all add: VERIFY_def)

lemma andThen_eq_Inr_iff:
  "andThen m f = Inr y \<longleftrightarrow> (\<exists>x. m = Inr x \<and> f x = Inr y)"
  by (simp add: andThen_def split: sum.splits)

lemma andThen_InrD: "r = andThen m f \<Longrightarrow> r = Inr y \<Longrightarrow> \<exists>x. m = Inr x"
  by (cases m) simp_all

lemma andThen_eq_Inl_iff:
  "andThen m f = Inl e \<longleftrightarrow> m = Inl e \<or> (\<exists>x. m = Inr x \<and> f x = Inl e)"
  by (simp add: andThen_def split: sum.splits)

lemma andThen_assoc: "andThen (andThen m f) g = andThen m (\<lambda>x. andThen (f x) g)"
  by (simp add: andThen_def split: sum.splits)

lemma andThen_cong [fundef_cong]:
  "m = m' \<Longrightarrow> (\<And>x. m' = Inr x \<Longrightarrow> f x = f' x) \<Longrightarrow> andThen m f = andThen m' f'"
  by (simp add: andThen_def split: sum.splits)

section \<open>The environment: clock and uninitialised memory\<close>

text \<open>
  \<open>time(NULL)\<close> and the bytes of memory the program reads before writing them
  are not determined by the program.  The environment fixes one answer for
  every request, numbered by \<open>env_tick\<close>; theorems hold for every environment.
\<close>

record env =
  env_clock :: "nat \<Rightarrow> u32"
  env_junk  :: "nat \<Rightarrow> nat \<Rightarrow> byte"
  env_tick  :: nat

definition env_time :: "env \<Rightarrow> u32 \<times> env" where
  "env_time e = (env_clock e (env_tick e), e\<lparr>env_tick := Suc (env_tick e)\<rparr>)"

definition env_bytes :: "nat \<Rightarrow> env \<Rightarrow> byte list \<times> env" where
  "env_bytes n e =
     (map (env_junk e (env_tick e)) [0..<n], e\<lparr>env_tick := Suc (env_tick e)\<rparr>)"

lemma env_timeD:
  assumes "env_time e = (t, e')"
  shows "t = env_clock e (env_tick e)" "env_clock e' = env_clock e" "env_tick e' = Suc (env_tick e)"
  using assms by (auto simp: env_time_def)

lemma env_bytesD:
  assumes "env_bytes n e = (bs, e')"
  shows "length bs = n" "env_clock e' = env_clock e" "env_tick e' = Suc (env_tick e)"
  using assms by (auto simp: env_bytes_def)

section \<open>Little endian images\<close>

definition u16_bytes :: "u16 \<Rightarrow> byte list" where
  "u16_bytes w = [ucast w, ucast (drop_bit 8 w)]"

definition bytes_u16 :: "byte list \<Rightarrow> u16" where
  "bytes_u16 bs = ucast (bs ! 0) OR push_bit 8 (ucast (bs ! 1))"

definition u32_bytes :: "u32 \<Rightarrow> byte list" where
  "u32_bytes w =
     [ucast w, ucast (drop_bit 8 w), ucast (drop_bit 16 w), ucast (drop_bit 24 w)]"

definition bytes_u32 :: "byte list \<Rightarrow> u32" where
  "bytes_u32 bs =
     ucast (bs ! 0) OR push_bit 8 (ucast (bs ! 1)) OR
     push_bit 16 (ucast (bs ! 2)) OR push_bit 24 (ucast (bs ! 3))"

lemma length_u16_bytes [simp]: "length (u16_bytes w) = 2"
  by (simp add: u16_bytes_def)

lemma length_u32_bytes [simp]: "length (u32_bytes w) = 4"
  by (simp add: u32_bytes_def)

lemma bytes_u16_append [simp]: "bytes_u16 (u16_bytes w @ bs) = w"
  by (rule bit_word_eqI) (auto simp: bytes_u16_def u16_bytes_def bit_simps nth_append)

lemma bytes_u32_append [simp]: "bytes_u32 (u32_bytes w @ bs) = w"
proof (rule bit_word_eqI)
  fix n
  assume "n < LENGTH(32)"
  then consider "n < 8" | "8 \<le> n" "n < 16" | "16 \<le> n" "n < 24" | "24 \<le> n" "n < 32"
    by fastforce
  then show "bit (bytes_u32 (u32_bytes w @ bs)) n = bit w n"
    by cases (auto simp: bytes_u32_def u32_bytes_def bit_simps)
qed

text \<open>An array of 32-bit words and its image in memory.\<close>

definition words_bytes :: "u32 list \<Rightarrow> byte list" where
  "words_bytes ws = concat (map u32_bytes ws)"

fun bytes_words :: "nat \<Rightarrow> byte list \<Rightarrow> u32 list" where
  "bytes_words 0 bs = []"
| "bytes_words (Suc n) bs = bytes_u32 bs # bytes_words n (drop 4 bs)"

lemma words_bytes_simps [simp]:
  "words_bytes [] = []"
  "words_bytes (w # ws) = u32_bytes w @ words_bytes ws"
  by (simp_all add: words_bytes_def)

lemma length_words_bytes [simp]: "length (words_bytes ws) = 4 * length ws"
  by (induction ws) simp_all

lemma length_bytes_words [simp]: "length (bytes_words n bs) = n"
  by (induction n bs rule: bytes_words.induct) simp_all

lemma bytes_words_append [simp]:
  "n = length ws \<Longrightarrow> bytes_words n (words_bytes ws @ bs) = ws"
  by (induction ws arbitrary: n) simp_all

lemma bytes_words_words_bytes [simp]:
  "n = length ws \<Longrightarrow> bytes_words n (words_bytes ws) = ws"
  using bytes_words_append [of n ws "[]"] by simp

section \<open>Cutting memory into blocks\<close>

definition chunk :: "nat \<Rightarrow> byte list \<Rightarrow> nat \<Rightarrow> byte list" where
  "chunk n mem off = take n (drop off mem)"

lemma length_chunk [simp]: "off + n \<le> length mem \<Longrightarrow> length (chunk n mem off) = n"
  by (simp add: chunk_def)

lemma concat_chunks:
  "m + n * k \<le> length mem \<Longrightarrow>
   concat (map (\<lambda>i. chunk n mem (m + n * i)) [0..<k]) = take (n * k) (drop m mem)"
proof (induction k)
  case (Suc k)
  then have "concat (map (\<lambda>i. chunk n mem (m + n * i)) [0..<k]) = take (n * k) (drop m mem)"
    by simp
  then show ?case
    by (simp add: chunk_def take_add add.commute [of n] del: add_Suc_right)
      (simp add: add.commute)
qed simp

section \<open>Lists\<close>

lemma map_nth_take: "k \<le> length xs \<Longrightarrow> map ((!) xs) [0..<k] = take k xs"
  by (auto intro: nth_equalityI)

lemma map_nth_prefix: "k \<le> length xs \<Longrightarrow> k \<le> n \<Longrightarrow> map ((!) xs) [0..<k] = take k (take n xs)"
  by (simp add: map_nth_take min_def)

lemma concat_map_cong: "(\<And>x. x \<in> set xs \<Longrightarrow> f x = g x) \<Longrightarrow> concat (map f xs) = concat (map g xs)"
  by (metis map_cong)

lemma length_concat_const:
  "(\<And>x. x \<in> set xs \<Longrightarrow> length (f x) = n) \<Longrightarrow> length (concat (map f xs)) = n * length xs"
  by (induction xs) simp_all

end
