(* ===== verification/Disk.thy ===== *)
theory Disk
  imports Prelude
begin

text \<open>
  The disk layer (\<open>class disk\<close> of src/inode_manager.h and .cc): an array of
  \<open>BLOCK_NUM\<close> blocks of \<open>BLOCK_SIZE\<close> bytes, cleared by the constructor, read
  and written a whole block at a time.  The source does not check the block
  number; the model returns \<open>OutOfBounds\<close> where the \<open>memcpy\<close> would leave the
  array.
\<close>

definition DISK_SIZE :: nat where [layout]: "DISK_SIZE = 1024 * 1024 * 16"
definition BLOCK_SIZE :: nat where [layout]: "BLOCK_SIZE = 512"
definition BLOCK_NUM :: nat where [layout]: "BLOCK_NUM = DISK_SIZE div BLOCK_SIZE"

record disk =
  blocks :: "u32 \<Rightarrow> byte list"

definition disk_new :: disk where
  "disk_new = \<lparr>blocks = (\<lambda>_. replicate BLOCK_SIZE 0)\<rparr>"

definition disk_read_block :: "disk \<Rightarrow> u32 \<Rightarrow> byte list result" where
  "disk_read_block d b =
     (if unat b < BLOCK_NUM then Inr (take BLOCK_SIZE (blocks d b)) else Inl OutOfBounds)"

definition disk_write_block :: "disk \<Rightarrow> u32 \<Rightarrow> byte list \<Rightarrow> disk result" where
  "disk_write_block d b buf =
     (if unat b < BLOCK_NUM
      then Inr (d\<lparr>blocks := (blocks d)(b := take BLOCK_SIZE buf)\<rparr>)
      else Inl OutOfBounds)"

section \<open>Whole blocks\<close>

definition disk_ok :: "disk \<Rightarrow> bool" where
  "disk_ok d \<longleftrightarrow> (\<forall>b. length (blocks d b) = BLOCK_SIZE)"

lemma disk_ok_new [simp]: "disk_ok disk_new"
  by (simp add: disk_ok_def disk_new_def)

lemma disk_ok_length [simp]: "disk_ok d \<Longrightarrow> length (blocks d b) = BLOCK_SIZE"
  by (simp add: disk_ok_def)

lemma disk_read_ok:
  "disk_ok d \<Longrightarrow> unat b < BLOCK_NUM \<Longrightarrow> disk_read_block d b = Inr (blocks d b)"
  by (simp add: disk_read_block_def)

lemma disk_write_ok:
  "unat b < BLOCK_NUM \<Longrightarrow> length buf = BLOCK_SIZE \<Longrightarrow>
   disk_write_block d b buf = Inr (d\<lparr>blocks := (blocks d)(b := buf)\<rparr>)"
  by (simp add: disk_write_block_def)

lemma disk_ok_update [simp]:
  "disk_ok d \<Longrightarrow> length buf = BLOCK_SIZE \<Longrightarrow> disk_ok (d\<lparr>blocks := (blocks d)(b := buf)\<rparr>)"
  by (simp add: disk_ok_def)

text \<open>Blocks outside the array are never touched.\<close>

lemma disk_write_fault_iff:
  "disk_write_block d b buf = Inl e \<longleftrightarrow> BLOCK_NUM \<le> unat b \<and> e = OutOfBounds"
  by (auto simp: disk_write_block_def)

lemma disk_read_fault_iff:
  "disk_read_block d b = Inl e \<longleftrightarrow> BLOCK_NUM \<le> unat b \<and> e = OutOfBounds"
  by (auto simp: disk_read_block_def)

end
