(* ===== verification/Block_Manager.thy ===== *)
theory Block_Manager
  imports Disk
begin

text \<open>
  The block layer (\<open>class block_manager\<close> of src/inode_manager.h and .cc): the
  superblock, the bitmap allocator and the pass-through block accesses.

  A bitmap block describes \<open>BPB\<close> blocks.  \<open>alloc_block\<close> scans the bitmap
  blocks \<open>BBLOCK(0)\<close> to \<open>BBLOCK(BLOCK_NUM - 1)\<close> for the first clear bit; bit
  \<open>i\<close> of bitmap block \<open>k\<close> stands for block \<open>k * BPB + i\<close>.
\<close>

definition INODE_NUM :: nat where [layout]: "INODE_NUM = 1024"
definition IPB :: nat where [layout]: "IPB = 1"
definition BPB :: nat where [layout]: "BPB = BLOCK_SIZE * 8"

definition BBLOCK :: "u32 \<Rightarrow> u32" where
  [layout]: "BBLOCK b = b div word_of_nat BPB + 2"

definition IBLOCK :: "u32 \<Rightarrow> u32 \<Rightarrow> u32" where
  [layout]: "IBLOCK i nblocks = nblocks div word_of_nat BPB + i div word_of_nat IPB + 3"

record superblock =
  sb_size :: u32
  sb_nblocks :: u32
  sb_ninodes :: u32

record block_manager =
  bm_d :: disk
  bm_using_blocks :: "u32 \<rightharpoonup> int"
  bm_sb :: superblock

definition format_sb :: superblock where
  "format_sb = \<lparr>sb_size = word_of_nat (BLOCK_SIZE * BLOCK_NUM),
                sb_nblocks = word_of_nat BLOCK_NUM,
                sb_ninodes = word_of_nat INODE_NUM\<rparr>"

definition block_manager_new :: block_manager where
  "block_manager_new =
     \<lparr>bm_d = disk_new, bm_using_blocks = Map.empty, bm_sb = format_sb\<rparr>"

definition bm_read_block :: "block_manager \<Rightarrow> u32 \<Rightarrow> byte list result" where
  "bm_read_block bm b = disk_read_block (bm_d bm) b"

definition bm_write_block :: "block_manager \<Rightarrow> u32 \<Rightarrow> byte list \<Rightarrow> block_manager result" where
  "bm_write_block bm b buf =
     andThen (disk_write_block (bm_d bm) b buf) (\<lambda>d. Inr (bm\<lparr>bm_d := d\<rparr>))"

text \<open>
  The inner loop of \<open>alloc_block\<close>: the first \<open>i < BPB\<close>, from the given one on,
  whose bit is clear in the buffer.
\<close>

function scan_bits :: "byte list \<Rightarrow> nat \<Rightarrow> nat option" where
  "scan_bits buf i =
     (if i < BPB
      then let index = i div 8; offset = i mod 8
           in if buf ! index AND push_bit offset 1 = 0 then Some i
              else scan_bits buf (Suc i)
      else None)"
  by pat_completeness auto
termination
  by (relation "measure (\<lambda>(buf, i). BPB - i)") auto

text \<open>The outer loop of \<open>alloc_block\<close>, from bitmap block \<open>bitmap_id\<close> on.\<close>

function alloc_loop :: "block_manager \<Rightarrow> nat \<Rightarrow> (u32 \<times> block_manager) result" where
  "alloc_loop bm bitmap_id =
     (if bitmap_id \<le> unat (BBLOCK (word_of_nat (BLOCK_NUM - 1)))
      then andThen (bm_read_block bm (word_of_nat bitmap_id)) (\<lambda>buf.
        (case scan_bits buf 0 of
           Some i \<Rightarrow>
             andThen (bm_write_block bm (word_of_nat bitmap_id)
                       (buf[i div 8 := buf ! (i div 8) OR push_bit (i mod 8) 1]))
               (\<lambda>bm'. Inr (word_of_nat (bitmap_id * BPB + i), bm'))
         | None \<Rightarrow> alloc_loop bm (Suc bitmap_id)))
      else Inr (-1, bm))"
  by pat_completeness auto
termination
  by (relation "measure (\<lambda>(bm, k). Suc (unat (BBLOCK (word_of_nat (BLOCK_NUM - 1)))) - k)") auto

definition alloc_block :: "block_manager \<Rightarrow> (u32 \<times> block_manager) result" where
  "alloc_block bm = alloc_loop bm (unat (BBLOCK 0))"

definition free_block :: "block_manager \<Rightarrow> u32 \<Rightarrow> block_manager result" where
  "free_block bm b =
     (let bitmap_id = BBLOCK b - BBLOCK 0
      in andThen (bm_read_block bm bitmap_id) (\<lambda>buf.
        (let index = unat (b mod word_of_nat BPB) div 8;
             offset = unat (b mod word_of_nat BPB) mod 8
         in bm_write_block bm bitmap_id
              (buf[index := buf ! index AND NOT (push_bit offset 1)]))))"

declare scan_bits.simps [simp del] alloc_loop.simps [simp del]

section \<open>Bits of a bitmap block\<close>

definition buf_bit :: "byte list \<Rightarrow> nat \<Rightarrow> bool" where
  "buf_bit buf i = bit (buf ! (i div 8)) (i mod 8)"

lemma and_exp_eq_0 [simp]: "x AND 2 ^ n = 0 \<longleftrightarrow> \<not> bit (x :: byte) n"
  by (rule and_exp_eq_0_iff_not_bit)

lemma eq_div_mod_8: "i div 8 = j div 8 \<Longrightarrow> i mod 8 = j mod 8 \<Longrightarrow> i = (j :: nat)"
  by (metis div_mult_mod_eq)

lemma buf_bit_or:
  assumes "i div 8 < length buf"
  shows "buf_bit (buf[i div 8 := buf ! (i div 8) OR push_bit (i mod 8) 1]) j
         \<longleftrightarrow> j = i \<or> buf_bit buf j"
proof (cases "i div 8 = j div 8")
  case True
  then show ?thesis
    using assms by (auto simp: buf_bit_def bit_simps dest: eq_div_mod_8)
next
  case False
  then show ?thesis by (auto simp: buf_bit_def)
qed

lemma buf_bit_and_not:
  assumes "i div 8 < length buf"
  shows "buf_bit (buf[i div 8 := buf ! (i div 8) AND NOT (push_bit (i mod 8) 1)]) j
         \<longleftrightarrow> j \<noteq> i \<and> buf_bit buf j"
proof (cases "i div 8 = j div 8")
  case True
  then show ?thesis
    using assms by (auto simp: buf_bit_def bit_simps dest: eq_div_mod_8)
next
  case False
  then show ?thesis by (auto simp: buf_bit_def)
qed

text \<open>The scan returns the first clear bit.\<close>

lemma scan_bits_step:
  "scan_bits buf i =
     (if i < BPB then if buf_bit buf i then scan_bits buf (Suc i) else Some i else None)"
  by (subst scan_bits.simps) (simp add: buf_bit_def Let_def)

lemma scan_bits_find: "scan_bits buf i = find (\<lambda>j. \<not> buf_bit buf j) [i..<BPB]"
proof (induction buf i rule: scan_bits.induct)
  case (1 buf i)
  show ?case
  proof (cases "i < BPB")
    case True
    have "buf_bit buf i \<Longrightarrow> scan_bits buf (Suc i) = find (\<lambda>j. \<not> buf_bit buf j) [Suc i..<BPB]"
      using True "1.IH" by (simp add: buf_bit_def)
    with True show ?thesis
      by (simp add: scan_bits_step [of buf i] upt_conv_Cons)
  next
    case False
    then show ?thesis by (simp add: scan_bits_step [of buf i])
  qed
qed

section \<open>The set of allocated blocks\<close>

definition bit_set :: "block_manager \<Rightarrow> u32 \<Rightarrow> bool" where
  "bit_set bm b = buf_bit (blocks (bm_d bm) (b div word_of_nat BPB))
                          (unat (b mod word_of_nat BPB))"

definition bm_ok :: "block_manager \<Rightarrow> bool" where
  "bm_ok bm \<longleftrightarrow> disk_ok (bm_d bm) \<and> bm_sb bm = format_sb"

lemma bm_ok_new [simp]: "bm_ok block_manager_new"
  by (simp add: bm_ok_def block_manager_new_def)

lemma bm_okD: "bm_ok bm \<Longrightarrow> disk_ok (bm_d bm)" "bm_ok bm \<Longrightarrow> bm_sb bm = format_sb"
  by (simp_all add: bm_ok_def)

lemma unat_div_BPB [simp]: "unat (b div word_of_nat BPB :: u32) = unat b div BPB"
  by (simp add: unat_div_distrib layout)

lemma unat_mod_BPB [simp]: "unat (b mod word_of_nat BPB :: u32) = unat b mod BPB"
  by (simp add: unat_mod_distrib layout)

lemma BPB_pos [simp]: "0 < BPB"
  by (simp add: layout)

lemma BPB_8: "i < BPB \<Longrightarrow> i div 8 < BLOCK_SIZE"
  by (simp add: layout)

lemma div_mod_BPB_eq:
  "b div word_of_nat BPB = c div word_of_nat BPB \<Longrightarrow> unat b mod BPB = unat c mod BPB \<Longrightarrow> b = (c :: u32)"
  by (metis div_mult_mod_eq unat_div_BPB word_unat_eq_iff)

text \<open>Setting and clearing the bit of one block.\<close>

definition bm_mark :: "block_manager \<Rightarrow> u32 \<Rightarrow> block_manager" where
  "bm_mark bm b =
     (let k = b div word_of_nat BPB; i = unat b mod BPB; buf = blocks (bm_d bm) k
      in bm\<lparr>bm_d := (bm_d bm)\<lparr>blocks := (blocks (bm_d bm))
           (k := buf[i div 8 := buf ! (i div 8) OR push_bit (i mod 8) 1])\<rparr>\<rparr>)"

definition bm_clear :: "block_manager \<Rightarrow> u32 \<Rightarrow> block_manager" where
  "bm_clear bm b =
     (let k = b div word_of_nat BPB; i = unat b mod BPB; buf = blocks (bm_d bm) k
      in bm\<lparr>bm_d := (bm_d bm)\<lparr>blocks := (blocks (bm_d bm))
           (k := buf[i div 8 := buf ! (i div 8) AND NOT (push_bit (i mod 8) 1)])\<rparr>\<rparr>)"

lemma bit_set_mark:
  "bm_ok bm \<Longrightarrow> bit_set (bm_mark bm b) c \<longleftrightarrow> c = b \<or> bit_set bm c"
  by (auto simp: bit_set_def bm_mark_def Let_def bm_ok_def BPB_8 buf_bit_or
      simp del: push_bit_of_1 dest: div_mod_BPB_eq)

lemma bit_set_clear:
  "bm_ok bm \<Longrightarrow> bit_set (bm_clear bm b) c \<longleftrightarrow> c \<noteq> b \<and> bit_set bm c"
  by (auto simp: bit_set_def bm_clear_def Let_def bm_ok_def BPB_8 buf_bit_and_not
      simp del: push_bit_of_1 dest: div_mod_BPB_eq)

lemma bm_ok_mark [simp]: "bm_ok bm \<Longrightarrow> bm_ok (bm_mark bm b)"
  by (simp add: bm_ok_def bm_mark_def Let_def)

lemma bm_ok_clear [simp]: "bm_ok bm \<Longrightarrow> bm_ok (bm_clear bm b)"
  by (simp add: bm_ok_def bm_clear_def Let_def)

lemma blocks_mark [simp]:
  "c \<noteq> b div word_of_nat BPB \<Longrightarrow> blocks (bm_d (bm_mark bm b)) c = blocks (bm_d bm) c"
  by (simp add: bm_mark_def Let_def)

lemma blocks_clear [simp]:
  "c \<noteq> b div word_of_nat BPB \<Longrightarrow> blocks (bm_d (bm_clear bm b)) c = blocks (bm_d bm) c"
  by (simp add: bm_clear_def Let_def)

lemma free_block_eq:
  assumes "bm_ok bm" and "unat b div BPB < BLOCK_NUM"
  shows "free_block bm b = Inr (bm_clear bm b)"
proof -
  have "BBLOCK b - BBLOCK 0 = b div word_of_nat BPB"
    by (simp add: BBLOCK_def)
  then show ?thesis
    using assms
    by (simp add: free_block_def bm_clear_def Let_def bm_read_block_def bm_write_block_def
        disk_read_ok disk_write_ok bm_ok_def)
qed

lemma find_upt_SomeD:
  assumes "find P [a..<b] = Some n"
  shows "a \<le> n" "n < b" "P n" "a \<le> m \<Longrightarrow> m < n \<Longrightarrow> \<not> P m"
proof -
  from assms obtain i where i: "i < b - a" "P (a + i)" "n = a + i" "\<forall>j<i. \<not> P (a + j)"
    by (auto simp: find_Some_iff)
  then show "a \<le> n" "n < b" "P n" by auto
  show "\<not> P m" if "a \<le> m" "m < n"
    using that i(3) i(4) [rule_format, of "m - a"] by auto
qed

lemma find_upt_ex:
  assumes "P m" "a \<le> m" "m < b"
  obtains n where "find P [a..<b] = Some n"
  using assms find_None_iff [of P "[a..<b]"] by (cases "find P [a..<b]") auto

text \<open>
  The reference definition of the allocator: the least block number from the
  first bitmap block's range on whose bit is clear.
\<close>

definition first_clear :: "block_manager \<Rightarrow> nat \<Rightarrow> nat option" where
  "first_clear bm k = find (\<lambda>n. \<not> bit_set bm (word_of_nat n)) [k * BPB..<10 * BPB]"

lemma find_append:
  "find P (xs @ ys) = (case find P xs of None \<Rightarrow> find P ys | Some x \<Rightarrow> Some x)"
  by (induction xs) simp_all

lemma find_map_add:
  "find P [k + i..<k + j] = map_option ((+) k) (find (\<lambda>n. P (k + n)) [i..<j])"
proof (induction "j - i" arbitrary: i)
  case (Suc n)
  then have "[k + i..<k + j] = (k + i) # [k + Suc i..<k + j]" "[i..<j] = i # [Suc i..<j]"
    by (simp_all add: upt_conv_Cons)
  moreover have "n = j - Suc i" using Suc.hyps(2) by simp
  ultimately show ?case using Suc.hyps(1) [of "Suc i"] by simp
qed simp

lemma last_bitmap_block: "unat (BBLOCK (word_of_nat (BLOCK_NUM - 1))) = 9"
  by (simp add: layout)

lemma first_bitmap_block: "unat (BBLOCK 0) = 2"
  by (simp add: layout)

lemma bit_set_word:
  assumes "i < BPB" "k < 10"
  shows "bit_set bm (word_of_nat (k * BPB + i)) = buf_bit (blocks (bm_d bm) (word_of_nat k)) i"
    and "unat (word_of_nat (k * BPB + i) :: u32) mod BPB = i"
    and "(word_of_nat (k * BPB + i) :: u32) div word_of_nat BPB = word_of_nat k"
proof -
  have u: "unat (word_of_nat (k * BPB + i) :: u32) = k * BPB + i"
    using assms by (intro unat_u32_of_nat) (simp add: layout)
  show m: "unat (word_of_nat (k * BPB + i) :: u32) mod BPB = i"
    unfolding u using assms by simp
  show d: "(word_of_nat (k * BPB + i) :: u32) div word_of_nat BPB = word_of_nat k"
    using assms u by (simp add: word_unat_eq_iff unat_u32_of_nat)
  show "bit_set bm (word_of_nat (k * BPB + i)) = buf_bit (blocks (bm_d bm) (word_of_nat k)) i"
    by (simp only: bit_set_def d m unat_mod_BPB)
qed

lemma first_clear_step:
  assumes "k < 10"
  shows "first_clear bm k =
     (case find (\<lambda>j. \<not> buf_bit (blocks (bm_d bm) (word_of_nat k)) j) [0..<BPB] of
        None \<Rightarrow> first_clear bm (Suc k) | Some i \<Rightarrow> Some (k * BPB + i))"
proof -
  from assms obtain j where "10 = Suc k + j"
    by (metis Suc_leI le_iff_add)
  then have "10 * BPB = Suc k * BPB + j * BPB"
    by (simp only: add_mult_distrib)
  then have "[k * BPB..<10 * BPB] = [k * BPB..<Suc k * BPB] @ [Suc k * BPB..<10 * BPB]"
    by (simp only:) (rule upt_add_eq_append, simp)
  then have "[k * BPB..<10 * BPB] = [k * BPB + 0..<k * BPB + BPB] @ [Suc k * BPB..<10 * BPB]"
    by (simp only: mult_Suc add_0 add_0_right add.commute)
  moreover have "find (\<lambda>n. \<not> bit_set bm (word_of_nat (k * BPB + n))) [0..<BPB]
      = find (\<lambda>j. \<not> buf_bit (blocks (bm_d bm) (word_of_nat k)) j) [0..<BPB]"
    using assms by (intro find_cong) (auto simp: bit_set_word simp del: of_nat_add of_nat_mult)
  ultimately show ?thesis
    by (simp add: first_clear_def find_append find_map_add [where i = 0, simplified]
          split: option.split)
qed

lemma alloc_loop_step:
  "alloc_loop bm k =
     (if k \<le> 9
      then andThen (bm_read_block bm (word_of_nat k)) (\<lambda>buf.
        (case scan_bits buf 0 of
           Some i \<Rightarrow>
             andThen (bm_write_block bm (word_of_nat k)
                       (buf[i div 8 := buf ! (i div 8) OR push_bit (i mod 8) 1]))
               (\<lambda>bm'. Inr (word_of_nat (k * BPB + i), bm'))
         | None \<Rightarrow> alloc_loop bm (Suc k)))
      else Inr (-1, bm))"
  by (subst alloc_loop.simps, subst last_bitmap_block) (rule refl)

lemma alloc_loop_eq:
  assumes "bm_ok bm"
  shows "alloc_loop bm k =
     (case first_clear bm k of
        None \<Rightarrow> Inr (-1, bm)
      | Some n \<Rightarrow> Inr (word_of_nat n, bm_mark bm (word_of_nat n)))"
proof (induction "10 - k" arbitrary: k)
  case 0
  then show ?case
    by (subst alloc_loop_step) (simp add: first_clear_def layout)
next
  case (Suc n)
  then have k: "k < 10" and IH: "alloc_loop bm (Suc k) =
     (case first_clear bm (Suc k) of
        None \<Rightarrow> Inr (-1, bm)
      | Some n \<Rightarrow> Inr (word_of_nat n, bm_mark bm (word_of_nat n)))"
    by auto
  let ?buf = "blocks (bm_d bm) (word_of_nat k)"
  have kb: "unat (word_of_nat k :: u32) < BLOCK_NUM"
    using k by (simp add: unat_u32_of_nat layout)
  show ?case
  proof (cases "scan_bits ?buf 0")
    case None
    then show ?thesis
      using assms k kb IH
      by (subst alloc_loop_step)
        (simp add: bm_read_block_def disk_read_ok bm_ok_def
          first_clear_step scan_bits_find)
  next
    case (Some i)
    then have "i < BPB"
      by (auto simp: scan_bits_find find_Some_iff)
    with Some show ?thesis
      using assms k kb
      by (subst alloc_loop_step)
        (simp add: bm_read_block_def bm_write_block_def disk_read_ok
          disk_write_ok bm_ok_def first_clear_step bit_set_word bm_mark_def Let_def
          flip: scan_bits_find del: of_nat_add of_nat_mult)
  qed
qed

lemma alloc_block_eq:
  "bm_ok bm \<Longrightarrow> alloc_block bm =
     (case first_clear bm 2 of
        None \<Rightarrow> Inr (-1, bm)
      | Some n \<Rightarrow> Inr (word_of_nat n, bm_mark bm (word_of_nat n)))"
  by (simp add: alloc_block_def first_bitmap_block alloc_loop_eq)

section \<open>The contract of the block layer\<close>

text \<open>
  What the inode layer relies on.  \<open>region\<close> is the set of blocks handed out,
  \<open>meta\<close> the blocks the allocator keeps for itself, \<open>blk s b\<close> the contents of
  block \<open>b\<close>, \<open>used s\<close> the blocks handed out and not yet returned.
\<close>

text \<open>
  Lists of blocks: take and fill one block per chunk, return a list of blocks,
  read a list of blocks.  They are the shape every loop of the inode layer has.
\<close>

fun store_chunks ::
  "('s \<Rightarrow> (u32 \<times> 's) result) \<Rightarrow> ('s \<Rightarrow> u32 \<Rightarrow> byte list \<Rightarrow> 's result) \<Rightarrow>
   byte list list \<Rightarrow> 's \<Rightarrow> (u32 list \<times> 's) result" where
  "store_chunks alloc wr [] s = Inr ([], s)"
| "store_chunks alloc wr (c # cs) s =
     andThen (alloc s) (\<lambda>(b, s1).
     andThen (wr s1 b c) (\<lambda>s2.
     andThen (store_chunks alloc wr cs s2) (\<lambda>(bs, s3). Inr (b # bs, s3))))"

fun release_all :: "('s \<Rightarrow> u32 \<Rightarrow> 's result) \<Rightarrow> u32 list \<Rightarrow> 's \<Rightarrow> 's result" where
  "release_all free [] s = Inr s"
| "release_all free (b # bs) s = andThen (free s b) (release_all free bs)"

fun fetch_all :: "('s \<Rightarrow> u32 \<Rightarrow> byte list result) \<Rightarrow> u32 list \<Rightarrow> 's \<Rightarrow> byte list result" where
  "fetch_all rd [] s = Inr []"
| "fetch_all rd (b # bs) s =
     andThen (rd s b) (\<lambda>c. andThen (fetch_all rd bs s) (\<lambda>cs. Inr (c @ cs)))"

lemma release_all_append:
  "release_all free (xs @ ys) s = andThen (release_all free xs s) (release_all free ys)"
  by (induction xs arbitrary: s) (simp_all add: andThen_def split: sum.split)

lemma fetch_all_append:
  "fetch_all rd (xs @ ys) s =
     andThen (fetch_all rd xs s) (\<lambda>a. andThen (fetch_all rd ys s) (\<lambda>b. Inr (a @ b)))"
  by (induction xs) (simp_all add: andThen_def split: sum.split)

locale block_store =
  fixes inv :: "'s \<Rightarrow> bool"
    and valid meta region :: "u32 set"
    and used :: "'s \<Rightarrow> u32 set"
    and blk :: "'s \<Rightarrow> u32 \<Rightarrow> byte list"
    and alloc :: "'s \<Rightarrow> (u32 \<times> 's) result"
    and free :: "'s \<Rightarrow> u32 \<Rightarrow> 's result"
    and rd :: "'s \<Rightarrow> u32 \<Rightarrow> byte list result"
    and wr :: "'s \<Rightarrow> u32 \<Rightarrow> byte list \<Rightarrow> 's result"
  assumes region: "region \<subseteq> valid - meta"
    and used_region: "used s \<subseteq> region"
    and blk_length: "inv s \<Longrightarrow> length (blk s b) = BLOCK_SIZE"
    and alloc_ok: "inv s \<Longrightarrow> used s \<noteq> region \<Longrightarrow>
      \<exists>b s'. alloc s = Inr (b, s') \<and> inv s' \<and> b \<in> region - used s \<and>
        used s' = insert b (used s) \<and> (\<forall>c. c \<notin> meta \<longrightarrow> blk s' c = blk s c)"
    and free_ok: "inv s \<Longrightarrow> b \<in> region \<Longrightarrow>
      \<exists>s'. free s b = Inr s' \<and> inv s' \<and> used s' = used s - {b} \<and>
        (\<forall>c. c \<notin> meta \<longrightarrow> blk s' c = blk s c)"
    and read_ok: "inv s \<Longrightarrow> b \<in> valid \<Longrightarrow> rd s b = Inr (blk s b)"
    and write_ok: "inv s \<Longrightarrow> b \<in> valid - meta \<Longrightarrow> length buf = BLOCK_SIZE \<Longrightarrow>
      \<exists>s'. wr s b buf = Inr s' \<and> inv s' \<and> used s' = used s \<and> blk s' = (blk s)(b := buf)"
begin

lemma finite_region [simp]: "finite region"
  by simp

lemma region_valid: "b \<in> region \<Longrightarrow> b \<in> valid - meta"
  using region by blast

lemma store_chunks_ok:
  assumes "inv s" "length cs \<le> card (region - used s)" "\<forall>c \<in> set cs. length c = BLOCK_SIZE"
  shows "\<exists>bs s'. store_chunks alloc wr cs s = Inr (bs, s') \<and> inv s' \<and>
    distinct bs \<and> set bs \<subseteq> region - used s \<and> used s' = used s \<union> set bs \<and>
    map (blk s') bs = cs \<and> (\<forall>c. c \<notin> meta \<longrightarrow> c \<notin> set bs \<longrightarrow> blk s' c = blk s c)"
  using assms
proof (induction cs arbitrary: s)
  case (Cons c cs)
  then have "region - used s \<noteq> {}" by force
  with Cons.prems(1) obtain b s1 where 1: "alloc s = Inr (b, s1)" "inv s1" "b \<in> region - used s"
      "used s1 = insert b (used s)" "\<forall>c. c \<notin> meta \<longrightarrow> blk s1 c = blk s c"
    using alloc_ok [of s] used_region [of s] by blast
  then obtain s2 where 2: "wr s1 b c = Inr s2" "inv s2" "used s2 = used s1"
      "blk s2 = (blk s1)(b := c)"
    using write_ok [of s1 b c] region_valid Cons.prems(3) by auto
  have "region - used s2 = (region - used s) - {b}"
    using 1 2 by auto
  then have "length cs \<le> card (region - used s2)"
    using Cons.prems(2) 1(3) by (simp add: card_Diff_singleton)
  then obtain bs s3 where 3: "store_chunks alloc wr cs s2 = Inr (bs, s3)" "inv s3"
      "distinct bs" "set bs \<subseteq> region - used s2" "used s3 = used s2 \<union> set bs"
      "map (blk s3) bs = cs" "\<forall>c. c \<notin> meta \<longrightarrow> c \<notin> set bs \<longrightarrow> blk s3 c = blk s2 c"
    using Cons.IH [of s2] 2(2) Cons.prems(3) by auto
  have "b \<notin> set bs" using 1(4) 2(3) 3(4) by auto
  moreover have "blk s3 b = c"
    using 3(7) \<open>b \<notin> set bs\<close> 1(3) region_valid 2(4) by auto
  ultimately show ?case
    using 1 2 3 by auto
qed auto

lemma release_all_ok:
  assumes "inv s" "set bs \<subseteq> region"
  shows "\<exists>s'. release_all free bs s = Inr s' \<and> inv s' \<and> used s' = used s - set bs \<and>
    (\<forall>c. c \<notin> meta \<longrightarrow> blk s' c = blk s c)"
  using assms
proof (induction bs arbitrary: s)
  case (Cons b bs)
  then obtain s1 where 1: "free s b = Inr s1" "inv s1" "used s1 = used s - {b}"
      "\<forall>c. c \<notin> meta \<longrightarrow> blk s1 c = blk s c"
    using free_ok [of s b] by auto
  with Cons.IH [of s1] Cons.prems(2) obtain s2 where
      "release_all free bs s1 = Inr s2" "inv s2" "used s2 = used s1 - set bs"
      "\<forall>c. c \<notin> meta \<longrightarrow> blk s2 c = blk s1 c"
    by auto
  with 1 show ?case by auto
qed auto

lemma fetch_all_ok:
  "inv s \<Longrightarrow> set bs \<subseteq> valid \<Longrightarrow> fetch_all rd bs s = Inr (concat (map (blk s) bs))"
  by (induction bs) (simp_all add: read_ok)

end

section \<open>The model implements the contract\<close>

definition valid_blocks :: "u32 set" where
  "valid_blocks = {b. unat b < BLOCK_NUM}"

definition bitmap_blocks :: "u32 set" where
  "bitmap_blocks = {b. 2 \<le> unat b \<and> unat b < 10}"

definition data_blocks :: "u32 set" where
  "data_blocks = {b. 2 * BPB \<le> unat b \<and> unat b < BLOCK_NUM}"

definition bm_used :: "block_manager \<Rightarrow> u32 set" where
  "bm_used bm = {b \<in> data_blocks. bit_set bm b}"

definition bm_blk :: "block_manager \<Rightarrow> u32 \<Rightarrow> byte list" where
  "bm_blk bm b = blocks (bm_d bm) b"

lemma data_block_bitmap: "b \<in> data_blocks \<Longrightarrow> b div word_of_nat BPB \<in> bitmap_blocks"
proof -
  have "BLOCK_NUM \<le> 10 * BPB" by (simp add: layout)
  then show "b \<in> data_blocks \<Longrightarrow> ?thesis"
    using div_le_mono [of "2 * BPB" "unat b" BPB]
    by (auto simp: data_blocks_def bitmap_blocks_def less_mult_imp_div_less)
qed

lemma first_clear_data:
  assumes "bm_used bm \<noteq> data_blocks"
  obtains n where "first_clear bm 2 = Some n" "word_of_nat n \<in> data_blocks - bm_used bm"
proof -
  from assms obtain b where b: "b \<in> data_blocks" "\<not> bit_set bm b"
    by (auto simp: bm_used_def)
  then have in_range: "2 * BPB \<le> unat b" "unat b < 10 * BPB" "unat b < BLOCK_NUM"
    by (auto simp: data_blocks_def layout)
  have clear: "\<not> bit_set bm (word_of_nat (unat b))"
    using b by simp
  then obtain n where n: "first_clear bm 2 = Some n"
    using find_upt_ex [where P = "\<lambda>n. \<not> bit_set bm (word_of_nat n)", OF clear in_range(1,2)]
    unfolding first_clear_def by blast
  then have "2 * BPB \<le> n" "n < 10 * BPB" "\<not> bit_set bm (word_of_nat n)"
    unfolding first_clear_def by (rule find_upt_SomeD)+
  moreover have "n \<le> unat b"
    using find_upt_SomeD(4) [OF n [unfolded first_clear_def] in_range(1)] clear
    by (meson not_le)
  moreover from this have "unat (word_of_nat n :: u32) = n"
    using in_range by (intro unat_u32_of_nat) (simp add: layout)
  ultimately show ?thesis
    using n in_range that by (simp add: data_blocks_def bm_used_def)
qed

lemma bm_used_mark: "bm_ok bm \<Longrightarrow> b \<in> data_blocks \<Longrightarrow> bm_used (bm_mark bm b) = insert b (bm_used bm)"
  by (auto simp: bm_used_def bit_set_mark)

lemma bm_used_clear: "bm_ok bm \<Longrightarrow> bm_used (bm_clear bm b) = bm_used bm - {b}"
  by (auto simp: bm_used_def bit_set_clear)

lemma bm_write_ok:
  assumes "bm_ok bm" "b \<in> valid_blocks - bitmap_blocks" "length buf = BLOCK_SIZE"
  shows "\<exists>bm'. bm_write_block bm b buf = Inr bm' \<and> bm_ok bm' \<and> bm_used bm' = bm_used bm \<and>
     bm_blk bm' = (bm_blk bm)(b := buf)"
proof -
  let ?bm = "bm\<lparr>bm_d := (bm_d bm)\<lparr>blocks := (blocks (bm_d bm))(b := buf)\<rparr>\<rparr>"
  have "bm_write_block bm b buf = Inr ?bm"
    using assms by (simp add: bm_write_block_def disk_write_ok valid_blocks_def)
  moreover have "bm_used ?bm = bm_used bm"
  proof -
    have "bit_set ?bm c = bit_set bm c" if "c \<in> data_blocks" for c
      using data_block_bitmap [OF that] assms(2) by (auto simp: bit_set_def)
    then show ?thesis by (auto simp: bm_used_def)
  qed
  ultimately show ?thesis
    using assms by (auto simp: bm_ok_def bm_blk_def)
qed

interpretation bs: block_store bm_ok valid_blocks bitmap_blocks data_blocks bm_used bm_blk
  alloc_block free_block bm_read_block bm_write_block
proof unfold_locales
  show "data_blocks \<subseteq> valid_blocks - bitmap_blocks"
    by (auto simp: data_blocks_def valid_blocks_def bitmap_blocks_def layout)
next
  fix bm
  show "bm_used bm \<subseteq> data_blocks" by (auto simp: bm_used_def)
next
  fix bm b
  assume "bm_ok bm"
  then show "length (bm_blk bm b) = BLOCK_SIZE" by (simp add: bm_blk_def bm_ok_def)
next
  fix bm
  assume bm: "bm_ok bm" "bm_used bm \<noteq> data_blocks"
  from bm(2) obtain n where n: "first_clear bm 2 = Some n" "word_of_nat n \<in> data_blocks - bm_used bm"
    by (rule first_clear_data)
  then show "\<exists>b bm'. alloc_block bm = Inr (b, bm') \<and> bm_ok bm' \<and> b \<in> data_blocks - bm_used bm \<and>
      bm_used bm' = insert b (bm_used bm) \<and>
      (\<forall>c. c \<notin> bitmap_blocks \<longrightarrow> bm_blk bm' c = bm_blk bm c)"
    using bm(1) data_block_bitmap [of "word_of_nat n"]
    by (auto simp: alloc_block_eq bm_used_mark bm_blk_def intro!: blocks_mark)
next
  fix bm b
  assume bm: "bm_ok bm" "b \<in> data_blocks"
  moreover have "10 \<le> BLOCK_NUM" by (simp add: layout)
  ultimately have "unat b div BPB < BLOCK_NUM"
    using data_block_bitmap [OF bm(2)] by (simp add: bitmap_blocks_def)
  then show "\<exists>bm'. free_block bm b = Inr bm' \<and> bm_ok bm' \<and> bm_used bm' = bm_used bm - {b} \<and>
      (\<forall>c. c \<notin> bitmap_blocks \<longrightarrow> bm_blk bm' c = bm_blk bm c)"
    using bm data_block_bitmap [OF bm(2)]
    by (auto simp: free_block_eq bm_used_clear bm_blk_def intro!: blocks_clear)
next
  fix bm b
  assume "bm_ok bm" "b \<in> valid_blocks"
  then show "bm_read_block bm b = Inr (bm_blk bm b)"
    by (simp add: bm_read_block_def bm_blk_def disk_read_ok bm_ok_def valid_blocks_def)
next
  fix bm b and buf :: "byte list"
  assume "bm_ok bm" "b \<in> valid_blocks - bitmap_blocks" "length buf = BLOCK_SIZE"
  then show "\<exists>bm'. bm_write_block bm b buf = Inr bm' \<and> bm_ok bm' \<and> bm_used bm' = bm_used bm \<and>
      bm_blk bm' = (bm_blk bm)(b := buf)"
    by (rule bm_write_ok)
qed

section \<open>A full disk\<close>

text \<open>
  The bitmap has more bits than the disk has blocks: with every data block in use the
  allocator returns a number past the end of the disk, and marks no data block.
\<close>

lemma alloc_past_disk:
  assumes bm: "bm_ok bm" and full: "bm_used bm = data_blocks"
  obtains b bm' where "alloc_block bm = Inr (b, bm')" "BLOCK_NUM \<le> unat b" "bm_ok bm'"
    "bm_used bm' = data_blocks"
proof (cases "first_clear bm 2")
  case None
  have "BLOCK_NUM \<le> unat (- 1 :: u32)"
    by (simp add: unsigned_minus_1_eq_mask mask_eq_exp_minus_1 layout)
  then show ?thesis
    using None bm full by (intro that [of "- 1" bm]) (simp_all add: alloc_block_eq)
next
  case (Some n)
  let ?b = "word_of_nat n :: u32"
  have n: "2 * BPB \<le> n" "n < 10 * BPB" "\<not> bit_set bm ?b"
    using find_upt_SomeD(1-3) [OF Some [unfolded first_clear_def]] by auto
  then have u: "unat ?b = n" by (intro unat_u32_of_nat) (simp add: layout)
  have "?b \<notin> data_blocks"
    using n(3) full unfolding bm_used_def by blast
  then have "BLOCK_NUM \<le> unat ?b" and "bm_used (bm_mark bm ?b) = data_blocks"
    using n(1) u bm full by (auto simp: data_blocks_def bm_used_def bit_set_mark)
  then show ?thesis
    using Some bm by (intro that [of ?b "bm_mark bm ?b"]) (simp_all add: alloc_block_eq)
qed

text \<open>
  A store that promises what happens when it is full: \<open>alloc\<close> still answers, and the
  block it names cannot be written.
\<close>

locale full_store = block_store +
  assumes alloc_full: "inv s \<Longrightarrow> used s = region \<Longrightarrow>
      \<exists>b s'. alloc s = Inr (b, s') \<and> inv s' \<and> used s' = region \<and> (\<forall>buf. \<exists>e. wr s' b buf = Inl e)"
begin

lemma store_chunks_full:
  assumes "inv s" "card (region - used s) < length cs" "\<forall>c \<in> set cs. length c = BLOCK_SIZE"
  shows "\<exists>e. store_chunks alloc wr cs s = Inl e"
  using assms
proof (induction cs arbitrary: s)
  case (Cons c cs)
  show ?case
  proof (cases "used s = region")
    case True
    then obtain b s1 e where "alloc s = Inr (b, s1)" "wr s1 b c = Inl e"
      using alloc_full [OF Cons.prems(1)] by blast
    then show ?thesis by simp
  next
    case False
    then obtain b s1 where 1: "alloc s = Inr (b, s1)" "inv s1" "b \<in> region - used s"
        "used s1 = insert b (used s)"
      using alloc_ok [OF Cons.prems(1)] by blast
    then obtain s2 where 2: "wr s1 b c = Inr s2" "inv s2" "used s2 = used s1"
      using write_ok [of s1 b c] region_valid Cons.prems(3) by auto
    have "region - used s2 = (region - used s) - {b}"
      using 1 2 by auto
    moreover have "0 < card (region - used s)"
      using 1(3) by (auto simp: card_gt_0_iff)
    ultimately have "card (region - used s2) < length cs"
      using Cons.prems(2) 1(3) by (simp add: card_Diff_singleton)
    then show ?thesis
      using Cons.IH [of s2] Cons.prems(3) 1(1) 2(1,2) by auto
  qed
qed simp

lemma store_chunks_room:
  assumes "inv s" "store_chunks alloc wr cs s = Inr r" "\<forall>c \<in> set cs. length c = BLOCK_SIZE"
  shows "length cs \<le> card (region - used s)"
  using store_chunks_full [OF assms(1) _ assms(3)] assms(2) by (auto simp: not_less [symmetric])

end

interpretation fl: full_store bm_ok valid_blocks bitmap_blocks data_blocks bm_used bm_blk
  alloc_block free_block bm_read_block bm_write_block
proof unfold_locales
  fix bm
  assume "bm_ok bm" "bm_used bm = data_blocks"
  then obtain b bm' where a: "alloc_block bm = Inr (b, bm')" "BLOCK_NUM \<le> unat b" "bm_ok bm'"
      "bm_used bm' = data_blocks"
    by (rule alloc_past_disk)
  have "bm_write_block bm' b buf = Inl OutOfBounds" for buf
    using a(2) by (simp add: bm_write_block_def disk_write_block_def)
  then show "\<exists>b bm'. alloc_block bm = Inr (b, bm') \<and> bm_ok bm' \<and> bm_used bm' = data_blocks \<and>
      (\<forall>buf. \<exists>e. bm_write_block bm' b buf = Inl e)"
    using a by blast
qed

end
