(* ===== verification/Extent_Protocol.thy ===== *)
theory Extent_Protocol
  imports Prelude
begin

text \<open>
  The constants and the attribute structure of src/extent_protocol.h.  The
  enumeration of inode types there declares \<open>T_DIR\<close> and \<open>T_FILE\<close> only; the
  \<open>T_SYMLINK\<close> that src/yfs_client.cc uses is declared nowhere under src/, so it
  is a parameter of the operations that mention it.
\<close>

definition T_DIR :: u32 where "T_DIR = 1"
definition T_FILE :: u32 where "T_FILE = 2"

text \<open>
  \<open>extent_protocol::xxstatus\<close> is \<open>OK, RPCERR, NOENT, IOERR\<close>;
  \<open>yfs_client::xxstatus\<close> numbers the same four names the same way and adds
  \<open>EXIST\<close>.  The client returns statuses of the extent layer as its own, so
  both are one type here.
\<close>

datatype status = OK | RPCERR | NOENT | IOERR | EXIST

record attr =
  a_type :: u32
  a_atime :: u32
  a_mtime :: u32
  a_ctime :: u32
  a_size :: u32

definition zero_attr :: attr where
  "zero_attr = \<lparr>a_type = 0, a_atime = 0, a_mtime = 0, a_ctime = 0, a_size = 0\<rparr>"

end
