(* ===== verification/Inode_Manager.thy ===== *)
theory Inode_Manager
  imports Block_Manager Extent_Protocol
begin

text \<open>
  The inode layer (\<open>class inode_manager\<close> of src/inode_manager.h and .cc): the
  on-disk inode, its byte image in a block, and every operation of the class,
  loop by loop.
\<close>

section \<open>The inode and its image in a block\<close>

definition NDIRECT :: nat where [layout]: "NDIRECT = 100"
definition NINDIRECT :: nat where [layout]: "NINDIRECT = BLOCK_SIZE div 4"
definition MAXFILE :: nat where [layout]: "MAXFILE = NDIRECT + NINDIRECT"

record inode =
  itype :: u16
  isize :: u32
  iatime :: u32
  imtime :: u32
  ictime :: u32
  iblocks :: "u32 list"

text \<open>
  The compiler's layout of \<open>struct inode\<close>: the 16-bit type, two bytes of
  padding, four 32-bit words, then the array of \<open>NDIRECT + 1\<close> block numbers,
  424 bytes in all.  \<open>IPB\<close> is 1, so the inode is at the start of its block.
  Assigning the structure leaves the padding unspecified; the model keeps the
  bytes that were there.
\<close>

definition inode_of_block :: "byte list \<Rightarrow> inode" where
  "inode_of_block buf =
     \<lparr>itype = bytes_u16 buf,
      isize = bytes_u32 (drop 4 buf),
      iatime = bytes_u32 (drop 8 buf),
      imtime = bytes_u32 (drop 12 buf),
      ictime = bytes_u32 (drop 16 buf),
      iblocks = bytes_words (NDIRECT + 1) (drop 20 buf)\<rparr>"

definition inode_to_block :: "inode \<Rightarrow> byte list \<Rightarrow> byte list" where
  "inode_to_block ino buf =
     u16_bytes (itype ino) @ chunk 2 buf 2 @ u32_bytes (isize ino) @
     u32_bytes (iatime ino) @ u32_bytes (imtime ino) @ u32_bytes (ictime ino) @
     words_bytes (iblocks ino) @ drop 424 buf"

definition zero_inode :: inode where
  "zero_inode = \<lparr>itype = 0, isize = 0, iatime = 0, imtime = 0, ictime = 0,
                 iblocks = replicate (NDIRECT + 1) 0\<rparr>"

section \<open>State\<close>

text \<open>
  The block manager, the function-local \<open>static int inum\<close> of \<open>alloc_inode\<close>,
  and the environment.
\<close>

record inode_manager =
  im_bm :: block_manager
  im_inum :: u32
  im_env :: env

section \<open>Inodes\<close>

definition get_inode :: "inode_manager \<Rightarrow> u32 \<Rightarrow> inode option result" where
  "get_inode im inum =
     (if INODE_NUM \<le> unat inum then Inr None
      else andThen (bm_read_block (im_bm im) (IBLOCK inum (sb_nblocks (bm_sb (im_bm im)))))
        (\<lambda>buf. let ino_disk = inode_of_block buf
               in if itype ino_disk = 0 then Inr None else Inr (Some ino_disk)))"

definition put_inode :: "inode_manager \<Rightarrow> u32 \<Rightarrow> inode option \<Rightarrow> inode_manager result" where
  "put_inode im inum ino =
     (case ino of
        None \<Rightarrow> Inr im
      | Some i \<Rightarrow>
          (let b = IBLOCK inum (sb_nblocks (bm_sb (im_bm im)))
           in andThen (bm_read_block (im_bm im) b) (\<lambda>buf.
              andThen (bm_write_block (im_bm im) b (inode_to_block i buf)) (\<lambda>bm.
              Inr (im\<lparr>im_bm := bm\<rparr>)))))"

definition alloc_inode :: "inode_manager \<Rightarrow> u32 \<Rightarrow> (u32 \<times> inode_manager) result" where
  "alloc_inode im type =
     (let inum = im_inum im + 1;
          (heap, e1) = env_bytes (4 * (NDIRECT + 1)) (im_env im);
          (now, e2) = env_time e1;
          ino = \<lparr>itype = ucast type, isize = 0, iatime = now, imtime = now, ictime = now,
                 iblocks = bytes_words (NDIRECT + 1) heap\<rparr>
      in andThen (put_inode (im\<lparr>im_inum := inum, im_env := e2\<rparr>) inum (Some ino)) (\<lambda>im'.
         Inr (inum, im')))"

definition inode_manager_new :: "u32 \<Rightarrow> env \<Rightarrow> inode_manager result" where
  "inode_manager_new static_inum e =
     andThen (alloc_inode \<lparr>im_bm = block_manager_new, im_inum = static_inum, im_env = e\<rparr> T_DIR)
       (\<lambda>(root_dir, im). if root_dir \<noteq> 1 then Inl Exited else Inr im)"

definition free_inode :: "inode_manager \<Rightarrow> u32 \<Rightarrow> inode_manager result" where
  "free_inode im inum =
     andThen (get_inode im inum) (\<lambda>prev_ino.
       (case prev_ino of
          None \<Rightarrow> Inr im
        | Some _ \<Rightarrow>
            (let b = IBLOCK inum (sb_nblocks (bm_sb (im_bm im)))
             in andThen (bm_read_block (im_bm im) b) (\<lambda>buf.
                andThen (bm_write_block (im_bm im) b (inode_to_block zero_inode buf)) (\<lambda>bm.
                Inr (im\<lparr>im_bm := bm\<rparr>))))))"

definition getattr :: "inode_manager \<Rightarrow> u32 \<Rightarrow> attr \<Rightarrow> attr result" where
  "getattr im inum a =
     andThen (get_inode im inum) (\<lambda>oi.
       (case oi of
          None \<Rightarrow> Inr a
        | Some ino \<Rightarrow> Inr (a\<lparr>a_type := scast (itype ino), a_atime := iatime ino,
                            a_ctime := ictime ino, a_mtime := imtime ino,
                            a_size := isize ino\<rparr>)))"

section \<open>Reading a file\<close>

text \<open>
  The loop over the direct blocks.  \<open>cap\<close> is the size of the buffer obtained
  from \<open>malloc\<close>, \<open>acc\<close> what has been copied into it.
\<close>

function read_direct ::
  "block_manager \<Rightarrow> u32 list \<Rightarrow> int \<Rightarrow> int \<Rightarrow> nat \<Rightarrow> int \<Rightarrow> byte list \<Rightarrow> (int \<times> byte list) result"
where
  "read_direct bm bl sz cap i read_size acc =
     (if read_size < sz \<and> i < NDIRECT
      then andThen (bm_read_block bm (bl ! i)) (\<lambda>c.
        if cap < read_size + int BLOCK_SIZE then Inl HeapOverflow
        else read_direct bm bl sz cap (Suc i) (read_size + int BLOCK_SIZE) (acc @ c))
      else Inr (read_size, acc))"
  by pat_completeness auto
termination
  by (relation "measure (\<lambda>(bm, bl, sz, cap, i, read_size, acc). NDIRECT - i)") auto

function read_indirect ::
  "block_manager \<Rightarrow> u32 list \<Rightarrow> int \<Rightarrow> int \<Rightarrow> nat \<Rightarrow> int \<Rightarrow> byte list \<Rightarrow> byte list result"
where
  "read_indirect bm ids sz cap i read_size acc =
     (if read_size < sz
      then if i < NINDIRECT
        then andThen (bm_read_block bm (ids ! i)) (\<lambda>c.
          if cap < read_size + int BLOCK_SIZE then Inl HeapOverflow
          else read_indirect bm ids sz cap (Suc i) (read_size + int BLOCK_SIZE) (acc @ c))
        else Inl HeapOverflow
      else Inr acc)"
  by pat_completeness auto
termination
  by (relation "measure (\<lambda>(bm, ids, sz, cap, i, read_size, acc). NINDIRECT - i)") auto

definition read_blocks :: "block_manager \<Rightarrow> inode \<Rightarrow> int \<Rightarrow> byte list result" where
  "read_blocks bm ino sz =
     (let cap = (sz div int BLOCK_SIZE + 1) * int BLOCK_SIZE
      in andThen (read_direct bm (iblocks ino) sz cap 0 0 []) (\<lambda>(read_size, buf).
         if read_size < sz
         then andThen (bm_read_block bm (iblocks ino ! NDIRECT)) (\<lambda>blockidBuf.
              read_indirect bm (bytes_words NINDIRECT blockidBuf) sz cap 0 read_size buf)
         else Inr buf))"

definition read_file :: "inode_manager \<Rightarrow> u32 \<Rightarrow> ((byte list \<times> int) \<times> inode_manager) result" where
  "read_file im inum =
     andThen (get_inode im inum) (\<lambda>oi.
       (case oi of
          None \<Rightarrow> Inl NullDeref
        | Some ino \<Rightarrow>
            (let sz = sint (isize ino)
             in andThen (read_blocks (im_bm im) ino sz) (\<lambda>buf_out.
                let (now, e) = env_time (im_env im)
                in andThen (put_inode (im\<lparr>im_env := e\<rparr>) inum (Some (ino\<lparr>iatime := now\<rparr>)))
                     (\<lambda>im'. Inr ((buf_out, sz), im'))))))"

section \<open>Returning the blocks of a file\<close>

text \<open>
  \<open>write_file\<close> and \<open>remove_file\<close> return the blocks of the file with the same
  loops; the first compares the running size with the unsigned \<open>ino->size\<close>,
  the second with an \<open>int\<close>, hence the limit is a parameter.
\<close>

function free_direct ::
  "block_manager \<Rightarrow> u32 list \<Rightarrow> int \<Rightarrow> nat \<Rightarrow> int \<Rightarrow> (int \<times> block_manager) result"
where
  "free_direct bm bl sz i free_size =
     (if free_size < sz \<and> i < NDIRECT
      then andThen (free_block bm (bl ! i)) (\<lambda>bm'.
        free_direct bm' bl sz (Suc i) (free_size + int BLOCK_SIZE))
      else Inr (free_size, bm))"
  by pat_completeness auto
termination
  by (relation "measure (\<lambda>(bm, bl, sz, i, free_size). NDIRECT - i)") auto

function free_indirect ::
  "block_manager \<Rightarrow> u32 list \<Rightarrow> int \<Rightarrow> nat \<Rightarrow> int \<Rightarrow> block_manager result"
where
  "free_indirect bm ids sz i free_size =
     (if free_size < sz
      then if i < NINDIRECT
        then andThen (free_block bm (ids ! i)) (\<lambda>bm'.
          free_indirect bm' ids sz (Suc i) (free_size + int BLOCK_SIZE))
        else Inl HeapOverflow
      else Inr bm)"
  by pat_completeness auto
termination
  by (relation "measure (\<lambda>(bm, ids, sz, i, free_size). NINDIRECT - i)") auto

definition free_blocks :: "block_manager \<Rightarrow> inode \<Rightarrow> int \<Rightarrow> block_manager result" where
  "free_blocks bm ino sz =
     andThen (free_direct bm (iblocks ino) sz 0 0) (\<lambda>(free_size, bm1).
       if free_size < sz
       then (let b = iblocks ino ! NDIRECT
             in andThen (bm_read_block bm1 b) (\<lambda>blockidBuf.
                andThen (free_indirect bm1 (bytes_words NINDIRECT blockidBuf) sz 0 free_size)
                  (\<lambda>bm2. free_block bm2 b)))
       else Inr bm1)"

section \<open>Writing and removing a file\<close>

text \<open>
  \<open>mem\<close> is the memory from \<open>buf\<close> on: the last \<open>write_block\<close> of a file whose
  size is not a multiple of the block size reads past the end of the caller's
  buffer, so \<open>write_file\<close> appends one block of undetermined bytes to it.  (Theory Inode_Memory
  has the buffer as memory of its length, and that read is a fault there.)
\<close>

function write_direct ::
  "block_manager \<Rightarrow> u32 list \<Rightarrow> byte list \<Rightarrow> int \<Rightarrow> nat \<Rightarrow> int \<Rightarrow>
   (int \<times> u32 list \<times> block_manager) result"
where
  "write_direct bm bl mem sz i written_size =
     (if written_size < sz \<and> i < NDIRECT
      then andThen (alloc_block bm) (\<lambda>(b, bm1).
           andThen (bm_write_block bm1 b (chunk BLOCK_SIZE mem (nat written_size))) (\<lambda>bm2.
           write_direct bm2 (bl[i := b]) mem sz (Suc i) (written_size + int BLOCK_SIZE)))
      else Inr (written_size, bl, bm))"
  by pat_completeness auto
termination
  by (relation "measure (\<lambda>(bm, bl, mem, sz, i, written_size). NDIRECT - i)") auto

function write_indirect ::
  "block_manager \<Rightarrow> u32 list \<Rightarrow> byte list \<Rightarrow> int \<Rightarrow> nat \<Rightarrow> int \<Rightarrow>
   (u32 list \<times> block_manager) result"
where
  "write_indirect bm ids mem sz i written_size =
     (if written_size < sz
      then andThen (alloc_block bm) (\<lambda>(b, bm1).
           if i < NINDIRECT
           then andThen (bm_write_block bm1 b (chunk BLOCK_SIZE mem (nat written_size))) (\<lambda>bm2.
                write_indirect bm2 (ids[i := b]) mem sz (Suc i) (written_size + int BLOCK_SIZE))
           else Inl HeapOverflow)
      else Inr (ids, bm))"
  by pat_completeness auto
termination
  by (relation "measure (\<lambda>(bm, ids, mem, sz, i, written_size). NINDIRECT - i)") auto

definition write_blocks ::
  "block_manager \<Rightarrow> u32 list \<Rightarrow> byte list \<Rightarrow> byte list \<Rightarrow> int \<Rightarrow> (u32 list \<times> block_manager) result"
where
  "write_blocks bm bl heap mem sz =
     andThen (write_direct bm bl mem sz 0 0) (\<lambda>(written_size, bl1, bm1).
       if written_size < sz
       then andThen (alloc_block bm1) (\<lambda>(b, bm2).
            andThen (write_indirect bm2 (bytes_words NINDIRECT heap) mem sz 0 written_size)
              (\<lambda>(ids, bm3).
            andThen (bm_write_block bm3 b (words_bytes ids)) (\<lambda>bm4.
            Inr (bl1[NDIRECT := b], bm4))))
       else Inr (bl1, bm1))"

definition write_file :: "inode_manager \<Rightarrow> u32 \<Rightarrow> byte list \<Rightarrow> int \<Rightarrow> inode_manager result" where
  "write_file im inum buf sz =
     andThen (get_inode im inum) (\<lambda>oi.
       (case oi of
          None \<Rightarrow> Inl NullDeref
        | Some ino \<Rightarrow>
            andThen (free_blocks (im_bm im) ino (uint (isize ino))) (\<lambda>bm1.
            let (tail, e1) = env_bytes BLOCK_SIZE (im_env im);
                (heap, e2) = env_bytes BLOCK_SIZE e1
            in andThen (write_blocks bm1 (iblocks ino) heap (buf @ tail) sz) (\<lambda>(bl, bm2).
               let (now, e3) = env_time e2
               in put_inode (im\<lparr>im_bm := bm2, im_env := e3\<rparr>) inum
                    (Some (ino\<lparr>isize := word_of_int sz, imtime := now, ictime := now,
                               iblocks := bl\<rparr>))))))"

definition remove_file :: "inode_manager \<Rightarrow> u32 \<Rightarrow> inode_manager result" where
  "remove_file im inum =
     andThen (get_inode im inum) (\<lambda>oi.
       (case oi of
          None \<Rightarrow> Inl NullDeref
        | Some ino \<Rightarrow>
            andThen (free_blocks (im_bm im) ino (sint (isize ino))) (\<lambda>bm.
            free_inode (im\<lparr>im_bm := bm\<rparr>) inum)))"

declare read_direct.simps [simp del] read_indirect.simps [simp del]
  free_direct.simps [simp del] free_indirect.simps [simp del]
  write_direct.simps [simp del] write_indirect.simps [simp del]

end
