(* ===== verification/Inode_Loops.thy ===== *)
theory Inode_Loops
  imports Inode_Manager
begin

text \<open>
  The byte image of an inode round-trips, and every index loop of the inode
  layer equals a recursion over the list of blocks it visits
  (\<open>release_all\<close>, \<open>fetch_all\<close>, \<open>store_chunks\<close> of Block_Manager).
\<close>

section \<open>The inode image\<close>

definition inode_fits :: "inode \<Rightarrow> bool" where
  "inode_fits ino \<longleftrightarrow> length (iblocks ino) = NDIRECT + 1"

lemma inode_fits_of_block [simp]: "inode_fits (inode_of_block buf)"
  by (simp add: inode_fits_def inode_of_block_def)

lemma inode_fits_zero [simp]: "inode_fits zero_inode"
  by (simp add: inode_fits_def zero_inode_def)

lemma inode_of_to_block:
  assumes "inode_fits ino" "length buf = BLOCK_SIZE"
  shows "inode_of_block (inode_to_block ino buf) = ino"
proof -
  have "length (chunk 2 buf 2) = 2"
    using assms(2) by (simp add: layout)
  then show ?thesis
    using assms(1)
    by (simp add: inode_of_block_def inode_to_block_def inode_fits_def del: bytes_words.simps)
qed

lemma length_inode_to_block:
  "inode_fits ino \<Longrightarrow> length buf = BLOCK_SIZE \<Longrightarrow> length (inode_to_block ino buf) = BLOCK_SIZE"
  by (simp add: inode_to_block_def inode_fits_def layout)

section \<open>Numbers of blocks\<close>

definition nblk :: "int \<Rightarrow> nat" where
  "nblk sz = nat ((sz + int BLOCK_SIZE - 1) div int BLOCK_SIZE)"

lemma nblk_less: "i < nblk sz \<longleftrightarrow> int BLOCK_SIZE * int i < sz"
  by (auto simp: nblk_def layout)

lemma nblk_0 [simp]: "nblk 0 = 0"
  by (simp add: nblk_def layout)

lemma nblk_bound: "int BLOCK_SIZE * int (nblk sz) < sz + int BLOCK_SIZE" if "0 \<le> sz"
  using that by (simp add: nblk_def layout) arith

lemma nblk_covers: "sz \<le> int BLOCK_SIZE * int (nblk sz)"
  using nblk_less [of "nblk sz" sz] by simp

lemma nblk_MAXFILE: "nblk sz \<le> MAXFILE \<longleftrightarrow> sz \<le> int MAXFILE * int BLOCK_SIZE"
  using nblk_less [of MAXFILE sz] by (auto simp: not_less mult.commute)

lemma upt_min_step: "i < n \<Longrightarrow> i < m \<Longrightarrow> [i..<min n m] = i # [Suc i..<min n m]"
  by (simp add: upt_conv_Cons)

section \<open>Returning blocks\<close>

lemma block_step: "int BLOCK_SIZE * int i + int BLOCK_SIZE = int BLOCK_SIZE * int (Suc i)"
  by (simp add: algebra_simps)

lemma free_direct_eq:
  "i \<le> NDIRECT \<Longrightarrow> i \<le> nblk sz \<Longrightarrow>
   free_direct bm bl sz i (int BLOCK_SIZE * int i) =
     andThen (release_all free_block (map ((!) bl) [i..<min (nblk sz) NDIRECT]) bm) (\<lambda>bm'.
       Inr (int BLOCK_SIZE * int (min (nblk sz) NDIRECT), bm'))"
proof (induction "NDIRECT - i" arbitrary: i bm)
  case 0
  then show ?case
    by (subst free_direct.simps) (auto simp: min_def)
next
  case (Suc k)
  show ?case
  proof (cases "i < nblk sz")
    case True
    then have "k = NDIRECT - Suc i" "Suc i \<le> NDIRECT" "Suc i \<le> nblk sz" "i < NDIRECT"
      using Suc.hyps(2) by auto
    note IH = Suc.hyps(1) [OF this(1,2,3)]
    show ?thesis
      using True \<open>i < NDIRECT\<close>
      by (subst free_direct.simps)
        (simp add: IH block_step upt_min_step nblk_less [symmetric] andThen_assoc del: of_nat_Suc)
  next
    case False
    with Suc.prems have "i = nblk sz" by auto
    with Suc.prems show ?thesis
      by (subst free_direct.simps) (simp add: nblk_less [symmetric])
  qed
qed

lemma free_indirect_eq:
  "i \<le> NINDIRECT \<Longrightarrow> NDIRECT + i \<le> nblk sz \<Longrightarrow>
   free_indirect bm ids sz i (int BLOCK_SIZE * int (NDIRECT + i)) =
     andThen (release_all free_block (map ((!) ids) [i..<min (nblk sz - NDIRECT) NINDIRECT]) bm)
       (\<lambda>bm'. if MAXFILE < nblk sz then Inl HeapOverflow else Inr bm')"
proof (induction "NINDIRECT - i" arbitrary: i bm)
  case 0
  then have "i = NINDIRECT" by simp
  with 0 show ?case
    by (subst free_indirect.simps)
      (simp add: nblk_less [symmetric] MAXFILE_def del: of_nat_add)
next
  case (Suc k)
  show ?case
  proof (cases "NDIRECT + i < nblk sz")
    case True
    then have "k = NINDIRECT - Suc i" "Suc i \<le> NINDIRECT" "NDIRECT + Suc i \<le> nblk sz"
        "i < NINDIRECT" "i < nblk sz - NDIRECT"
      using Suc.hyps(2) by auto
    note facts = this
    show ?thesis
      using True facts(4,5) Suc.hyps(1) [OF facts(1,2,3)]
      by (subst free_indirect.simps)
        (simp add: block_step upt_min_step nblk_less [symmetric] andThen_assoc
          del: of_nat_Suc of_nat_add)
  next
    case False
    with Suc.prems have "nblk sz = NDIRECT + i" by auto
    with Suc.prems show ?thesis
      by (subst free_indirect.simps)
        (simp add: nblk_less [symmetric] MAXFILE_def del: of_nat_add)
  qed
qed

section \<open>Reading blocks\<close>

lemma read_direct_eq:
  "int BLOCK_SIZE * int (nblk sz) \<le> cap \<Longrightarrow> i \<le> NDIRECT \<Longrightarrow> i \<le> nblk sz \<Longrightarrow>
   read_direct bm bl sz cap i (int BLOCK_SIZE * int i) acc =
     andThen (fetch_all bm_read_block (map ((!) bl) [i..<min (nblk sz) NDIRECT]) bm) (\<lambda>c.
       Inr (int BLOCK_SIZE * int (min (nblk sz) NDIRECT), acc @ c))"
proof (induction "NDIRECT - i" arbitrary: i acc)
  case 0
  then show ?case
    by (subst read_direct.simps) (auto simp: min_def)
next
  case (Suc k)
  show ?case
  proof (cases "i < nblk sz")
    case True
    then have "k = NDIRECT - Suc i" "Suc i \<le> NDIRECT" "Suc i \<le> nblk sz" "i < NDIRECT"
      using Suc.hyps(2) by auto
    note IH = Suc.hyps(1) [OF this(1) Suc.prems(1) this(2,3)]
    have "int BLOCK_SIZE * int (Suc i) \<le> int BLOCK_SIZE * int (nblk sz)"
      using True by (intro mult_left_mono) auto
    then show ?thesis
      using True \<open>i < NDIRECT\<close> Suc.prems(1)
      by (subst read_direct.simps)
        (simp add: IH block_step upt_min_step nblk_less [symmetric] andThen_assoc del: of_nat_Suc)
  next
    case False
    with Suc.prems have "i = nblk sz" by auto
    with Suc.prems show ?thesis
      by (subst read_direct.simps) (simp add: nblk_less [symmetric])
  qed
qed

lemma read_indirect_eq:
  "int BLOCK_SIZE * int (nblk sz) \<le> cap \<Longrightarrow> i \<le> NINDIRECT \<Longrightarrow> NDIRECT + i \<le> nblk sz \<Longrightarrow>
   nblk sz \<le> MAXFILE \<Longrightarrow>
   read_indirect bm ids sz cap i (int BLOCK_SIZE * int (NDIRECT + i)) acc =
     andThen (fetch_all bm_read_block (map ((!) ids) [i..<nblk sz - NDIRECT]) bm)
       (\<lambda>c. Inr (acc @ c))"
proof (induction "NINDIRECT - i" arbitrary: i acc)
  case 0
  then have "i = NINDIRECT" "nblk sz = NDIRECT + NINDIRECT" by (auto simp: MAXFILE_def)
  then show ?case
    by (subst read_indirect.simps) (simp add: nblk_less [symmetric] del: of_nat_add)
next
  case (Suc k)
  show ?case
  proof (cases "NDIRECT + i < nblk sz")
    case True
    then have "k = NINDIRECT - Suc i" "Suc i \<le> NINDIRECT" "NDIRECT + Suc i \<le> nblk sz"
        "i < NINDIRECT" "i < nblk sz - NDIRECT"
      using Suc.hyps(2) by auto
    note facts = this
    have "int BLOCK_SIZE * int (Suc (NDIRECT + i)) \<le> int BLOCK_SIZE * int (nblk sz)"
      using True by (intro mult_left_mono) auto
    then show ?thesis
      using True facts(4,5) Suc.prems(1) Suc.hyps(1) [OF facts(1) Suc.prems(1) facts(2,3) Suc.prems(4)]
      by (subst read_indirect.simps)
        (simp add: block_step upt_conv_Cons nblk_less [symmetric] andThen_assoc
          del: of_nat_Suc of_nat_add)
  next
    case False
    with Suc.prems have "nblk sz = NDIRECT + i" by auto
    with Suc.prems show ?thesis
      by (subst read_indirect.simps) (simp add: nblk_less [symmetric] del: of_nat_add)
  qed
qed

section \<open>Writing blocks\<close>

definition overwrite :: "'a list \<Rightarrow> nat \<Rightarrow> 'a list \<Rightarrow> 'a list" where
  "overwrite xs i ys = take i xs @ ys @ drop (i + length ys) xs"

lemma overwrite_Nil [simp]: "overwrite xs i [] = xs"
  by (simp add: overwrite_def)

lemma overwrite_Cons:
  "i < length xs \<Longrightarrow> overwrite (xs[i := y]) (Suc i) ys = overwrite xs i (y # ys)"
  by (simp add: overwrite_def take_Suc_conv_app_nth take_update_swap list_update_append)

lemma length_overwrite [simp]:
  "i + length ys \<le> length xs \<Longrightarrow> length (overwrite xs i ys) = length xs"
  by (simp add: overwrite_def)

lemma store_chunks_length:
  "store_chunks alloc wr cs s = Inr (bs, s') \<Longrightarrow> length bs = length cs"
  by (induction cs arbitrary: s bs) (auto simp: andThen_eq_Inr_iff)

abbreviation mem_chunks :: "byte list \<Rightarrow> nat \<Rightarrow> nat \<Rightarrow> byte list list" where
  "mem_chunks mem i j \<equiv> map (\<lambda>k. chunk BLOCK_SIZE mem (BLOCK_SIZE * k)) [i..<j]"

lemma nat_block: "nat (int BLOCK_SIZE * int i) = BLOCK_SIZE * i"
  by (simp add: nat_mult_distrib)

lemma write_direct_eq:
  "i \<le> NDIRECT \<Longrightarrow> i \<le> nblk sz \<Longrightarrow> NDIRECT \<le> length bl \<Longrightarrow>
   write_direct bm bl mem sz i (int BLOCK_SIZE * int i) =
     andThen (store_chunks alloc_block bm_write_block (mem_chunks mem i (min (nblk sz) NDIRECT)) bm)
       (\<lambda>(ids, bm'). Inr (int BLOCK_SIZE * int (min (nblk sz) NDIRECT), overwrite bl i ids, bm'))"
proof (induction "NDIRECT - i" arbitrary: i bl bm)
  case 0
  then show ?case
    by (subst write_direct.simps) (auto simp: min_def)
next
  case (Suc k)
  show ?case
  proof (cases "i < nblk sz")
    case True
    then have facts: "k = NDIRECT - Suc i" "Suc i \<le> NDIRECT" "Suc i \<le> nblk sz" "i < NDIRECT"
        "i < length bl"
      using Suc.hyps(2) Suc.prems(3) by auto
    have "NDIRECT \<le> length (bl[i := b])" for b
      using Suc.prems(3) by simp
    note IH = Suc.hyps(1) [OF facts(1,2,3) this]
    show ?thesis
      using True facts(4,5)
      by (subst write_direct.simps)
        (simp add: IH block_step nat_block upt_min_step nblk_less [symmetric] andThen_assoc
          case_prod_beta' overwrite_Cons del: of_nat_Suc)
  next
    case False
    with Suc.prems have "i = nblk sz" by auto
    with Suc.prems show ?thesis
      by (subst write_direct.simps) (simp add: nblk_less [symmetric])
  qed
qed

lemma write_indirect_eq:
  "i \<le> NINDIRECT \<Longrightarrow> NDIRECT + i \<le> nblk sz \<Longrightarrow> NINDIRECT \<le> length ids \<Longrightarrow>
   write_indirect bm ids mem sz i (int BLOCK_SIZE * int (NDIRECT + i)) =
     andThen (store_chunks alloc_block bm_write_block
               (mem_chunks mem (NDIRECT + i) (min (nblk sz) MAXFILE)) bm)
       (\<lambda>(bs, bm').
          if MAXFILE < nblk sz then andThen (alloc_block bm') (\<lambda>_. Inl HeapOverflow)
          else Inr (overwrite ids i bs, bm'))"
proof (induction "NINDIRECT - i" arbitrary: i ids bm)
  case 0
  then have "i = NINDIRECT" by simp
  with 0 show ?case
    by (subst write_indirect.simps)
      (simp add: nblk_less [symmetric] MAXFILE_def case_prod_beta' del: of_nat_add)
next
  case (Suc k)
  show ?case
  proof (cases "NDIRECT + i < nblk sz")
    case True
    then have facts: "k = NINDIRECT - Suc i" "Suc i \<le> NINDIRECT" "NDIRECT + Suc i \<le> nblk sz"
        "i < NINDIRECT" "NDIRECT + i < MAXFILE" "i < length ids"
      using Suc.hyps(2) Suc.prems(3) by (auto simp: MAXFILE_def)
    have "NINDIRECT \<le> length (ids[i := b])" for b
      using Suc.prems(3) by simp
    note IH = Suc.hyps(1) [OF facts(1,2,3) this]
    show ?thesis
      using True facts(4,5,6) IH
      by (subst write_indirect.simps, cases "MAXFILE < nblk sz")
        (simp_all add: block_step nat_block upt_conv_Cons nblk_less [symmetric] andThen_assoc
          case_prod_beta' overwrite_Cons del: of_nat_Suc of_nat_add)
  next
    case False
    with Suc.prems have "nblk sz = NDIRECT + i" by auto
    with Suc.prems show ?thesis
      by (subst write_indirect.simps)
        (simp add: nblk_less [symmetric] MAXFILE_def del: of_nat_add)
  qed
qed

end
