(* ===== verification/Inode_Blocks.thy ===== *)
theory Inode_Blocks
  imports Inode_Loops
begin

text \<open>
  The blocks a file owns, and what freeing, reading and writing them does to
  the block layer.  Everything here rests on the interpretation \<open>bs\<close> of the
  block layer's contract and on the loop equations of Inode_Loops.
\<close>

section \<open>The blocks of a file\<close>

text \<open>
  \<open>bl\<close> is the array of block numbers in the inode, \<open>n\<close> the number of data
  blocks of the file.
\<close>

definition data_ids :: "block_manager \<Rightarrow> u32 list \<Rightarrow> nat \<Rightarrow> u32 list" where
  "data_ids bm bl n =
     take n (take NDIRECT bl) @
     take (n - NDIRECT) (bytes_words NINDIRECT (bm_blk bm (bl ! NDIRECT)))"

definition owned_ids :: "block_manager \<Rightarrow> u32 list \<Rightarrow> nat \<Rightarrow> u32 list" where
  "owned_ids bm bl n = data_ids bm bl n @ (if NDIRECT < n then [bl ! NDIRECT] else [])"

definition blocks_needed :: "nat \<Rightarrow> nat" where
  "blocks_needed n = n + (if NDIRECT < n then 1 else 0)"

lemma length_data_ids:
  "length bl = NDIRECT + 1 \<Longrightarrow> n \<le> MAXFILE \<Longrightarrow> length (data_ids bm bl n) = n"
  by (simp add: data_ids_def MAXFILE_def)

lemma length_owned_ids:
  "length bl = NDIRECT + 1 \<Longrightarrow> n \<le> MAXFILE \<Longrightarrow> length (owned_ids bm bl n) = blocks_needed n"
  by (simp add: owned_ids_def blocks_needed_def length_data_ids)

lemma data_ids_direct: "n \<le> NDIRECT \<Longrightarrow> data_ids bm bl n = take n (take NDIRECT bl)"
  by (simp add: data_ids_def)

lemma owned_ids_0 [simp]: "owned_ids bm bl 0 = []"
  by (simp add: owned_ids_def data_ids_def)

lemma data_ids_cong:
  "(NDIRECT < n \<Longrightarrow> bm_blk bm' (bl ! NDIRECT) = bm_blk bm (bl ! NDIRECT)) \<Longrightarrow>
   data_ids bm' bl n = data_ids bm bl n"
  by (cases "NDIRECT < n") (simp_all add: data_ids_def)

lemma owned_ids_cong:
  "(NDIRECT < n \<Longrightarrow> bm_blk bm' (bl ! NDIRECT) = bm_blk bm (bl ! NDIRECT)) \<Longrightarrow>
   owned_ids bm' bl n = owned_ids bm bl n"
  using data_ids_cong [of n bm' bl bm] by (simp add: owned_ids_def)

lemma indirect_owned: "NDIRECT < n \<Longrightarrow> bl ! NDIRECT \<in> set (owned_ids bm bl n)"
  by (simp add: owned_ids_def)

lemma data_owned: "set (data_ids bm bl n) \<subseteq> set (owned_ids bm bl n)"
  by (simp add: owned_ids_def)

section \<open>Block regions\<close>

lemma data_not_bitmap: "b \<in> data_blocks \<Longrightarrow> b \<notin> bitmap_blocks"
  and data_valid: "b \<in> data_blocks \<Longrightarrow> b \<in> valid_blocks"
  using bs.region by auto

section \<open>Freeing\<close>

lemma free_blocks_ok:
  assumes bm: "bm_ok bm" and bl: "length (iblocks ino) = NDIRECT + 1"
    and n: "nblk sz \<le> MAXFILE"
    and own: "set (owned_ids bm (iblocks ino) (nblk sz)) \<subseteq> data_blocks"
  shows "\<exists>bm'. free_blocks bm ino sz = Inr bm' \<and> bm_ok bm' \<and>
    bm_used bm' = bm_used bm - set (owned_ids bm (iblocks ino) (nblk sz)) \<and>
    (\<forall>c. c \<notin> bitmap_blocks \<longrightarrow> bm_blk bm' c = bm_blk bm c)"
proof -
  let ?bl = "iblocks ino" and ?n = "nblk sz"
  let ?dir = "take ?n (take NDIRECT ?bl)"
  have dir: "set ?dir \<subseteq> data_blocks"
    using own by (auto simp: owned_ids_def data_ids_def)
  obtain bm1 where 1: "release_all free_block ?dir bm = Inr bm1" "bm_ok bm1"
      "bm_used bm1 = bm_used bm - set ?dir" "\<forall>c. c \<notin> bitmap_blocks \<longrightarrow> bm_blk bm1 c = bm_blk bm c"
    using bs.release_all_ok [OF bm dir] by blast
  have loop: "free_direct bm ?bl sz 0 0 = Inr (int BLOCK_SIZE * int (min ?n NDIRECT), bm1)"
    using free_direct_eq [of 0 sz bm ?bl] 1(1) bl map_nth_prefix [of "min ?n NDIRECT" ?bl NDIRECT]
    by (simp add: min.commute min_def split: if_splits)
  show ?thesis
  proof (cases "NDIRECT < ?n")
    case False
    then have "\<not> int BLOCK_SIZE * int ?n < sz" using nblk_less [of ?n sz] by simp
    with False have "free_blocks bm ino sz = Inr bm1"
      by (simp add: free_blocks_def loop min_def)
    moreover have "set ?dir = set (owned_ids bm ?bl ?n)"
      using False by (simp add: owned_ids_def data_ids_def)
    ultimately show ?thesis using 1 by auto
  next
    case True
    let ?b = "?bl ! NDIRECT"
    let ?ind = "take (?n - NDIRECT) (bytes_words NINDIRECT (bm_blk bm ?b))"
    have b: "?b \<in> data_blocks" and ind: "set ?ind \<subseteq> data_blocks"
      using own True by (auto simp: owned_ids_def data_ids_def)
    have rd: "bm_read_block bm1 ?b = Inr (bm_blk bm ?b)"
      using bs.read_ok [OF 1(2) data_valid [OF b]] 1(4) data_not_bitmap [OF b] by simp
    obtain bm2 where 2: "release_all free_block ?ind bm1 = Inr bm2" "bm_ok bm2"
        "bm_used bm2 = bm_used bm1 - set ?ind" "\<forall>c. c \<notin> bitmap_blocks \<longrightarrow> bm_blk bm2 c = bm_blk bm1 c"
      using bs.release_all_ok [OF 1(2) ind] by blast
    have "free_indirect bm1 (bytes_words NINDIRECT (bm_blk bm ?b)) sz 0 (int BLOCK_SIZE * int NDIRECT)
        = Inr bm2"
      using free_indirect_eq [of 0 sz bm1 "bytes_words NINDIRECT (bm_blk bm ?b)"] True n 2(1)
        map_nth_take [of "?n - NDIRECT" "bytes_words NINDIRECT (bm_blk bm ?b)"]
      by (simp add: MAXFILE_def min_def split: if_splits)
    moreover have "int BLOCK_SIZE * int NDIRECT < sz"
      using True nblk_less by simp
    ultimately have eq: "free_blocks bm ino sz = free_block bm2 ?b"
      using True by (simp add: free_blocks_def loop rd min_def)
    obtain bm3 where 3: "free_block bm2 ?b = Inr bm3" "bm_ok bm3" "bm_used bm3 = bm_used bm2 - {?b}"
        "\<forall>c. c \<notin> bitmap_blocks \<longrightarrow> bm_blk bm3 c = bm_blk bm2 c"
      using bs.free_ok [OF 2(2) b] by blast
    have "set (owned_ids bm ?bl ?n) = set ?dir \<union> set ?ind \<union> {?b}"
      using True by (simp add: owned_ids_def data_ids_def)
    then show ?thesis using 1 2 3 eq by auto
  qed
qed

section \<open>Reading\<close>

lemma read_blocks_ok:
  assumes bm: "bm_ok bm" and bl: "length (iblocks ino) = NDIRECT + 1"
    and n: "nblk sz \<le> MAXFILE" "0 \<le> sz"
    and own: "set (owned_ids bm (iblocks ino) (nblk sz)) \<subseteq> data_blocks"
  shows "read_blocks bm ino sz = Inr (concat (map (bm_blk bm) (data_ids bm (iblocks ino) (nblk sz))))"
proof -
  let ?bl = "iblocks ino" and ?n = "nblk sz"
  let ?dir = "take ?n (take NDIRECT ?bl)"
  define cap where "cap = (sz div int BLOCK_SIZE + 1) * int BLOCK_SIZE"
  have cap: "int BLOCK_SIZE * int ?n \<le> cap"
  proof -
    have "(sz + int BLOCK_SIZE - 1) div int BLOCK_SIZE \<le> (sz + int BLOCK_SIZE) div int BLOCK_SIZE"
      by (intro zdiv_mono1) (simp_all add: layout)
    then have "int (nblk sz) \<le> sz div int BLOCK_SIZE + 1"
      using n(2) by (simp add: nblk_def layout pos_imp_zdiv_nonneg_iff)
    then show ?thesis
      by (simp add: cap_def mult.commute mult_left_mono)
  qed
  have dir: "set ?dir \<subseteq> valid_blocks"
    using own data_valid by (auto simp: owned_ids_def data_ids_def)
  have loop: "read_direct bm ?bl sz cap 0 0 [] =
      Inr (int BLOCK_SIZE * int (min ?n NDIRECT), concat (map (bm_blk bm) ?dir))"
    using read_direct_eq [OF cap, of 0 bm ?bl "[]"] bs.fetch_all_ok [OF bm dir] bl
      map_nth_prefix [of "min ?n NDIRECT" ?bl NDIRECT]
    by (simp add: min.commute min_def split: if_splits)
  show ?thesis
  proof (cases "NDIRECT < ?n")
    case False
    then have "\<not> int BLOCK_SIZE * int ?n < sz" using nblk_less [of ?n sz] by simp
    with False show ?thesis
      using loop by (simp add: read_blocks_def cap_def Let_def data_ids_def min_def)
  next
    case True
    let ?b = "?bl ! NDIRECT"
    let ?ind = "take (?n - NDIRECT) (bytes_words NINDIRECT (bm_blk bm ?b))"
    have b: "?b \<in> data_blocks" and ind: "set ?ind \<subseteq> valid_blocks"
      using own True data_valid by (auto simp: owned_ids_def data_ids_def)
    have "read_indirect bm (bytes_words NINDIRECT (bm_blk bm ?b)) sz cap 0
          (int BLOCK_SIZE * int NDIRECT) (concat (map (bm_blk bm) ?dir)) =
        Inr (concat (map (bm_blk bm) ?dir) @ concat (map (bm_blk bm) ?ind))"
      using read_indirect_eq [OF cap, of 0] True n(1) bs.fetch_all_ok [OF bm ind]
        map_nth_take [of "?n - NDIRECT" "bytes_words NINDIRECT (bm_blk bm ?b)"]
      by (simp add: MAXFILE_def)
    moreover have "int BLOCK_SIZE * int NDIRECT < sz"
      using True nblk_less by simp
    ultimately show ?thesis
      using True loop bs.read_ok [OF bm data_valid [OF b]]
      by (simp add: read_blocks_def cap_def Let_def data_ids_def min_def)
  qed
qed

section \<open>Writing\<close>

lemma overwrite_take: "length ys = k \<Longrightarrow> take k (overwrite xs 0 ys) = ys"
  by (simp add: overwrite_def)

lemma words_block:
  "length ids = NINDIRECT \<Longrightarrow> bytes_words NINDIRECT (words_bytes ids) = ids"
  "length ids = NINDIRECT \<Longrightarrow> length (words_bytes ids) = BLOCK_SIZE"
  by (simp_all add: layout)

lemma mem_chunks_length:
  "BLOCK_SIZE * j \<le> length mem \<Longrightarrow> c \<in> set (mem_chunks mem i j) \<Longrightarrow> length c = BLOCK_SIZE"
  by (auto intro!: length_chunk) (metis Suc_leI mult_Suc_right mult_le_mono2 order_trans add.commute)

lemma concat_mem_chunks:
  "BLOCK_SIZE * n \<le> length mem \<Longrightarrow> concat (mem_chunks mem 0 n) = take (BLOCK_SIZE * n) mem"
  using concat_chunks [of 0 BLOCK_SIZE n mem] by simp

text \<open>
  What the write loops establish: the new block array names \<open>n\<close> data blocks
  (and an indirect block where needed), all of them free before, now in use
  and holding the first \<open>n\<close> blocks of \<open>mem\<close>; no other data block changed.
\<close>

definition wrote :: "block_manager \<Rightarrow> nat \<Rightarrow> byte list \<Rightarrow> u32 list \<Rightarrow> block_manager \<Rightarrow> bool" where
  "wrote bm n mem bl' bm' \<longleftrightarrow>
     length bl' = NDIRECT + 1 \<and> bm_ok bm' \<and> distinct (owned_ids bm' bl' n) \<and>
     set (owned_ids bm' bl' n) \<subseteq> data_blocks - bm_used bm \<and>
     bm_used bm' = bm_used bm \<union> set (owned_ids bm' bl' n) \<and>
     concat (map (bm_blk bm') (data_ids bm' bl' n)) = take (BLOCK_SIZE * n) mem \<and>
     (\<forall>c. c \<notin> bitmap_blocks \<longrightarrow> c \<notin> set (owned_ids bm' bl' n) \<longrightarrow> bm_blk bm' c = bm_blk bm c)"

lemma write_blocks_direct:
  assumes bm: "bm_ok bm" and bl: "length bl = NDIRECT + 1"
    and n: "nblk sz \<le> NDIRECT"
    and mem: "BLOCK_SIZE * nblk sz \<le> length mem"
    and room: "blocks_needed (nblk sz) \<le> card (data_blocks - bm_used bm)"
  shows "\<exists>bl' bm'. write_blocks bm bl heap mem sz = Inr (bl', bm') \<and> wrote bm (nblk sz) mem bl' bm'"
proof -
  let ?n = "nblk sz"
  have "length (mem_chunks mem 0 ?n) \<le> card (data_blocks - bm_used bm)"
    using room n by (simp add: blocks_needed_def)
  then obtain bs1 bm1 where 1: "store_chunks alloc_block bm_write_block (mem_chunks mem 0 ?n) bm = Inr (bs1, bm1)"
      "bm_ok bm1" "distinct bs1" "set bs1 \<subseteq> data_blocks - bm_used bm"
      "bm_used bm1 = bm_used bm \<union> set bs1" "map (bm_blk bm1) bs1 = mem_chunks mem 0 ?n"
      "\<forall>c. c \<notin> bitmap_blocks \<longrightarrow> c \<notin> set bs1 \<longrightarrow> bm_blk bm1 c = bm_blk bm c"
    using bs.store_chunks_ok [OF bm] mem_chunks_length [OF mem] by blast
  have len: "length bs1 = ?n" using store_chunks_length [OF 1(1)] by simp
  let ?bl = "overwrite bl 0 bs1"
  have ids: "owned_ids bm1 ?bl ?n = bs1" "data_ids bm1 ?bl ?n = bs1"
    using len n bl by (simp_all add: owned_ids_def data_ids_def min_def overwrite_take)
  have "\<not> int BLOCK_SIZE * int ?n < sz" using nblk_less [of ?n sz] by simp
  then have "write_blocks bm bl heap mem sz = Inr (?bl, bm1)"
    using write_direct_eq [of 0 sz bl bm mem] 1(1) n bl by (simp add: write_blocks_def min_def)
  moreover have "length ?bl = NDIRECT + 1" using bl len n by simp
  ultimately show ?thesis using 1 ids concat_mem_chunks [OF mem] by (auto simp: wrote_def)
qed

lemma write_blocks_indirect:
  assumes bm: "bm_ok bm" and bl: "length bl = NDIRECT + 1"
    and n: "NDIRECT < nblk sz" "nblk sz \<le> MAXFILE"
    and mem: "BLOCK_SIZE * nblk sz \<le> length mem"
    and room: "blocks_needed (nblk sz) \<le> card (data_blocks - bm_used bm)"
  shows "\<exists>bl' bm'. write_blocks bm bl heap mem sz = Inr (bl', bm') \<and> wrote bm (nblk sz) mem bl' bm'"
proof -
  let ?n = "nblk sz"
  let ?free = "\<lambda>bm. card (data_blocks - bm_used bm)"
  have lens: "c \<in> set (mem_chunks mem i j) \<Longrightarrow> j \<le> ?n \<Longrightarrow> length c = BLOCK_SIZE" for c i j
    using mem_chunks_length [of j mem c i] mem by (meson mult_le_mono2 order_trans)
  have "length (mem_chunks mem 0 NDIRECT) \<le> ?free bm"
    using room n by (simp add: blocks_needed_def)
  then obtain bs1 bm1 where 1: "store_chunks alloc_block bm_write_block (mem_chunks mem 0 NDIRECT) bm = Inr (bs1, bm1)"
      "bm_ok bm1" "distinct bs1" "set bs1 \<subseteq> data_blocks - bm_used bm"
      "bm_used bm1 = bm_used bm \<union> set bs1" "map (bm_blk bm1) bs1 = mem_chunks mem 0 NDIRECT"
      "\<forall>c. c \<notin> bitmap_blocks \<longrightarrow> c \<notin> set bs1 \<longrightarrow> bm_blk bm1 c = bm_blk bm c"
    using bs.store_chunks_ok [OF bm, of "mem_chunks mem 0 NDIRECT"] lens n by force
  have len1: "length bs1 = NDIRECT" using store_chunks_length [OF 1(1)] by simp
  have "data_blocks - bm_used bm1 = (data_blocks - bm_used bm) - set bs1" using 1(5) by auto
  then have free1: "?free bm1 = ?free bm - NDIRECT"
    using 1(3,4) len1 by (simp add: card_Diff_subset distinct_card)
  then have "bm_used bm1 \<noteq> data_blocks"
    using room n by (auto simp: blocks_needed_def)
  then obtain b bm2 where 2: "alloc_block bm1 = Inr (b, bm2)" "bm_ok bm2" "b \<in> data_blocks - bm_used bm1"
      "bm_used bm2 = insert b (bm_used bm1)" "\<forall>c. c \<notin> bitmap_blocks \<longrightarrow> bm_blk bm2 c = bm_blk bm1 c"
    using bs.alloc_ok [OF 1(2)] by blast
  have "data_blocks - bm_used bm2 = (data_blocks - bm_used bm1) - {b}" using 2(4) by auto
  then have "?free bm2 = ?free bm1 - 1"
    using 2(3) by (simp add: card_Diff_singleton)
  then have "length (mem_chunks mem NDIRECT ?n) \<le> ?free bm2"
    using room n free1 by (simp add: blocks_needed_def)
  then obtain bs2 bm3 where 3: "store_chunks alloc_block bm_write_block (mem_chunks mem NDIRECT ?n) bm2 = Inr (bs2, bm3)"
      "bm_ok bm3" "distinct bs2" "set bs2 \<subseteq> data_blocks - bm_used bm2"
      "bm_used bm3 = bm_used bm2 \<union> set bs2" "map (bm_blk bm3) bs2 = mem_chunks mem NDIRECT ?n"
      "\<forall>c. c \<notin> bitmap_blocks \<longrightarrow> c \<notin> set bs2 \<longrightarrow> bm_blk bm3 c = bm_blk bm2 c"
    using bs.store_chunks_ok [OF 2(2), of "mem_chunks mem NDIRECT ?n"] lens by force
  have len2: "length bs2 = ?n - NDIRECT" using store_chunks_length [OF 3(1)] by simp
  let ?ids = "overwrite (bytes_words NINDIRECT heap) 0 bs2"
  have ids: "length ?ids = NINDIRECT" using len2 n by (simp add: MAXFILE_def)
  have b: "b \<in> valid_blocks - bitmap_blocks" using 2(3) data_valid data_not_bitmap by blast
  then obtain bm4 where 4: "bm_write_block bm3 b (words_bytes ?ids) = Inr bm4" "bm_ok bm4"
      "bm_used bm4 = bm_used bm3" "bm_blk bm4 = (bm_blk bm3)(b := words_bytes ?ids)"
    using bs.write_ok [OF 3(2) b] words_block(2) [OF ids] by blast
  let ?bl = "(overwrite bl 0 bs1)[NDIRECT := b]"
  have "int BLOCK_SIZE * int NDIRECT < sz" using n nblk_less by simp
  moreover have "write_direct bm bl mem sz 0 0 =
      Inr (int BLOCK_SIZE * int NDIRECT, overwrite bl 0 bs1, bm1)"
    using write_direct_eq [of 0 sz bl bm mem] 1(1) n bl by (simp add: min_def)
  moreover have "write_indirect bm2 (bytes_words NINDIRECT heap) mem sz 0 (int BLOCK_SIZE * int NDIRECT)
      = Inr (?ids, bm3)"
    using write_indirect_eq [of 0 sz "bytes_words NINDIRECT heap" bm2 mem] 3(1) n by (simp add: min_def)
  ultimately have eq: "write_blocks bm bl heap mem sz = Inr (?bl, bm4)"
    using 2(1) 4(1) by (simp add: write_blocks_def)
  have len: "length ?bl = NDIRECT + 1" using bl len1 by simp
  have nth: "?bl ! NDIRECT = b" and dir: "take NDIRECT ?bl = bs1"
    using bl len1 by (simp_all add: overwrite_take)
  have data: "data_ids bm4 ?bl ?n = bs1 @ bs2"
    using n len1 len2 words_block(1) [OF ids]
    by (simp only: data_ids_def nth dir 4(4) fun_upd_same) (simp add: overwrite_take)
  then have owned: "owned_ids bm4 ?bl ?n = bs1 @ bs2 @ [b]"
    using n nth by (simp add: owned_ids_def)
  have disj: "b \<notin> set bs1" "b \<notin> set bs2" "set bs1 \<inter> set bs2 = {}"
    using 1(5) 2(3,4) 3(4) by auto
  have keep: "bm_blk bm4 c = bm_blk bm1 c" if "c \<in> set bs1" for c
  proof -
    have "c \<notin> bitmap_blocks" "c \<notin> set bs2" "c \<noteq> b"
      using that 1(4) disj data_not_bitmap by auto
    then show ?thesis using 2(5) 3(7) 4(4) by simp
  qed
  have "map (bm_blk bm4) bs1 = mem_chunks mem 0 NDIRECT"
    using keep 1(6) by (simp cong: map_cong)
  moreover have "map (bm_blk bm4) bs2 = mem_chunks mem NDIRECT ?n"
    unfolding 3(6) [symmetric] using disj(2) 4(4) by (intro map_cong) auto
  moreover have "[0..<?n] = [0..<NDIRECT] @ [NDIRECT..<?n]"
    using n by (metis le_add_diff_inverse less_imp_le_nat upt_add_eq_append zero_le)
  ultimately have "map (bm_blk bm4) (data_ids bm4 ?bl ?n) = mem_chunks mem 0 ?n"
    by (simp add: data)
  then have "concat (map (bm_blk bm4) (data_ids bm4 ?bl ?n)) = take (BLOCK_SIZE * ?n) mem"
    by (simp only: concat_mem_chunks [OF mem])
  moreover have "distinct (bs1 @ bs2 @ [b])" using 1(3) 3(3) disj by auto
  moreover have "set (bs1 @ bs2 @ [b]) \<subseteq> data_blocks - bm_used bm"
    using 1(4,5) 2(3,4) 3(4) by auto
  moreover have "bm_used bm4 = bm_used bm \<union> set (bs1 @ bs2 @ [b])"
    using 1(5) 2(4) 3(5) 4(3) by auto
  moreover have "\<forall>c. c \<notin> bitmap_blocks \<longrightarrow> c \<notin> set (bs1 @ bs2 @ [b]) \<longrightarrow> bm_blk bm4 c = bm_blk bm c"
    using 1(7) 2(5) 3(7) 4(4) by simp
  ultimately have "wrote bm ?n mem ?bl bm4"
    using len 4(2) unfolding wrote_def owned by blast
  with eq show ?thesis by blast
qed

lemma write_blocks_ok:
  assumes "bm_ok bm" "length bl = NDIRECT + 1" "nblk sz \<le> MAXFILE"
    "BLOCK_SIZE * nblk sz \<le> length mem"
    "blocks_needed (nblk sz) \<le> card (data_blocks - bm_used bm)"
  shows "\<exists>bl' bm'. write_blocks bm bl heap mem sz = Inr (bl', bm') \<and> wrote bm (nblk sz) mem bl' bm'"
proof (cases "nblk sz \<le> NDIRECT")
  case True
  then show ?thesis by (rule write_blocks_direct [OF assms(1,2) _ assms(4,5)])
next
  case False
  then show ?thesis by (intro write_blocks_indirect [OF assms(1,2) _ assms(3-5)]) simp
qed

end
