(* ===== verification/Inode_Files.thy ===== *)
theory Inode_Files
  imports Inode_Blocks
begin

text \<open>
  The inode layer as a map from inode numbers to files.  \<open>im_ok\<close> is the
  invariant of the disk image: every inode in use is well formed, its blocks
  are marked in the bitmap, and no block belongs to two files or twice to one.
  \<open>files\<close> is the abstraction; each operation of the class is shown to keep
  the invariant and to act on the map as its name says.
\<close>

section \<open>Inode blocks\<close>

definition ino_blk :: "u32 \<Rightarrow> u32" where
  "ino_blk i = IBLOCK i (word_of_nat BLOCK_NUM)"

lemma ino_blk_eq: "ino_blk i = i + 11"
  by (simp add: ino_blk_def layout)

lemma ino_blk_inj [simp]: "ino_blk i = ino_blk j \<longleftrightarrow> i = j"
  by (simp add: ino_blk_eq)

lemma unat_ino_blk: "unat i < 2 ^ 31 \<Longrightarrow> unat (ino_blk i) = unat i + 11"
  by (simp add: ino_blk_eq unat_word_ariths)

lemma ino_blk_region:
  "unat i < 8181 \<Longrightarrow> ino_blk i \<notin> data_blocks"
  "unat i < 8181 \<Longrightarrow> ino_blk i \<in> valid_blocks - bitmap_blocks"
  by (auto simp: unat_ino_blk data_blocks_def valid_blocks_def bitmap_blocks_def layout)

lemma sb_nblocks_ok [simp]: "bm_ok bm \<Longrightarrow> IBLOCK i (sb_nblocks (bm_sb bm)) = ino_blk i"
  by (simp add: bm_ok_def format_sb_def ino_blk_def)

section \<open>Inodes in use\<close>

definition inode_at :: "block_manager \<Rightarrow> u32 \<Rightarrow> inode" where
  "inode_at bm i = inode_of_block (bm_blk bm (ino_blk i))"

definition live :: "block_manager \<Rightarrow> u32 \<Rightarrow> bool" where
  "live bm i \<longleftrightarrow> unat i < INODE_NUM \<and> itype (inode_at bm i) \<noteq> 0"

definition ino_owned :: "block_manager \<Rightarrow> inode \<Rightarrow> u32 list" where
  "ino_owned bm ino = owned_ids bm (iblocks ino) (nblk (uint (isize ino)))"

definition ino_data :: "block_manager \<Rightarrow> inode \<Rightarrow> byte list" where
  "ino_data bm ino =
     take (unat (isize ino)) (concat (map (bm_blk bm) (data_ids bm (iblocks ino) (nblk (uint (isize ino))))))"

definition inode_ok :: "block_manager \<Rightarrow> inode \<Rightarrow> bool" where
  "inode_ok bm ino \<longleftrightarrow>
     length (iblocks ino) = NDIRECT + 1 \<and> nblk (uint (isize ino)) \<le> MAXFILE \<and>
     distinct (ino_owned bm ino) \<and> set (ino_owned bm ino) \<subseteq> bm_used bm"

definition im_ok :: "inode_manager \<Rightarrow> bool" where
  "im_ok im \<longleftrightarrow> bm_ok (im_bm im) \<and>
     (\<forall>i. live (im_bm im) i \<longrightarrow> inode_ok (im_bm im) (inode_at (im_bm im) i)) \<and>
     (\<forall>i j. live (im_bm im) i \<longrightarrow> live (im_bm im) j \<longrightarrow> i \<noteq> j \<longrightarrow>
        set (ino_owned (im_bm im) (inode_at (im_bm im) i)) \<inter>
        set (ino_owned (im_bm im) (inode_at (im_bm im) j)) = {}) \<and>
     (\<forall>i. live (im_bm im) i \<longrightarrow> 0 < i \<and> i \<le> im_inum im)"

section \<open>Abstract files\<close>

record afile =
  f_type :: u16
  f_atime :: u32
  f_mtime :: u32
  f_ctime :: u32
  f_data :: "byte list"

definition file_of :: "block_manager \<Rightarrow> inode \<Rightarrow> afile" where
  "file_of bm ino =
     \<lparr>f_type = itype ino, f_atime = iatime ino, f_mtime = imtime ino, f_ctime = ictime ino,
      f_data = ino_data bm ino\<rparr>"

definition files :: "inode_manager \<Rightarrow> u32 \<rightharpoonup> afile" where
  "files im i =
     (if live (im_bm im) i then Some (file_of (im_bm im) (inode_at (im_bm im) i)) else None)"

definition room :: "inode_manager \<Rightarrow> nat" where
  "room im = card (data_blocks - bm_used (im_bm im))"

definition file_blocks :: "byte list \<Rightarrow> nat" where
  "file_blocks d = blocks_needed (nblk (int (length d)))"

lemma ino_owned_cong:
  "bm_blk bm' (iblocks ino ! NDIRECT) = bm_blk bm (iblocks ino ! NDIRECT) \<or>
   nblk (uint (isize ino)) \<le> NDIRECT \<Longrightarrow> ino_owned bm' ino = ino_owned bm ino"
  by (auto simp: ino_owned_def intro!: owned_ids_cong)

lemma ino_frame:
  assumes "\<forall>c \<in> set (ino_owned bm ino). bm_blk bm' c = bm_blk bm c"
  shows "ino_owned bm' ino = ino_owned bm ino" "ino_data bm' ino = ino_data bm ino"
proof -
  let ?n = "nblk (uint (isize ino))"
  have ind: "NDIRECT < ?n \<Longrightarrow> bm_blk bm' (iblocks ino ! NDIRECT) = bm_blk bm (iblocks ino ! NDIRECT)"
    using assms indirect_owned by (auto simp: ino_owned_def)
  then show "ino_owned bm' ino = ino_owned bm ino"
    by (auto simp: ino_owned_def intro: owned_ids_cong)
  have "data_ids bm' (iblocks ino) ?n = data_ids bm (iblocks ino) ?n"
    using ind by (rule data_ids_cong)
  moreover have "\<forall>c \<in> set (data_ids bm (iblocks ino) ?n). bm_blk bm' c = bm_blk bm c"
    using assms data_owned unfolding ino_owned_def by blast
  ultimately show "ino_data bm' ino = ino_data bm ino"
    by (simp add: ino_data_def cong: map_cong)
qed

lemma length_ino_data:
  assumes "bm_ok bm" "inode_ok bm ino"
  shows "length (ino_data bm ino) = unat (isize ino)"
proof -
  let ?n = "nblk (uint (isize ino))"
  have "length (concat (map (bm_blk bm) (data_ids bm (iblocks ino) ?n))) = BLOCK_SIZE * ?n"
    using length_concat_const [of "data_ids bm (iblocks ino) ?n" "bm_blk bm" BLOCK_SIZE]
      assms bs.blk_length length_data_ids [of "iblocks ino" ?n bm]
    by (simp add: inode_ok_def)
  moreover have "unat (isize ino) \<le> BLOCK_SIZE * ?n"
    using nblk_covers [of "uint (isize ino)"]
    by (simp only: uint_nat of_nat_le_iff flip: of_nat_mult)
  ultimately show ?thesis by (simp add: ino_data_def)
qed

lemma im_okD:
  assumes "im_ok im" "live (im_bm im) i"
  shows "bm_ok (im_bm im)" "inode_ok (im_bm im) (inode_at (im_bm im) i)" "0 < i" "i \<le> im_inum im"
    "unat i < INODE_NUM"
  using assms by (auto simp: im_ok_def live_def)

lemma im_ok_owned:
  assumes "im_ok im" "live (im_bm im) j" "c \<in> set (ino_owned (im_bm im) (inode_at (im_bm im) j))"
  shows "c \<in> bm_used (im_bm im)"
    and "live (im_bm im) i \<Longrightarrow> j \<noteq> i \<Longrightarrow> c \<notin> set (ino_owned (im_bm im) (inode_at (im_bm im) i))"
  using assms unfolding im_ok_def inode_ok_def by blast+

lemma bm_used_data: "c \<in> bm_used bm \<Longrightarrow> c \<in> data_blocks"
  by (simp add: bm_used_def)

lemma files_SomeE:
  assumes "files im i = Some f"
  obtains "live (im_bm im) i" "f = file_of (im_bm im) (inode_at (im_bm im) i)"
  using assms by (auto simp: files_def split: if_splits)

section \<open>Changing one inode\<close>

text \<open>
  A step that replaces inode \<open>i\<close>, keeps the blocks and marks of every other
  file, and gives \<open>i\<close> blocks nobody else owns, keeps the invariant and
  changes the map at \<open>i\<close> only.
\<close>

lemma im_ok_replace:
  assumes ok: "im_ok im" and bm': "bm_ok bm'"
    and at: "\<forall>j. unat j < INODE_NUM \<longrightarrow> j \<noteq> i \<longrightarrow> inode_at bm' j = inode_at (im_bm im) j"
    and keep: "\<forall>j c. live (im_bm im) j \<longrightarrow> j \<noteq> i \<longrightarrow>
      c \<in> set (ino_owned (im_bm im) (inode_at (im_bm im) j)) \<longrightarrow>
      bm_blk bm' c = bm_blk (im_bm im) c \<and> c \<in> bm_used bm'"
    and new: "live bm' i \<Longrightarrow> inode_ok bm' (inode_at bm' i) \<and> 0 < i \<and> i \<le> inum"
    and disj: "\<forall>j. live bm' i \<longrightarrow> live (im_bm im) j \<longrightarrow> j \<noteq> i \<longrightarrow>
      set (ino_owned bm' (inode_at bm' i)) \<inter> set (ino_owned (im_bm im) (inode_at (im_bm im) j)) = {}"
    and inum: "im_inum im \<le> inum"
  shows "im_ok (im\<lparr>im_inum := inum, im_env := e, im_bm := bm'\<rparr>)"
    and "files (im\<lparr>im_inum := inum, im_env := e, im_bm := bm'\<rparr>) =
      (files im)(i := (if live bm' i then Some (file_of bm' (inode_at bm' i)) else None))"
proof -
  let ?bm = "im_bm im"
  have live: "live bm' j = live ?bm j" if "j \<noteq> i" for j
    using at that by (auto simp: live_def)
  have frame: "inode_at bm' j = inode_at ?bm j"
      "ino_owned bm' (inode_at ?bm j) = ino_owned ?bm (inode_at ?bm j)"
      "ino_data bm' (inode_at ?bm j) = ino_data ?bm (inode_at ?bm j)"
      "inode_ok bm' (inode_at ?bm j)"
    if "live ?bm j" "j \<noteq> i" for j
  proof -
    show 1: "inode_at bm' j = inode_at ?bm j" using at that by (simp add: live_def)
    show 2: "ino_owned bm' (inode_at ?bm j) = ino_owned ?bm (inode_at ?bm j)"
      "ino_data bm' (inode_at ?bm j) = ino_data ?bm (inode_at ?bm j)"
      using keep that by (auto intro!: ino_frame)
    show "inode_ok bm' (inode_at ?bm j)"
      using im_okD(2) [OF ok that(1)] keep that 2(1) by (auto simp: inode_ok_def)
  qed
  show "im_ok (im\<lparr>im_inum := inum, im_env := e, im_bm := bm'\<rparr>)"
    unfolding im_ok_def
  proof (intro conjI allI impI, simp_all)
    show "bm_ok bm'" by (rule bm')
  next
    fix j
    assume "live bm' j"
    then show "inode_ok bm' (inode_at bm' j)"
      using live frame(1,4) new by (cases "j = i") auto
  next
    fix j k
    assume "live bm' j" "live bm' k" "j \<noteq> k"
    then show "set (ino_owned bm' (inode_at bm' j)) \<inter> set (ino_owned bm' (inode_at bm' k)) = {}"
    proof (cases "j = i \<or> k = i")
      case True
      with \<open>live bm' j\<close> \<open>live bm' k\<close> \<open>j \<noteq> k\<close> show ?thesis
        using live frame(1,2) disj by (metis inf_commute)
    next
      case False
      with \<open>live bm' j\<close> \<open>live bm' k\<close> \<open>j \<noteq> k\<close> show ?thesis
        using live frame(1,2) ok by (auto simp: im_ok_def)
    qed
  next
    fix j
    assume "live bm' j"
    then show "0 < j" "j \<le> inum"
      using live new im_okD(3,4) [OF ok, of j] inum by (cases "j = i"; force)+
  qed
  show "files (im\<lparr>im_inum := inum, im_env := e, im_bm := bm'\<rparr>) =
      (files im)(i := (if live bm' i then Some (file_of bm' (inode_at bm' i)) else None))"
    using live frame(1,3) by (auto simp: files_def file_of_def fun_eq_iff)
qed

section \<open>Reading and writing inodes\<close>

lemma get_inode_eq:
  assumes "bm_ok (im_bm im)"
  shows "get_inode im i =
    Inr (if live (im_bm im) i then Some (inode_at (im_bm im) i) else None)"
proof (cases "unat i < INODE_NUM")
  case True
  then have "ino_blk i \<in> valid_blocks" using ino_blk_region(2) [of i] by (simp add: layout)
  with True assms show ?thesis
    by (simp add: get_inode_def live_def inode_at_def bs.read_ok Let_def)
next
  case False
  then show ?thesis by (simp add: get_inode_def live_def)
qed

lemma put_inode_ok:
  assumes bm: "bm_ok (im_bm im)" and i: "unat i < 8181" and ino: "inode_fits ino"
  obtains bm' where "put_inode im i (Some ino) = Inr (im\<lparr>im_bm := bm'\<rparr>)" "bm_ok bm'"
    "bm_used bm' = bm_used (im_bm im)" "inode_at bm' i = ino"
    "\<And>j. j \<noteq> i \<Longrightarrow> inode_at bm' j = inode_at (im_bm im) j"
    "\<And>c. c \<in> data_blocks \<Longrightarrow> bm_blk bm' c = bm_blk (im_bm im) c"
proof -
  let ?buf = "bm_blk (im_bm im) (ino_blk i)"
  have reg: "ino_blk i \<in> valid_blocks - bitmap_blocks" "ino_blk i \<notin> data_blocks"
    using ino_blk_region [OF i] by auto
  have len: "length ?buf = BLOCK_SIZE" using bs.blk_length [OF bm] .
  obtain bm' where bm': "bm_write_block (im_bm im) (ino_blk i) (inode_to_block ino ?buf) = Inr bm'"
      "bm_ok bm'" "bm_used bm' = bm_used (im_bm im)"
      "bm_blk bm' = (bm_blk (im_bm im))(ino_blk i := inode_to_block ino ?buf)"
    using bs.write_ok [OF bm reg(1)] length_inode_to_block [OF ino len] by blast
  show thesis
  proof (rule that [OF _ bm'(2,3)])
    show "put_inode im i (Some ino) = Inr (im\<lparr>im_bm := bm'\<rparr>)"
      using bm reg bm'(1) by (simp add: put_inode_def Let_def bs.read_ok)
    show "inode_at bm' i = ino"
      using inode_of_to_block [OF ino len] by (simp add: inode_at_def bm'(4))
  qed (use reg in \<open>auto simp: inode_at_def bm'(4)\<close>)
qed

lemma inode_ok_size:
  assumes "inode_ok bm ino"
  shows "uint (isize ino) \<le> int MAXFILE * int BLOCK_SIZE" "sint (isize ino) = uint (isize ino)"
proof -
  show 1: "uint (isize ino) \<le> int MAXFILE * int BLOCK_SIZE"
    using assms by (simp add: inode_ok_def nblk_MAXFILE)
  then show "sint (isize ino) = uint (isize ino)"
    by (intro sint_small) (simp add: layout)
qed

lemma inode_at_fits [simp]: "length (iblocks (inode_at bm i)) = NDIRECT + 1"
  using inode_fits_of_block by (simp add: inode_at_def inode_fits_def)

text \<open>
  Every operation ends by storing an inode: the blocks below have already been
  brought to \<open>bm\<close>, in which no block of another file has changed or been freed.
\<close>

lemma put_inode_files:
  assumes ok: "im_ok im" and bm: "bm_ok bm"
    and i: "unat i < INODE_NUM" "0 < i" "i \<le> inum" and inum: "im_inum im \<le> inum"
    and ino: "inode_ok bm ino"
    and rest: "\<forall>c. c \<notin> bitmap_blocks \<longrightarrow> c \<notin> data_blocks \<longrightarrow> bm_blk bm c = bm_blk (im_bm im) c"
    and keep: "\<forall>j c. live (im_bm im) j \<longrightarrow> j \<noteq> i \<longrightarrow>
      c \<in> set (ino_owned (im_bm im) (inode_at (im_bm im) j)) \<longrightarrow>
      bm_blk bm c = bm_blk (im_bm im) c \<and> c \<in> bm_used bm \<and> c \<notin> set (ino_owned bm ino)"
  shows "\<exists>im'. put_inode (im\<lparr>im_inum := inum, im_env := e, im_bm := bm\<rparr>) i (Some ino) = Inr im' \<and>
    im_ok im' \<and> files im' = (files im)(i := (if itype ino = 0 then None else Some (file_of bm ino))) \<and>
    bm_used (im_bm im') = bm_used bm \<and> im_inum im' = inum \<and> im_env im' = e"
proof -
  let ?im = "im\<lparr>im_inum := inum, im_env := e, im_bm := bm\<rparr>"
  have i': "unat i < 8181" using i(1) by (simp add: layout)
  have fits: "inode_fits ino" using ino by (simp add: inode_ok_def inode_fits_def)
  obtain bm' where bm': "put_inode ?im i (Some ino) = Inr (?im\<lparr>im_bm := bm'\<rparr>)"
      "bm_ok bm'" "bm_used bm' = bm_used bm" "inode_at bm' i = ino"
      "\<And>j. j \<noteq> i \<Longrightarrow> inode_at bm' j = inode_at bm j"
      "\<And>c. c \<in> data_blocks \<Longrightarrow> bm_blk bm' c = bm_blk bm c"
    using put_inode_ok [of ?im i ino] bm i' fits by auto
  have own: "set (ino_owned bm ino) \<subseteq> data_blocks"
    using ino bs.used_region by (auto simp: inode_ok_def)
  have same: "ino_owned bm' ino = ino_owned bm ino" "ino_data bm' ino = ino_data bm ino"
    using ino_frame [of bm ino bm'] own bm'(6) by auto
  have at: "\<forall>j. unat j < INODE_NUM \<longrightarrow> j \<noteq> i \<longrightarrow> inode_at bm' j = inode_at (im_bm im) j"
    using bm'(5) rest ino_blk_region by (simp add: inode_at_def layout)
  have keep': "\<forall>j c. live (im_bm im) j \<longrightarrow> j \<noteq> i \<longrightarrow>
      c \<in> set (ino_owned (im_bm im) (inode_at (im_bm im) j)) \<longrightarrow>
      bm_blk bm' c = bm_blk (im_bm im) c \<and> c \<in> bm_used bm'"
    using keep bm'(3,6) bm_used_data by metis
  have new: "inode_ok bm' (inode_at bm' i)"
    using ino same bm'(3,4) by (simp add: inode_ok_def)
  have disj: "\<forall>j. live bm' i \<longrightarrow> live (im_bm im) j \<longrightarrow> j \<noteq> i \<longrightarrow>
      set (ino_owned bm' (inode_at bm' i)) \<inter> set (ino_owned (im_bm im) (inode_at (im_bm im) j)) = {}"
    using keep same bm'(4) by auto
  have live: "live bm' i \<longleftrightarrow> itype ino \<noteq> 0"
    using i(1) bm'(4) by (simp add: live_def)
  have "file_of bm' ino = file_of bm ino" by (simp add: file_of_def same)
  moreover have "?im\<lparr>im_bm := bm'\<rparr> = im\<lparr>im_inum := inum, im_env := e, im_bm := bm'\<rparr>"
    by simp
  ultimately show ?thesis
    using im_ok_replace [OF ok bm'(2) at keep' _ disj inum, where e = e] new i live bm'(1,3,4)
    by auto
qed

text \<open>The clock value stored by an operation was read while it ran.\<close>

definition clock_during :: "inode_manager \<Rightarrow> inode_manager \<Rightarrow> u32 \<Rightarrow> bool" where
  "clock_during im im' t \<longleftrightarrow> env_clock (im_env im') = env_clock (im_env im) \<and>
     (\<exists>k. env_tick (im_env im) \<le> k \<and> k < env_tick (im_env im') \<and> t = env_clock (im_env im) k)"

lemma clock_duringI:
  assumes "env_time e = (t, im_env im')" "env_clock e = env_clock (im_env im)"
    "env_tick (im_env im) \<le> env_tick e"
  shows "clock_during im im' t"
  using env_timeD [OF assms(1)] assms(2,3)
  by (auto simp: clock_during_def intro!: exI [of _ "env_tick e"])

section \<open>getattr and read_file\<close>

lemma getattr_eq:
  assumes "im_ok im"
  shows "getattr im i a = Inr
    (case files im i of
       None \<Rightarrow> a
     | Some f \<Rightarrow> \<lparr>a_type = scast (f_type f), a_atime = f_atime f, a_mtime = f_mtime f,
                  a_ctime = f_ctime f, a_size = word_of_nat (length (f_data f))\<rparr>)"
proof -
  have "bm_ok (im_bm im)" using assms by (simp add: im_ok_def)
  then show ?thesis
    using assms im_okD(2) [OF assms, of i]
    by (simp add: getattr_def get_inode_eq files_def file_of_def length_ino_data)
qed

lemma read_file_ok:
  assumes ok: "im_ok im" and f: "files im i = Some f"
  shows "\<exists>c im' now. read_file im i = Inr ((c, int (length (f_data f))), im') \<and>
    take (length (f_data f)) c = f_data f \<and> im_ok im' \<and>
    files im' = (files im)(i \<mapsto> f\<lparr>f_atime := now\<rparr>) \<and> room im' = room im \<and>
    im_inum im' = im_inum im \<and> clock_during im im' now"
proof -
  let ?bm = "im_bm im"
  define ino where "ino = inode_at ?bm i"
  let ?n = "nblk (uint (isize ino))"
  from f have live: "live ?bm i" and f_eq: "f = file_of ?bm ino"
    by (auto simp: ino_def elim: files_SomeE)
  note D = im_okD [OF ok live]
  have io: "inode_ok ?bm ino" using D(2) by (simp add: ino_def)
  have own: "set (ino_owned ?bm ino) \<subseteq> data_blocks"
    using io bs.used_region by (auto simp: inode_ok_def)
  have len: "length (f_data f) = unat (isize ino)"
    using f_eq length_ino_data [OF D(1) io] by (simp add: file_of_def)
  define c where "c = concat (map (bm_blk ?bm) (data_ids ?bm (iblocks ino) ?n))"
  have rd: "read_blocks ?bm ino (sint (isize ino)) = Inr c"
    using read_blocks_ok [OF D(1), of ino "uint (isize ino)"] io own inode_ok_size(2) [OF io]
    by (simp add: c_def inode_ok_def ino_owned_def)
  obtain now e where t: "env_time (im_env im) = (now, e)" by fastforce
  let ?ino = "ino\<lparr>iatime := now\<rparr>"
  have ino': "inode_ok ?bm ?ino" "ino_owned ?bm ?ino = ino_owned ?bm ino"
      "itype ?ino \<noteq> 0" "file_of ?bm ?ino = f\<lparr>f_atime := now\<rparr>"
    using io live f_eq by (auto simp: inode_ok_def ino_owned_def ino_data_def file_of_def live_def ino_def)
  have keep: "\<forall>j c. live ?bm j \<longrightarrow> j \<noteq> i \<longrightarrow> c \<in> set (ino_owned ?bm (inode_at ?bm j)) \<longrightarrow>
      bm_blk ?bm c = bm_blk ?bm c \<and> c \<in> bm_used ?bm \<and> c \<notin> set (ino_owned ?bm ?ino)"
    using im_ok_owned [OF ok] live unfolding ino'(2) unfolding ino_def by blast
  have same: "im\<lparr>im_inum := im_inum im, im_env := e, im_bm := ?bm\<rparr> = im\<lparr>im_env := e\<rparr>" by simp
  obtain im' where im': "put_inode (im\<lparr>im_env := e\<rparr>) i (Some ?ino) = Inr im'" "im_ok im'"
      "files im' = (files im)(i := (if itype ?ino = 0 then None else Some (file_of ?bm ?ino)))"
      "bm_used (im_bm im') = bm_used ?bm" "im_inum im' = im_inum im" "im_env im' = e"
    using put_inode_files [OF ok D(1) D(5,3,4) order_refl ino'(1) _ keep, where e = e]
    unfolding same by blast
  have files': "files im' = (files im)(i \<mapsto> f\<lparr>f_atime := now\<rparr>)"
    using im'(3) ino'(3,4) by (simp only: if_False)
  have "read_file im i = Inr ((c, int (length (f_data f))), im')"
    using rd im'(1) t live D(1) len inode_ok_size(2) [OF io]
    by (simp add: read_file_def get_inode_eq flip: ino_def)
  moreover have "take (length (f_data f)) c = f_data f"
    using len f_eq by (simp add: c_def file_of_def ino_data_def)
  moreover have "clock_during im im' now"
    using t im'(6) by (intro clock_duringI) auto
  moreover have "room im' = room im" by (simp add: room_def im'(4))
  ultimately show ?thesis
    using im'(2,5) files' by blast
qed

section \<open>Creating an inode\<close>

lemma alloc_inode_ok:
  assumes ok: "im_ok im" and n: "unat (im_inum im) + 1 < INODE_NUM" and ty: "(ucast type :: u16) \<noteq> 0"
  shows "\<exists>im' now. alloc_inode im type = Inr (im_inum im + 1, im') \<and> im_ok im' \<and>
    files im (im_inum im + 1) = None \<and>
    files im' = (files im)(im_inum im + 1 \<mapsto>
      \<lparr>f_type = ucast type, f_atime = now, f_mtime = now, f_ctime = now, f_data = []\<rparr>) \<and>
    room im' = room im \<and> im_inum im' = im_inum im + 1 \<and> clock_during im im' now"
proof -
  let ?bm = "im_bm im" and ?i = "im_inum im + 1"
  have u: "unat ?i = unat (im_inum im) + 1"
    using n by (simp add: unat_word_ariths layout)
  have i: "unat ?i < INODE_NUM" "0 < ?i" "?i \<le> ?i" "im_inum im \<le> ?i"
    using n u by (simp_all add: word_less_nat_alt word_le_nat_alt)
  have bm: "bm_ok ?bm" using ok by (simp add: im_ok_def)
  obtain heap e1 where h: "env_bytes (4 * (NDIRECT + 1)) (im_env im) = (heap, e1)" by fastforce
  obtain now e2 where t: "env_time e1 = (now, e2)" by fastforce
  define ino where "ino = \<lparr>itype = ucast type, isize = 0, iatime = now, imtime = now, ictime = now,
                 iblocks = bytes_words (NDIRECT + 1) heap\<rparr>"
  have own: "ino_owned ?bm ino = []"
    by (simp add: ino_owned_def ino_def)
  then have io: "inode_ok ?bm ino"
    by (simp add: inode_ok_def) (simp add: ino_def)
  have "\<not> live ?bm ?i"
    using im_okD(4) [OF ok, of ?i] u by (auto simp: word_le_nat_alt)
  then have free: "files im ?i = None" by (simp add: files_def)
  have same: "im\<lparr>im_inum := ?i, im_env := e2, im_bm := ?bm\<rparr> = im\<lparr>im_inum := ?i, im_env := e2\<rparr>"
    by simp
  have keep: "\<forall>j c. live ?bm j \<longrightarrow> j \<noteq> ?i \<longrightarrow> c \<in> set (ino_owned ?bm (inode_at ?bm j)) \<longrightarrow>
      bm_blk ?bm c = bm_blk ?bm c \<and> c \<in> bm_used ?bm \<and> c \<notin> set (ino_owned ?bm ino)"
    using im_ok_owned(1) [OF ok] own by auto
  obtain im' where im': "put_inode (im\<lparr>im_inum := ?i, im_env := e2\<rparr>) ?i (Some ino) = Inr im'" "im_ok im'"
      "files im' = (files im)(?i := (if itype ino = 0 then None else Some (file_of ?bm ino)))"
      "bm_used (im_bm im') = bm_used ?bm" "im_inum im' = ?i" "im_env im' = e2"
    using put_inode_files [OF ok bm i io _ keep, where e = e2] unfolding same by blast
  have "alloc_inode im type = Inr (?i, im')"
    using h t im'(1) by (simp add: alloc_inode_def Let_def ino_def)
  moreover have "clock_during im im' now"
    using env_bytesD [OF h] t im'(6) by (intro clock_duringI [where e = e1]) auto
  moreover have "itype ino \<noteq> 0" using ty by (simp add: ino_def)
  moreover have "file_of ?bm ino =
      \<lparr>f_type = ucast type, f_atime = now, f_mtime = now, f_ctime = now, f_data = []\<rparr>"
    by (simp add: ino_def file_of_def ino_data_def)
  moreover have "room im' = room im" by (simp add: room_def im'(4))
  ultimately show ?thesis
    using im'(2,3,5) free by (simp only: if_False) blast
qed

section \<open>Freeing the blocks of a file\<close>

lemma card_free_more:
  "A \<subseteq> U \<Longrightarrow> U \<subseteq> D \<Longrightarrow> finite D \<Longrightarrow> card (D - (U - A)) = card (D - U) + card A"
proof -
  assume A: "A \<subseteq> U" "U \<subseteq> D" "finite D"
  then have "D - (U - A) = (D - U) \<union> A" "(D - U) \<inter> A = {}" "finite A"
    by (auto intro: finite_subset)
  with A(3) show ?thesis by (simp add: card_Un_disjoint)
qed

lemma free_file_ok:
  assumes ok: "im_ok im" and live: "live (im_bm im) i"
  defines "ino \<equiv> inode_at (im_bm im) i"
  shows "\<exists>bm. free_blocks (im_bm im) ino (uint (isize ino)) = Inr bm \<and> bm_ok bm \<and>
    bm_used bm = bm_used (im_bm im) - set (ino_owned (im_bm im) ino) \<and>
    (\<forall>c. c \<notin> bitmap_blocks \<longrightarrow> bm_blk bm c = bm_blk (im_bm im) c) \<and>
    card (data_blocks - bm_used bm) = room im + blocks_needed (nblk (uint (isize ino)))"
proof -
  note D = im_okD [OF ok live, folded ino_def]
  have own: "set (ino_owned (im_bm im) ino) \<subseteq> bm_used (im_bm im)" "distinct (ino_owned (im_bm im) ino)"
      "length (ino_owned (im_bm im) ino) = blocks_needed (nblk (uint (isize ino)))"
    using D(2) by (auto simp: inode_ok_def ino_owned_def length_owned_ids)
  then have "card (data_blocks - (bm_used (im_bm im) - set (ino_owned (im_bm im) ino))) =
      room im + blocks_needed (nblk (uint (isize ino)))"
    using card_free_more [OF own(1) bs.used_region] by (simp add: room_def distinct_card)
  moreover have "set (owned_ids (im_bm im) (iblocks ino) (nblk (uint (isize ino)))) \<subseteq> data_blocks"
    using own(1) bs.used_region by (auto simp: ino_owned_def)
  ultimately show ?thesis
    using free_blocks_ok [OF D(1), of ino "uint (isize ino)"] D(2)
    unfolding inode_ok_def ino_owned_def by metis
qed

section \<open>write_file\<close>

lemma file_of_new:
  assumes w: "wrote bm (nblk (int (length buf))) (buf @ tail) bl bm'"
    and len: "length buf \<le> MAXFILE * BLOCK_SIZE" and ino: "iblocks ino = bl" "isize ino = word_of_int (int (length buf))"
  shows "uint (isize ino) = int (length buf)" "inode_ok bm' ino" "ino_data bm' ino = buf"
    and "set (ino_owned bm' ino) \<subseteq> data_blocks - bm_used bm"
    and "bm_used bm' = bm_used bm \<union> set (ino_owned bm' ino)"
    and "card (data_blocks - bm_used bm') + file_blocks buf = card (data_blocks - bm_used bm)"
proof -
  let ?n = "nblk (int (length buf))"
  have small: "length buf < 2 ^ 32" using len by (simp add: layout)
  show sz: "uint (isize ino) = int (length buf)"
    using small unfolding ino by (simp add: uint_nat unat_u32_of_nat)
  then have usz: "unat (isize ino) = length buf" by (simp add: unat_eq_nat_uint)
  have n: "?n \<le> MAXFILE" using len by (simp only: nblk_MAXFILE of_nat_le_iff flip: of_nat_mult)
  have own: "ino_owned bm' ino = owned_ids bm' bl ?n"
    by (simp only: ino_owned_def sz ino(1))
  show "inode_ok bm' ino"
    using w n unfolding inode_ok_def own sz ino(1) wrote_def by auto
  have "length buf \<le> BLOCK_SIZE * ?n"
    using nblk_covers [of "int (length buf)"] by (simp only: of_nat_le_iff flip: of_nat_mult)
  then show "ino_data bm' ino = buf"
    using w unfolding ino_data_def usz sz ino(1) wrote_def by (simp add: min_def)
  show sub: "set (ino_owned bm' ino) \<subseteq> data_blocks - bm_used bm"
    and used: "bm_used bm' = bm_used bm \<union> set (ino_owned bm' ino)"
    using w unfolding own wrote_def by auto
  have "card (set (ino_owned bm' ino)) = file_blocks buf"
    using w n unfolding own wrote_def
    by (simp add: distinct_card length_owned_ids file_blocks_def)
  moreover have "data_blocks - bm_used bm' = (data_blocks - bm_used bm) - set (ino_owned bm' ino)"
    using used by auto
  moreover have "card (set (ino_owned bm' ino)) \<le> card (data_blocks - bm_used bm)"
    using sub by (intro card_mono) auto
  ultimately show "card (data_blocks - bm_used bm') + file_blocks buf = card (data_blocks - bm_used bm)"
    using sub by (simp add: card_Diff_subset)
qed

lemma file_blocks_ino:
  assumes "bm_ok bm" "inode_ok bm ino"
  shows "file_blocks (ino_data bm ino) = blocks_needed (nblk (uint (isize ino)))"
  unfolding file_blocks_def length_ino_data [OF assms] uint_nat ..

text \<open>The frees and allocations of \<open>write_file\<close>, before the inode is stored.\<close>

lemma write_file_blocks:
  assumes ok: "im_ok im" and live: "live (im_bm im) i"
    and len: "length buf \<le> MAXFILE * BLOCK_SIZE" and tail: "BLOCK_SIZE \<le> length tail"
    and space: "file_blocks buf \<le> room im + file_blocks (ino_data (im_bm im) (inode_at (im_bm im) i))"
  obtains bm1 bl bm2 where
    "free_blocks (im_bm im) (inode_at (im_bm im) i) (uint (isize (inode_at (im_bm im) i))) = Inr bm1"
    "bm_used bm1 = bm_used (im_bm im) - set (ino_owned (im_bm im) (inode_at (im_bm im) i))"
    "\<forall>c. c \<notin> bitmap_blocks \<longrightarrow> bm_blk bm1 c = bm_blk (im_bm im) c"
    "card (data_blocks - bm_used bm1) = room im + file_blocks (ino_data (im_bm im) (inode_at (im_bm im) i))"
    "write_blocks bm1 (iblocks (inode_at (im_bm im) i)) heap (buf @ tail) (int (length buf)) = Inr (bl, bm2)"
    "wrote bm1 (nblk (int (length buf))) (buf @ tail) bl bm2"
proof -
  let ?sz = "int (length buf)"
  note D = im_okD [OF ok live]
  obtain bm1 where 1: "free_blocks (im_bm im) (inode_at (im_bm im) i) (uint (isize (inode_at (im_bm im) i))) = Inr bm1"
      "bm_ok bm1"
      "bm_used bm1 = bm_used (im_bm im) - set (ino_owned (im_bm im) (inode_at (im_bm im) i))"
      "\<forall>c. c \<notin> bitmap_blocks \<longrightarrow> bm_blk bm1 c = bm_blk (im_bm im) c"
      "card (data_blocks - bm_used bm1) = room im + file_blocks (ino_data (im_bm im) (inode_at (im_bm im) i))"
    using free_file_ok [OF ok live] unfolding file_blocks_ino [OF D(1,2)] by blast
  have n: "nblk ?sz \<le> MAXFILE" using len by (simp only: nblk_MAXFILE of_nat_le_iff flip: of_nat_mult)
  have "int (BLOCK_SIZE * nblk ?sz) \<le> int (length (buf @ tail))"
    using nblk_bound [of ?sz] tail unfolding length_append of_nat_add of_nat_mult by linarith
  then have mem: "BLOCK_SIZE * nblk ?sz \<le> length (buf @ tail)" by (simp only: of_nat_le_iff)
  have "blocks_needed (nblk ?sz) \<le> card (data_blocks - bm_used bm1)"
    using space unfolding 1(5) file_blocks_def .
  then obtain bl bm2 where "write_blocks bm1 (iblocks (inode_at (im_bm im) i)) heap (buf @ tail) ?sz = Inr (bl, bm2)"
      "wrote bm1 (nblk ?sz) (buf @ tail) bl bm2"
    using write_blocks_ok [OF 1(2) inode_at_fits n mem] by blast
  then show thesis by (rule that [OF 1(1,3,4,5)])
qed

lemma write_file_pad:
  assumes ok: "im_ok im" and f: "files im i = Some f"
    and len: "length buf \<le> MAXFILE * BLOCK_SIZE"
    and space: "file_blocks buf \<le> room im + file_blocks (f_data f)"
  shows "\<exists>im' now. write_file im i (buf @ pad) (int (length buf)) = Inr im' \<and> im_ok im' \<and>
    files im' = (files im)(i \<mapsto> f\<lparr>f_mtime := now, f_ctime := now, f_data := buf\<rparr>) \<and>
    room im' + file_blocks buf = room im + file_blocks (f_data f) \<and>
    im_inum im' = im_inum im \<and> clock_during im im' now"
proof -
  let ?bm = "im_bm im" and ?sz = "int (length buf)"
  define ino where "ino = inode_at ?bm i"
  from f have live: "live ?bm i" and f_eq: "f = file_of ?bm ino"
    by (auto simp: ino_def elim: files_SomeE)
  have data: "f_data f = ino_data ?bm ino" by (simp add: f_eq file_of_def)
  note D = im_okD [OF ok live, folded ino_def]
  obtain tail e1 where h1: "env_bytes BLOCK_SIZE (im_env im) = (tail, e1)" by fastforce
  obtain heap e2 where h2: "env_bytes BLOCK_SIZE e1 = (heap, e2)" by fastforce
  obtain now e3 where t: "env_time e2 = (now, e3)" by fastforce
  have tail: "BLOCK_SIZE \<le> length (pad @ tail)" using env_bytesD(1) [OF h1] by simp
  obtain bm1 bl bm2 where 1: "free_blocks ?bm ino (uint (isize ino)) = Inr bm1"
      "bm_used bm1 = bm_used ?bm - set (ino_owned ?bm ino)"
      "\<forall>c. c \<notin> bitmap_blocks \<longrightarrow> bm_blk bm1 c = bm_blk ?bm c"
      "card (data_blocks - bm_used bm1) = room im + file_blocks (f_data f)"
      "write_blocks bm1 (iblocks ino) heap ((buf @ pad) @ tail) ?sz = Inr (bl, bm2)"
      "wrote bm1 (nblk ?sz) ((buf @ pad) @ tail) bl bm2"
    using write_file_blocks [OF ok live len tail, of heap thesis] space
    unfolding data ino_def append_assoc by blast
  define ino' where "ino' = ino\<lparr>isize := word_of_int ?sz, imtime := now, ictime := now, iblocks := bl\<rparr>"
  have ino': "iblocks ino' = bl" "isize ino' = word_of_int ?sz" "itype ino' = itype ino"
    by (simp_all add: ino'_def)
  note N = file_of_new [OF 1(6) [unfolded append_assoc] len ino'(1,2)]
  have own: "owned_ids bm2 bl (nblk ?sz) = ino_owned bm2 ino'"
    unfolding ino_owned_def ino'(1) N(1) ..
  have frame: "bm_blk bm2 c = bm_blk ?bm c" if "c \<notin> bitmap_blocks" "c \<notin> set (ino_owned bm2 ino')" for c
    using that 1(3,6) unfolding wrote_def own by simp
  have rest: "\<forall>c. c \<notin> bitmap_blocks \<longrightarrow> c \<notin> data_blocks \<longrightarrow> bm_blk bm2 c = bm_blk ?bm c"
    using frame N(4) by blast
  have keep: "\<forall>j c. live ?bm j \<longrightarrow> j \<noteq> i \<longrightarrow> c \<in> set (ino_owned ?bm (inode_at ?bm j)) \<longrightarrow>
      bm_blk bm2 c = bm_blk ?bm c \<and> c \<in> bm_used bm2 \<and> c \<notin> set (ino_owned bm2 ino')"
  proof (intro allI impI)
    fix j c
    assume j: "live ?bm j" "j \<noteq> i" "c \<in> set (ino_owned ?bm (inode_at ?bm j))"
    have c: "c \<in> bm_used bm1"
      using im_ok_owned [OF ok j(1,3)] live j(2) unfolding 1(2) ino_def by blast
    then have "c \<notin> set (ino_owned bm2 ino')" "c \<in> bm_used bm2" "c \<notin> bitmap_blocks"
      using N(4,5) bm_used_data data_not_bitmap by blast+
    then show "bm_blk bm2 c = bm_blk ?bm c \<and> c \<in> bm_used bm2 \<and> c \<notin> set (ino_owned bm2 ino')"
      using frame by blast
  qed
  have same: "im\<lparr>im_inum := im_inum im, im_env := e3, im_bm := bm2\<rparr> = im\<lparr>im_bm := bm2, im_env := e3\<rparr>"
    by simp
  have bm2: "bm_ok bm2" using 1(6) by (simp only: wrote_def)
  have ty: "itype ino' \<noteq> 0" using live by (simp add: ino'(3) ino_def live_def)
  obtain im' where im': "put_inode (im\<lparr>im_bm := bm2, im_env := e3\<rparr>) i (Some ino') = Inr im'" "im_ok im'"
      "files im' = (files im)(i \<mapsto> file_of bm2 ino')"
      "bm_used (im_bm im') = bm_used bm2" "im_inum im' = im_inum im" "im_env im' = e3"
    using put_inode_files [OF ok bm2 D(5,3,4) order_refl N(2) rest keep, where e = e3] ty
    unfolding same if_not_P [OF ty] by blast
  have get: "get_inode im i = Inr (Some ino)"
    using live by (simp add: get_inode_eq [OF im_okD(1) [OF ok live]] ino_def)
  have "write_file im i (buf @ pad) ?sz = Inr im'"
    unfolding write_file_def get andThen_Inr option.case 1(1) h1 h2 Let_def prod.case 1(5) t
    using im'(1) by (simp only: ino'_def)
  moreover have "file_of bm2 ino' = f\<lparr>f_mtime := now, f_ctime := now, f_data := buf\<rparr>"
    unfolding file_of_def N(3) f_eq by (simp add: ino'_def)
  moreover have "room im' + file_blocks buf = room im + file_blocks (f_data f)"
    using N(6) 1(4) by (simp only: room_def im'(4))
  moreover have "clock_during im im' now"
    using env_bytesD [OF h1] env_bytesD [OF h2] t im'(6) by (intro clock_duringI [where e = e2]) auto
  ultimately show ?thesis
    using im'(2,3,5) by (simp only:) blast
qed

lemmas write_file_ok = write_file_pad [where pad = "[]", unfolded append_Nil2]

section \<open>remove_file\<close>

lemma free_inode_put:
  assumes "get_inode im i = Inr (Some ino)"
  shows "free_inode im i = put_inode im i (Some zero_inode)"
  by (simp add: free_inode_def put_inode_def assms)

lemma zero_inode_ok:
  "inode_ok bm zero_inode" "ino_owned bm zero_inode = []" "itype zero_inode = 0"
proof -
  have size: "isize zero_inode = 0" and blocks: "length (iblocks zero_inode) = NDIRECT + 1"
    by (simp_all add: zero_inode_def)
  show own: "ino_owned bm zero_inode = []"
    unfolding ino_owned_def size by simp
  show "inode_ok bm zero_inode"
    unfolding inode_ok_def own size blocks by simp
qed (simp add: zero_inode_def)

lemma remove_file_ok:
  assumes ok: "im_ok im" and f: "files im i = Some f"
  shows "\<exists>im'. remove_file im i = Inr im' \<and> im_ok im' \<and> files im' = (files im)(i := None) \<and>
    room im' = room im + file_blocks (f_data f) \<and> im_inum im' = im_inum im \<and> im_env im' = im_env im"
proof -
  let ?bm = "im_bm im"
  define ino where "ino = inode_at ?bm i"
  from f have live: "live ?bm i" and f_eq: "f = file_of ?bm ino"
    by (auto simp: ino_def elim: files_SomeE)
  have data: "f_data f = ino_data ?bm ino" by (simp add: f_eq file_of_def)
  note D = im_okD [OF ok live, folded ino_def]
  obtain bm1 where 1: "free_blocks ?bm ino (uint (isize ino)) = Inr bm1" "bm_ok bm1"
      "bm_used bm1 = bm_used ?bm - set (ino_owned ?bm ino)"
      "\<forall>c. c \<notin> bitmap_blocks \<longrightarrow> bm_blk bm1 c = bm_blk ?bm c"
      "card (data_blocks - bm_used bm1) = room im + file_blocks (f_data f)"
    using free_file_ok [OF ok live]
    unfolding data ino_def file_blocks_ino [OF im_okD(1,2) [OF ok live]] by blast
  have at: "inode_at bm1 i = ino"
    using 1(4) ino_blk_region(2) [of i] D(5) unfolding inode_at_def ino_def by (simp add: layout)
  have keep: "\<forall>j c. live ?bm j \<longrightarrow> j \<noteq> i \<longrightarrow> c \<in> set (ino_owned ?bm (inode_at ?bm j)) \<longrightarrow>
      bm_blk bm1 c = bm_blk ?bm c \<and> c \<in> bm_used bm1 \<and> c \<notin> set (ino_owned bm1 zero_inode)"
  proof (intro allI impI)
    fix j c
    assume j: "live ?bm j" "j \<noteq> i" "c \<in> set (ino_owned ?bm (inode_at ?bm j))"
    have "c \<in> bm_used bm1" "c \<in> bm_used ?bm"
      using im_ok_owned [OF ok j(1,3)] live j(2) unfolding 1(3) ino_def by blast+
    then show "bm_blk bm1 c = bm_blk ?bm c \<and> c \<in> bm_used bm1 \<and> c \<notin> set (ino_owned bm1 zero_inode)"
      using 1(4) bm_used_data data_not_bitmap unfolding zero_inode_ok(2) by auto
  qed
  have rest: "\<forall>c. c \<notin> bitmap_blocks \<longrightarrow> c \<notin> data_blocks \<longrightarrow> bm_blk bm1 c = bm_blk ?bm c"
    using 1(4) by blast
  have same: "im\<lparr>im_inum := im_inum im, im_env := im_env im, im_bm := bm1\<rparr> = im\<lparr>im_bm := bm1\<rparr>" by simp
  obtain im' where im': "put_inode (im\<lparr>im_bm := bm1\<rparr>) i (Some zero_inode) = Inr im'" "im_ok im'"
      "files im' = (files im)(i := None)"
      "bm_used (im_bm im') = bm_used bm1" "im_inum im' = im_inum im" "im_env im' = im_env im"
    using put_inode_files [OF ok 1(2) D(5,3,4) order_refl zero_inode_ok(1) rest keep, where e = "im_env im"]
    unfolding same if_P [OF zero_inode_ok(3)] by blast
  have get: "get_inode im i = Inr (Some ino)"
    using live by (simp add: get_inode_eq [OF D(1)] ino_def)
  have "live bm1 i" using live by (simp add: live_def at) (simp add: ino_def)
  then have get1: "get_inode (im\<lparr>im_bm := bm1\<rparr>) i = Inr (Some ino)"
    using get_inode_eq [of "im\<lparr>im_bm := bm1\<rparr>" i] 1(2) by (simp add: at)
  have "remove_file im i = Inr im'"
    unfolding remove_file_def get andThen_Inr option.case inode_ok_size(2) [OF D(2)] 1(1)
      free_inode_put [OF get1] by (rule im'(1))
  moreover have "room im' = room im + file_blocks (f_data f)"
    unfolding room_def im'(4) using 1(5) by (simp only: room_def)
  ultimately show ?thesis using im'(2,3,5,6) by blast
qed

section \<open>Missing inodes\<close>

lemma missing_get:
  assumes "im_ok im" "files im i = None"
  shows "get_inode im i = Inr None"
proof -
  have "bm_ok (im_bm im)" "\<not> live (im_bm im) i"
    using assms by (auto simp: im_ok_def files_def split: if_splits)
  then show ?thesis by (simp add: get_inode_eq)
qed

lemma missing_inode:
  assumes "im_ok im" "files im i = None"
  shows "read_file im i = Inl NullDeref" "write_file im i buf sz = Inl NullDeref"
    "remove_file im i = Inl NullDeref" "free_inode im i = Inr im" "getattr im i a = Inr a"
  by (simp_all add: read_file_def write_file_def remove_file_def free_inode_def getattr_def
      missing_get [OF assms])

lemma files_beyond_inum: "im_ok im \<Longrightarrow> im_inum im < i \<or> i = 0 \<Longrightarrow> files im i = None"
  using im_okD(3,4) [of im i] by (auto simp: files_def)

section \<open>The constructor\<close>

lemma card_unat_range:
  assumes "n \<le> 2 ^ 32"
  shows "card {b :: u32. m \<le> unat b \<and> unat b < n} = n - m"
proof -
  have "bij_betw (unat :: u32 \<Rightarrow> nat) {b. m \<le> unat b \<and> unat b < n} {m..<n}"
  proof (rule bij_betw_imageI)
    show "inj_on (unat :: u32 \<Rightarrow> nat) {b. m \<le> unat b \<and> unat b < n}"
      by (simp add: inj_on_def word_unat_eq_iff)
    show "unat ` {b :: u32. m \<le> unat b \<and> unat b < n} = {m..<n}"
      using assms unat_u32_of_nat by (auto simp: image_iff) (metis order_less_le_trans)
  qed
  then show ?thesis by (simp add: bij_betw_same_card)
qed

lemma card_data_blocks: "card data_blocks = 24576"
  unfolding data_blocks_def by (subst card_unat_range) (simp_all add: layout)

definition im_blank :: "u32 \<Rightarrow> env \<Rightarrow> inode_manager" where
  "im_blank n e = \<lparr>im_bm = block_manager_new, im_inum = n, im_env = e\<rparr>"

lemma im_blank_ok:
  "im_ok (im_blank n e)" "files (im_blank n e) = Map.empty" "room (im_blank n e) = 24576"
proof -
  have "bytes_u16 (replicate BLOCK_SIZE 0) = 0"
    by (simp add: bytes_u16_def layout numeral_eq_Suc)
  then have dead: "\<not> live block_manager_new i" for i
    by (simp add: live_def inode_at_def inode_of_block_def bm_blk_def block_manager_new_def disk_new_def)
  then show "im_ok (im_blank n e)" "files (im_blank n e) = Map.empty"
    by (simp_all add: im_ok_def im_blank_def files_def fun_eq_iff)
  have "bm_used block_manager_new = {}"
    using BPB_8 by (auto simp: bm_used_def bit_set_def block_manager_new_def disk_new_def buf_bit_def)
  then show "room (im_blank n e) = 24576"
    by (simp add: room_def im_blank_def card_data_blocks)
qed

lemma inode_manager_new_ok:
  "\<exists>im now. inode_manager_new 0 e = Inr im \<and> im_ok im \<and> im_inum im = 1 \<and> room im = 24576 \<and>
     files im = [1 \<mapsto> \<lparr>f_type = ucast T_DIR, f_atime = now, f_mtime = now, f_ctime = now, f_data = []\<rparr>]"
proof -
  have i: "im_inum (im_blank 0 e) = 0" by (simp add: im_blank_def)
  have "unat (im_inum (im_blank 0 e)) + 1 < INODE_NUM" "(ucast T_DIR :: u16) \<noteq> 0"
    unfolding i by (simp_all add: layout T_DIR_def)
  from alloc_inode_ok [OF im_blank_ok(1) this] obtain im now where
      "alloc_inode (im_blank 0 e) T_DIR = Inr (1, im)" "im_ok im" "im_inum im = 1" "room im = 24576"
      "files im = [1 \<mapsto> \<lparr>f_type = ucast T_DIR, f_atime = now, f_mtime = now, f_ctime = now, f_data = []\<rparr>]"
    unfolding i im_blank_ok(2,3) by (simp only: add_0) blast
  moreover from this(1) have "inode_manager_new 0 e = Inr im"
    by (simp add: inode_manager_new_def im_blank_def)
  ultimately show ?thesis by blast
qed

end
