(* ===== verification/Extent_Server.thy ===== *)
theory Extent_Server
  imports Inode_Files
begin

text \<open>
  The extent server and its client stub (src/extent_server.h and .cc,
  src/extent_client.h and .cc).  The stub owns the server and calls it directly, so
  a call runs to completion before it returns; every method of the server
  returns \<open>OK\<close>, whatever the inode layer did.
\<close>

section \<open>The extent server\<close>

record extent_server =
  es_im :: inode_manager

definition extent_server_new :: "u32 \<Rightarrow> env \<Rightarrow> extent_server result" where
  "extent_server_new static_inum e =
     andThen (inode_manager_new static_inum e) (\<lambda>im. Inr \<lparr>es_im = im\<rparr>)"

text \<open>\<open>id &= 0x7fffffff\<close>, then the conversion to the \<open>uint32_t\<close> parameter.\<close>

definition extent_inum :: "u64 \<Rightarrow> u32" where
  "extent_inum eid = ucast (eid AND 0x7fffffff)"

definition es_create :: "extent_server \<Rightarrow> u32 \<Rightarrow> (status \<times> u64 \<times> extent_server) result" where
  "es_create es type =
     andThen (alloc_inode (es_im es) type) (\<lambda>(inum, im).
     Inr (OK, ucast inum, es\<lparr>es_im := im\<rparr>))"

text \<open>
  The \<open>size_t\<close> of the string is stored in an \<open>int\<close>.  \<open>c_str()\<close> points to the
  characters with a zero byte behind them.
\<close>

definition es_put :: "extent_server \<Rightarrow> u64 \<Rightarrow> byte list \<Rightarrow> (status \<times> extent_server) result" where
  "es_put es eid buf =
     (let sz = sint (word_of_nat (length buf) :: u32)
      in andThen (write_file (es_im es) (extent_inum eid) (buf @ [0]) sz) (\<lambda>im.
         Inr (OK, es\<lparr>es_im := im\<rparr>)))"

text \<open>
  \<open>buf.assign(cbuf, size)\<close> converts a negative \<open>size\<close> to a \<open>size_t\<close> beyond the
  greatest length of a string.
\<close>

definition es_get :: "extent_server \<Rightarrow> u64 \<Rightarrow> (status \<times> byte list \<times> extent_server) result" where
  "es_get es eid =
     andThen (read_file (es_im es) (extent_inum eid)) (\<lambda>((cbuf, sz), im).
       if sz = 0 then Inr (OK, [], es\<lparr>es_im := im\<rparr>)
       else if sz < 0 then Inl LengthError
       else Inr (OK, take (nat sz) cbuf, es\<lparr>es_im := im\<rparr>))"

definition es_getattr :: "extent_server \<Rightarrow> u64 \<Rightarrow> (status \<times> attr) result" where
  "es_getattr es eid =
     andThen (getattr (es_im es) (extent_inum eid) zero_attr) (\<lambda>a. Inr (OK, a))"

definition es_remove :: "extent_server \<Rightarrow> u64 \<Rightarrow> (status \<times> extent_server) result" where
  "es_remove es eid =
     andThen (remove_file (es_im es) (extent_inum eid)) (\<lambda>im. Inr (OK, es\<lparr>es_im := im\<rparr>))"

section \<open>The extent client\<close>

record extent_client =
  ec_es :: extent_server

definition extent_client_new :: "u32 \<Rightarrow> env \<Rightarrow> extent_client result" where
  "extent_client_new static_inum e =
     andThen (extent_server_new static_inum e) (\<lambda>es. Inr \<lparr>ec_es = es\<rparr>)"

definition ec_create :: "extent_client \<Rightarrow> u32 \<Rightarrow> (status \<times> u64 \<times> extent_client) result" where
  "ec_create ec type =
     andThen (es_create (ec_es ec) type) (\<lambda>(ret, eid, es). Inr (ret, eid, ec\<lparr>ec_es := es\<rparr>))"

definition ec_get :: "extent_client \<Rightarrow> u64 \<Rightarrow> (status \<times> byte list \<times> extent_client) result" where
  "ec_get ec eid =
     andThen (es_get (ec_es ec) eid) (\<lambda>(ret, buf, es). Inr (ret, buf, ec\<lparr>ec_es := es\<rparr>))"

definition ec_getattr :: "extent_client \<Rightarrow> u64 \<Rightarrow> (status \<times> attr) result" where
  "ec_getattr ec eid = es_getattr (ec_es ec) eid"

definition ec_put :: "extent_client \<Rightarrow> u64 \<Rightarrow> byte list \<Rightarrow> (status \<times> extent_client) result" where
  "ec_put ec eid buf =
     andThen (es_put (ec_es ec) eid buf) (\<lambda>(ret, es). Inr (ret, ec\<lparr>ec_es := es\<rparr>))"

definition ec_remove :: "extent_client \<Rightarrow> u64 \<Rightarrow> (status \<times> extent_client) result" where
  "ec_remove ec eid =
     andThen (es_remove (ec_es ec) eid) (\<lambda>(ret, es). Inr (ret, ec\<lparr>ec_es := es\<rparr>))"

section \<open>Identifiers\<close>

lemma extent_inum_ucast [simp]:
  assumes "unat n < 2 ^ 31"
  shows "extent_inum (ucast n) = n"
proof -
  have m: "(0x7fffffff :: u64) = mask 31" by (simp add: mask_eq_exp_minus_1)
  have "unat (extent_inum (ucast n)) = unat n"
    using assms unfolding extent_inum_def m
    by (simp add: take_bit_eq_mask [symmetric] unsigned_take_bit_eq unsigned_ucast_eq take_bit_nat_eq_self)
  then show ?thesis by (simp add: word_unat_eq_iff)
qed

end
