(* ===== verification/Extent_Store.thy ===== *)
theory Extent_Store
  imports Extent_Server
begin

text \<open>
  The contract of the extent layer.  A \<open>store\<close> is what its clients see: typed
  files by number, the last number given out, and the number of free blocks.
  The locale \<open>extent_store\<close> states that every operation is a function on the
  store; the interpretation proves it for the model of the extent client.
\<close>

section \<open>The abstract store\<close>

record store =
  st_files :: "u32 \<rightharpoonup> u16 \<times> byte list"
  st_last :: u32
  st_room :: nat

definition can_create :: "store \<Rightarrow> bool" where
  "can_create st \<longleftrightarrow> unat (st_last st) + 1 < INODE_NUM"

definition store_create :: "store \<Rightarrow> u32 \<Rightarrow> store" where
  "store_create st type =
     st\<lparr>st_files := (st_files st)(st_last st + 1 \<mapsto> (ucast type, [])), st_last := st_last st + 1\<rparr>"

definition can_put :: "store \<Rightarrow> u32 \<Rightarrow> byte list \<Rightarrow> bool" where
  "can_put st k d \<longleftrightarrow>
     (case st_files st k of
        None \<Rightarrow> False
      | Some (t, old) \<Rightarrow>
          length d \<le> MAXFILE * BLOCK_SIZE \<and> file_blocks d \<le> st_room st + file_blocks old)"

definition store_put :: "store \<Rightarrow> u32 \<Rightarrow> byte list \<Rightarrow> store" where
  "store_put st k d =
     (case st_files st k of
        None \<Rightarrow> st
      | Some (t, old) \<Rightarrow>
          st\<lparr>st_files := (st_files st)(k \<mapsto> (t, d)),
             st_room := st_room st + file_blocks old - file_blocks d\<rparr>)"

definition store_remove :: "store \<Rightarrow> u32 \<Rightarrow> store" where
  "store_remove st k =
     (case st_files st k of
        None \<Rightarrow> st
      | Some (t, old) \<Rightarrow>
          st\<lparr>st_files := (st_files st)(k := None), st_room := st_room st + file_blocks old\<rparr>)"

lemma file_blocks_Nil [simp]: "file_blocks [] = 0"
  by (simp add: file_blocks_def blocks_needed_def)

lemma store_put_files [simp]:
  "st_files st k = Some (t, old) \<Longrightarrow> st_files (store_put st k d) = (st_files st)(k \<mapsto> (t, d))"
  by (simp add: store_put_def)

lemma store_put_last [simp]: "st_last (store_put st k d) = st_last st"
  by (simp add: store_put_def split: option.split)

lemma store_put_room:
  "st_files st k = Some (t, old) \<Longrightarrow>
   st_room (store_put st k d) = st_room st + file_blocks old - file_blocks d"
  by (simp add: store_put_def)

lemma store_remove_simps [simp]:
  "st_files (store_remove st k) = (st_files st)(k := None)"
  "st_last (store_remove st k) = st_last st"
  by (auto simp: store_remove_def fun_eq_iff split: option.split)

lemma store_create_simps [simp]:
  "st_files (store_create st t) = (st_files st)(st_last st + 1 \<mapsto> (ucast t, []))"
  "st_last (store_create st t) = st_last st + 1"
  "st_room (store_create st t) = st_room st"
  by (simp_all add: store_create_def)

lemma store_put_put:
  assumes "can_put st k d"
  shows "store_put (store_put st k d) k d' = store_put st k d'"
  using assms by (auto simp: store_put_def can_put_def split: option.splits)

section \<open>The contract\<close>

locale extent_store =
  fixes inv :: "'s \<Rightarrow> bool"
    and view :: "'s \<Rightarrow> store"
    and create :: "'s \<Rightarrow> u32 \<Rightarrow> (status \<times> u64 \<times> 's) result"
    and get :: "'s \<Rightarrow> u64 \<Rightarrow> (status \<times> byte list \<times> 's) result"
    and put :: "'s \<Rightarrow> u64 \<Rightarrow> byte list \<Rightarrow> (status \<times> 's) result"
    and attrs :: "'s \<Rightarrow> u64 \<Rightarrow> (status \<times> attr) result"
    and remove :: "'s \<Rightarrow> u64 \<Rightarrow> (status \<times> 's) result"
  assumes create_ok: "inv s \<Longrightarrow> can_create (view s) \<Longrightarrow> (ucast t :: u16) \<noteq> 0 \<Longrightarrow>
      \<exists>s'. create s t = Inr (OK, ucast (st_last (view s) + 1), s') \<and> inv s' \<and>
        view s' = store_create (view s) t"
    and get_ok: "inv s \<Longrightarrow> st_files (view s) (extent_inum i) = Some (ty, d) \<Longrightarrow>
      \<exists>s'. get s i = Inr (OK, d, s') \<and> inv s' \<and> view s' = view s"
    and put_ok: "inv s \<Longrightarrow> can_put (view s) (extent_inum i) d \<Longrightarrow>
      \<exists>s'. put s i d = Inr (OK, s') \<and> inv s' \<and> view s' = store_put (view s) (extent_inum i) d"
    and attrs_ok: "inv s \<Longrightarrow> st_files (view s) (extent_inum i) = Some (ty, d) \<Longrightarrow>
      \<exists>a. attrs s i = Inr (OK, a) \<and> a_type a = scast ty \<and> a_size a = word_of_nat (length d)"
    and remove_ok: "inv s \<Longrightarrow> st_files (view s) (extent_inum i) \<noteq> None \<Longrightarrow>
      \<exists>s'. remove s i = Inr (OK, s') \<and> inv s' \<and> view s' = store_remove (view s) (extent_inum i)"
    and attrs_none: "inv s \<Longrightarrow> st_files (view s) (extent_inum i) = None \<Longrightarrow>
      attrs s i = Inr (OK, zero_attr)"
    and missing: "inv s \<Longrightarrow> st_files (view s) (extent_inum i) = None \<Longrightarrow>
      get s i = Inl NullDeref \<and> put s i d = Inl NullDeref \<and> remove s i = Inl NullDeref"
    and known: "inv s \<Longrightarrow> st_files (view s) k \<noteq> None \<Longrightarrow>
      0 < k \<and> k \<le> st_last (view s) \<and> unat k < INODE_NUM"
    and bounded: "inv s \<Longrightarrow> st_files (view s) k = Some (ty, d) \<Longrightarrow>
      length d \<le> MAXFILE * BLOCK_SIZE"
begin

lemma last_small:
  assumes "can_create (view s)"
  shows "unat (st_last (view s) + 1) = unat (st_last (view s)) + 1"
    "extent_inum (ucast (st_last (view s) + 1)) = st_last (view s) + 1"
proof -
  show u: "unat (st_last (view s) + 1) = unat (st_last (view s)) + 1"
    using assms by (simp add: can_create_def unat_word_ariths layout)
  show "extent_inum (ucast (st_last (view s) + 1)) = st_last (view s) + 1"
    using assms unfolding can_create_def by (intro extent_inum_ucast) (simp add: u layout)
qed

lemma create_fresh:
  assumes "inv s" "can_create (view s)"
  shows "st_files (view s) (st_last (view s) + 1) = None"
  using known [OF assms(1), of "st_last (view s) + 1"] last_small(1) [OF assms(2)]
  by (cases "st_files (view s) (st_last (view s) + 1)") (simp_all add: word_le_nat_alt)

text \<open>Reading a file, changing what was read, and storing it again.\<close>

lemma read_modify_write:
  assumes "inv s" "st_files (view s) (extent_inum i) = Some (ty, d)"
    and "can_put (view s) (extent_inum i) (f d)"
  shows "\<exists>s1 s'. get s i = Inr (OK, d, s1) \<and> put s1 i (f d) = Inr (OK, s') \<and> inv s' \<and>
    view s' = store_put (view s) (extent_inum i) (f d)"
proof -
  obtain s1 where s1: "get s i = Inr (OK, d, s1)" "inv s1" "view s1 = view s"
    using get_ok [OF assms(1,2)] by blast
  then show ?thesis
    using put_ok [of s1 i "f d"] assms(3) by auto
qed

text \<open>What was stored last is what the next read returns.\<close>

lemma put_get:
  assumes "inv s" "can_put (view s) (extent_inum i) d"
  shows "\<exists>s1 s'. put s i d = Inr (OK, s1) \<and> get s1 i = Inr (OK, d, s') \<and> inv s' \<and>
    view s' = store_put (view s) (extent_inum i) d"
proof -
  obtain s1 where s1: "put s i d = Inr (OK, s1)" "inv s1"
      "view s1 = store_put (view s) (extent_inum i) d"
    using put_ok [OF assms] by blast
  moreover obtain ty where "st_files (view s1) (extent_inum i) = Some (ty, d)"
    using assms(2) s1(3) by (auto simp: can_put_def split: option.splits)
  ultimately show ?thesis using get_ok [of s1 i ty d] by auto
qed

text \<open>A new file, filled at once, leaves every other file alone.\<close>

lemma create_put:
  assumes "inv s" "can_create (view s)" "(ucast t :: u16) \<noteq> 0"
    and "length d \<le> MAXFILE * BLOCK_SIZE" "file_blocks d \<le> st_room (view s)"
  shows "\<exists>s1 s' i. create s t = Inr (OK, i, s1) \<and> extent_inum i = st_last (view s) + 1 \<and>
    put s1 i d = Inr (OK, s') \<and> inv s' \<and>
    st_files (view s') = (st_files (view s))(extent_inum i \<mapsto> (ucast t, d)) \<and>
    st_last (view s') = extent_inum i \<and> st_room (view s') = st_room (view s) - file_blocks d"
proof -
  let ?n = "st_last (view s) + 1"
  obtain s1 where s1: "create s t = Inr (OK, ucast ?n, s1)" "inv s1"
      "view s1 = store_create (view s) t"
    using create_ok [OF assms(1-3)] by blast
  have n: "extent_inum (ucast ?n) = ?n" by (rule last_small(2) [OF assms(2)])
  have "can_put (view s1) (extent_inum (ucast ?n)) d"
    using assms(4,5) by (simp only: n s1(3) can_put_def) simp
  from put_ok [OF s1(2) this] s1(1) show ?thesis
    unfolding n s1(3) by (auto simp: store_put_room n)
qed

end

section \<open>The extent client implements the contract\<close>

definition ec_ok :: "extent_client \<Rightarrow> bool" where
  "ec_ok ec \<longleftrightarrow> im_ok (es_im (ec_es ec))"

definition ec_store :: "extent_client \<Rightarrow> store" where
  "ec_store ec =
     \<lparr>st_files = (\<lambda>k. map_option (\<lambda>f. (f_type f, f_data f)) (files (es_im (ec_es ec)) k)),
      st_last = im_inum (es_im (ec_es ec)), st_room = room (es_im (ec_es ec))\<rparr>"

lemma ec_store_simps [simp]:
  "st_files (ec_store ec) k = map_option (\<lambda>f. (f_type f, f_data f)) (files (es_im (ec_es ec)) k)"
  "st_last (ec_store ec) = im_inum (es_im (ec_es ec))"
  "st_room (ec_store ec) = room (es_im (ec_es ec))"
  by (simp_all add: ec_store_def)

lemma store_eqI:
  assumes "st_files a = st_files b" "st_last a = st_last b" "st_room a = st_room b"
  shows "a = (b :: store)"
  using assms by simp

lemma ec_create_ok:
  assumes "ec_ok ec" "can_create (ec_store ec)" "(ucast t :: u16) \<noteq> 0"
  shows "\<exists>ec'. ec_create ec t = Inr (OK, ucast (st_last (ec_store ec) + 1), ec') \<and> ec_ok ec' \<and>
    ec_store ec' = store_create (ec_store ec) t"
proof -
  let ?im = "es_im (ec_es ec)"
  have n: "unat (im_inum ?im) + 1 < INODE_NUM" using assms(2) by (simp add: can_create_def)
  obtain im' now where im': "alloc_inode ?im t = Inr (im_inum ?im + 1, im')" "im_ok im'"
      "files im' = (files ?im)(im_inum ?im + 1 \<mapsto>
         \<lparr>f_type = ucast t, f_atime = now, f_mtime = now, f_ctime = now, f_data = []\<rparr>)"
      "room im' = room ?im" "im_inum im' = im_inum ?im + 1"
    using alloc_inode_ok [OF assms(1) [unfolded ec_ok_def] n assms(3)] by blast
  have "ec_store (ec\<lparr>ec_es := (ec_es ec)\<lparr>es_im := im'\<rparr>\<rparr>) = store_create (ec_store ec) t"
    by (rule store_eqI) (auto simp: im'(3-5) fun_eq_iff)
  then show ?thesis
    using im'(1,2) by (simp add: ec_create_def es_create_def ec_ok_def)
qed

lemma ec_get_ok:
  assumes "ec_ok ec" "st_files (ec_store ec) (extent_inum i) = Some (ty, d)"
  shows "\<exists>ec'. ec_get ec i = Inr (OK, d, ec') \<and> ec_ok ec' \<and> ec_store ec' = ec_store ec"
proof -
  let ?im = "es_im (ec_es ec)"
  obtain f where f: "files ?im (extent_inum i) = Some f" "f_type f = ty" "f_data f = d"
    using assms(2) by auto
  obtain c im' now where im': "read_file ?im (extent_inum i) = Inr ((c, int (length d)), im')"
      "take (length d) c = d" "im_ok im'"
      "files im' = (files ?im)(extent_inum i \<mapsto> f\<lparr>f_atime := now\<rparr>)"
      "room im' = room ?im" "im_inum im' = im_inum ?im"
    using read_file_ok [OF assms(1) [unfolded ec_ok_def] f(1)] f(3) by auto
  have "ec_store (ec\<lparr>ec_es := (ec_es ec)\<lparr>es_im := im'\<rparr>\<rparr>) = ec_store ec"
    by (rule store_eqI) (auto simp: im'(4-6) f fun_eq_iff)
  moreover have "es_get (ec_es ec) i = Inr (OK, d, (ec_es ec)\<lparr>es_im := im'\<rparr>)"
    using im'(1,2) by (cases "d = []") (simp_all add: es_get_def)
  ultimately show ?thesis
    using im'(3) by (simp add: ec_get_def ec_ok_def)
qed

lemma ec_put_ok:
  assumes "ec_ok ec" "can_put (ec_store ec) (extent_inum i) d"
  shows "\<exists>ec'. ec_put ec i d = Inr (OK, ec') \<and> ec_ok ec' \<and>
    ec_store ec' = store_put (ec_store ec) (extent_inum i) d"
proof -
  let ?im = "es_im (ec_es ec)" and ?k = "extent_inum i"
  obtain f where f: "files ?im ?k = Some f" "length d \<le> MAXFILE * BLOCK_SIZE"
      "file_blocks d \<le> room ?im + file_blocks (f_data f)"
    using assms(2) by (auto simp: can_put_def split: option.splits)
  obtain im' now where im': "write_file ?im ?k (d @ [0]) (int (length d)) = Inr im'" "im_ok im'"
      "files im' = (files ?im)(?k \<mapsto> f\<lparr>f_mtime := now, f_ctime := now, f_data := d\<rparr>)"
      "room im' + file_blocks d = room ?im + file_blocks (f_data f)"
      "im_inum im' = im_inum ?im"
    using write_file_pad [OF assms(1) [unfolded ec_ok_def] f(1-3)] by blast
  have sz: "sint (word_of_nat (length d) :: u32) = int (length d)"
    using f(2) by (intro sint_of_nat_u32) (simp add: layout)
  have old: "st_files (ec_store ec) ?k = Some (f_type f, f_data f)" using f(1) by simp
  have "ec_store (ec\<lparr>ec_es := (ec_es ec)\<lparr>es_im := im'\<rparr>\<rparr>) = store_put (ec_store ec) ?k d"
    by (rule store_eqI)
      (use im'(4) in \<open>auto simp: store_put_files [OF old] store_put_room [OF old] im'(3,5) fun_eq_iff\<close>)
  then show ?thesis
    using im'(1,2) by (simp add: ec_put_def es_put_def ec_ok_def sz)
qed

lemma ec_getattr_ok:
  assumes "ec_ok ec" "st_files (ec_store ec) (extent_inum i) = Some (ty, d)"
  shows "\<exists>a. ec_getattr ec i = Inr (OK, a) \<and> a_type a = scast ty \<and> a_size a = word_of_nat (length d)"
  using assms by (auto simp: ec_getattr_def es_getattr_def ec_ok_def getattr_eq)

lemma ec_remove_ok:
  assumes "ec_ok ec" "st_files (ec_store ec) (extent_inum i) \<noteq> None"
  shows "\<exists>ec'. ec_remove ec i = Inr (OK, ec') \<and> ec_ok ec' \<and>
    ec_store ec' = store_remove (ec_store ec) (extent_inum i)"
proof -
  let ?im = "es_im (ec_es ec)" and ?k = "extent_inum i"
  obtain f where f: "files ?im ?k = Some f" using assms(2) by auto
  obtain im' where im': "remove_file ?im ?k = Inr im'" "im_ok im'"
      "files im' = (files ?im)(?k := None)" "room im' = room ?im + file_blocks (f_data f)"
      "im_inum im' = im_inum ?im"
    using remove_file_ok [OF assms(1) [unfolded ec_ok_def] f] by blast
  have "ec_store (ec\<lparr>ec_es := (ec_es ec)\<lparr>es_im := im'\<rparr>\<rparr>) = store_remove (ec_store ec) ?k"
    by (rule store_eqI) (auto simp: store_remove_def im'(3-5) f fun_eq_iff)
  then show ?thesis
    using im'(1,2) by (simp add: ec_remove_def es_remove_def ec_ok_def)
qed

lemma live_file_data:
  assumes "im_ok im" "files im k = Some f"
  shows "length (f_data f) \<le> MAXFILE * BLOCK_SIZE"
proof -
  from assms(2) have live: "live (im_bm im) k" and f: "f = file_of (im_bm im) (inode_at (im_bm im) k)"
    by (auto elim: files_SomeE)
  note D = im_okD [OF assms(1) live]
  have "int (length (f_data f)) = uint (isize (inode_at (im_bm im) k))"
    unfolding f file_of_def afile.select_convs length_ino_data [OF D(1,2)] uint_nat ..
  then have "int (length (f_data f)) \<le> int (MAXFILE * BLOCK_SIZE)"
    using inode_ok_size(1) [OF D(2)] by (simp only: of_nat_mult)
  then show ?thesis by (simp only: of_nat_le_iff)
qed

interpretation ec: extent_store ec_ok ec_store ec_create ec_get ec_put ec_getattr ec_remove
proof unfold_locales
  fix ec i d
  assume "ec_ok ec" "st_files (ec_store ec) (extent_inum i) = None"
  then have m: "im_ok (es_im (ec_es ec))" "files (es_im (ec_es ec)) (extent_inum i) = None"
    by (simp_all add: ec_ok_def)
  show "ec_getattr ec i = Inr (OK, zero_attr)"
    by (simp add: ec_getattr_def es_getattr_def missing_inode [OF m])
  show "ec_get ec i = Inl NullDeref \<and> ec_put ec i d = Inl NullDeref \<and> ec_remove ec i = Inl NullDeref"
    by (simp add: ec_get_def es_get_def ec_put_def es_put_def ec_remove_def es_remove_def
        missing_inode [OF m])
next
  fix ec k
  assume "ec_ok ec" "st_files (ec_store ec) k \<noteq> None"
  then show "0 < k \<and> k \<le> st_last (ec_store ec) \<and> unat k < INODE_NUM"
    using im_okD(3-5) [of "es_im (ec_es ec)" k] by (auto simp: ec_ok_def elim: files_SomeE)
next
  fix ec k ty d
  assume "ec_ok ec" "st_files (ec_store ec) k = Some (ty, d)"
  then show "length d \<le> MAXFILE * BLOCK_SIZE"
    using live_file_data [of "es_im (ec_es ec)" k] by (auto simp: ec_ok_def)
qed (fact ec_create_ok ec_get_ok ec_put_ok ec_getattr_ok ec_remove_ok)+

text \<open>Clients see the store only through the contract.\<close>

declare ec_store_simps [simp del]

end
