(* ===== verification/Dir_Format.thy ===== *)
theory Dir_Format
  imports Prelude
begin

text \<open>
  The contents of a directory, as src/yfs_client.cc prints and parses them: a
  sequence of \<open>name/number/\<close> with the number in decimal.  Parsing is the loop
  of \<open>yfs_client::readdir\<close> over \<open>std::getline\<close> and \<open>atoi\<close>; printing is
  \<open>operator<<\<close> of a string stream.
\<close>

section \<open>Numbers in text\<close>

definition is_space :: "byte \<Rightarrow> bool" where
  "is_space c \<longleftrightarrow> 9 \<le> c \<and> c \<le> 13 \<or> c = 32"

definition is_digit :: "byte \<Rightarrow> bool" where
  "is_digit c \<longleftrightarrow> 48 \<le> c \<and> c \<le> 57"

definition digits_value :: "byte list \<Rightarrow> nat" where
  "digits_value ds = foldl (\<lambda>v c. 10 * v + (unat c - 48)) 0 ds"

text \<open>White space, an optional sign, and the longest run of digits.\<close>

definition split_sign :: "byte list \<Rightarrow> bool \<times> byte list" where
  "split_sign s = (if take 1 s = [45] then (True, drop 1 s)
                   else if take 1 s = [43] then (False, drop 1 s) else (False, s))"

definition scan_number :: "byte list \<Rightarrow> bool \<times> byte list" where
  "scan_number s =
     (let (neg, t) = split_sign (dropWhile is_space s) in (neg, takeWhile is_digit t))"

text \<open>The characters of a \<open>std::string\<close> that \<open>c_str()\<close> shows to a C function.\<close>

definition c_str :: "byte list \<Rightarrow> byte list" where
  "c_str s = takeWhile (\<lambda>c. c \<noteq> 0) s"

text \<open>\<open>atoi\<close> is undefined on a value that is not an \<open>int\<close>.\<close>

definition atoi :: "byte list \<Rightarrow> int result" where
  "atoi s =
     (let (neg, ds) = scan_number s;
          v = (if neg then - int (digits_value ds) else int (digits_value ds))
      in if - (2 ^ 31) \<le> v \<and> v < 2 ^ 31 then Inr v else Inl IntOverflow)"

fun dec :: "nat \<Rightarrow> byte list" where
  "dec n = (if n < 10 then [48 + word_of_nat n] else dec (n div 10) @ [48 + word_of_nat (n mod 10)])"

declare dec.simps [simp del]

lemma length_dec: "length (dec n) \<le> Suc (n div 10)"
proof (induction n rule: dec.induct)
  case (1 n)
  show ?case
  proof (cases "n < 10")
    case True
    then show ?thesis by (subst dec.simps) simp
  next
    case False
    then have "Suc ((n div 10) div 10) \<le> n div 10" by (cases "n div 10 < 2") auto
    with 1 [OF False] False show ?thesis by (subst dec.simps) simp
  qed
qed

text \<open>\<open>ost << inum\<close> and \<open>ist >> finum\<close> for an \<open>unsigned long long\<close>.\<close>

definition filename :: "u64 \<Rightarrow> byte list" where
  "filename inum = dec (unat inum)"

definition n2i :: "byte list \<Rightarrow> u64" where
  "n2i n =
     (let (neg, ds) = scan_number n; v = digits_value ds
      in if 2 ^ 64 \<le> v then - 1 else if neg then - word_of_nat v else word_of_nat v)"

section \<open>Input streams\<close>

text \<open>
  A \<open>std::istringstream\<close>: the characters not yet read, whether its state is
  good (no bit set), and whether it has failed.
\<close>

record istream =
  is_rest :: "byte list"
  is_good :: bool
  is_fail :: bool

definition istringstream :: "byte list \<Rightarrow> istream" where
  "istringstream data = \<lparr>is_rest = data, is_good = True, is_fail = False\<rparr>"

text \<open>
  \<open>std::getline(ss, token, '/')\<close>.  A stream that is not good fails and leaves
  the string alone; otherwise the string is erased and takes the characters up
  to the delimiter, and reaching the end sets the end-of-file bit, with the fail
  bit when nothing was extracted.
\<close>

definition getline :: "istream \<Rightarrow> byte list \<Rightarrow> istream \<times> byte list" where
  "getline ss token =
     (if \<not> is_good ss then (ss\<lparr>is_fail := True\<rparr>, token)
      else let line = takeWhile (\<lambda>c. c \<noteq> 47) (is_rest ss);
               rest = dropWhile (\<lambda>c. c \<noteq> 47) (is_rest ss)
           in if rest = []
              then (\<lparr>is_rest = [], is_good = False, is_fail = (line = [])\<rparr>, line)
              else (ss\<lparr>is_rest := tl rest\<rparr>, line))"

section \<open>The loop of readdir\<close>

record dirent =
  d_name :: "byte list"
  d_inum :: u64

lemma getline_shorter:
  assumes "getline ss [] = (ss1, name)" "name \<noteq> []" "getline ss1 name = (ss2, token)"
  shows "length (is_rest ss2) < length (is_rest ss)"
proof -
  have le: "length (dropWhile P xs) \<le> length xs" for P and xs :: "byte list"
    by (simp add: length_dropWhile_le)
  have good: "is_good ss" using assms(1,2) by (auto simp: getline_def split: if_splits)
  have name: "name = takeWhile (\<lambda>c. c \<noteq> 47) (is_rest ss)"
    using assms(1) good by (auto simp: getline_def Let_def split: if_splits)
  have "length (is_rest ss1) < length (is_rest ss)"
    using assms(1,2) good le [of "\<lambda>c. c \<noteq> 47" "is_rest ss"] unfolding name
    by (cases "is_rest ss") (auto simp: getline_def Let_def split: if_splits)
  moreover have "length (is_rest ss2) \<le> length (is_rest ss1)"
    using assms(3) le [of "\<lambda>c. c \<noteq> 47" "is_rest ss1"]
    by (auto simp: getline_def Let_def split: if_splits)
  ultimately show ?thesis by simp
qed

text \<open>
  \<open>atoi\<close> returns an \<open>int\<close>, which the assignment to \<open>inum\<close> extends with its sign.
\<close>

function read_entries :: "istream \<Rightarrow> dirent list \<Rightarrow> dirent list result" where
  "read_entries ss list =
     (let (ss1, name) = getline ss []
      in if name = [] then Inr list
         else let (ss2, token) = getline ss1 name
              in andThen (atoi (c_str token)) (\<lambda>i.
                 let list' = list @ [\<lparr>d_name = name, d_inum = word_of_int i\<rparr>]
                 in if is_fail ss2 then Inr list' else read_entries ss2 list'))"
  by pat_completeness auto
termination
  by (relation "measure (\<lambda>(ss, list). length (is_rest ss))") 
    (simp, simp, metis getline_shorter)

declare read_entries.simps [simp del]

text \<open>\<open>ss << name << "/" << ino << "/"\<close>, and the loop of \<open>unlink\<close> that prints a list.\<close>

definition entry_bytes :: "byte list \<Rightarrow> u64 \<Rightarrow> byte list" where
  "entry_bytes name inum = name @ [47] @ filename inum @ [47]"

definition print_entries :: "dirent list \<Rightarrow> byte list" where
  "print_entries es = concat (map (\<lambda>e. entry_bytes (d_name e) (d_inum e)) es)"

section \<open>Decimal numbers\<close>

lemma digits_value_snoc:
  "digits_value (ds @ [c]) = 10 * digits_value ds + (unat c - 48)"
  by (simp add: digits_value_def)

lemma unat_digit: "n < 10 \<Longrightarrow> unat (48 + word_of_nat n :: byte) = 48 + n"
  by (simp add: unat_word_ariths unat_of_nat)

lemma digits_dec [simp]: "digits_value (dec n) = n"
proof (induction n rule: dec.induct)
  case (1 n)
  show ?case
  proof (cases "n < 10")
    case True
    then show ?thesis
      by (subst dec.simps) (simp add: digits_value_def unat_digit)
  next
    case False
    then show ?thesis
      using 1 by (subst dec.simps) (simp add: digits_value_snoc unat_digit)
  qed
qed

lemma dec_digit: "c \<in> set (dec n) \<Longrightarrow> is_digit c"
proof (induction n rule: dec.induct)
  case (1 n)
  have d: "is_digit (48 + word_of_nat m)" if "m < 10" for m
    using that by (simp add: is_digit_def word_le_nat_alt unat_digit)
  show ?case
    using 1 d by (subst (asm) (2) dec.simps) (auto split: if_splits)
qed

lemma dec_nonempty [simp]: "dec n \<noteq> []"
  by (subst dec.simps) simp

lemma digit_plain:
  "is_digit c \<Longrightarrow> \<not> is_space c" "is_digit c \<Longrightarrow> c \<noteq> 47" "is_digit c \<Longrightarrow> c \<noteq> 45"
  "is_digit c \<Longrightarrow> c \<noteq> 43" "is_digit c \<Longrightarrow> c \<noteq> 0"
  by (auto simp: is_digit_def is_space_def word_le_nat_alt)

lemma scan_number_dec [simp]: "scan_number (dec n) = (False, dec n)"
proof -
  obtain c cs where d: "dec n = c # cs" by (cases "dec n") auto
  then have c: "is_digit c" using dec_digit [of c n] by simp
  then have "dropWhile is_space (dec n) = dec n" "split_sign (dec n) = (False, dec n)"
    by (simp_all add: d digit_plain split_sign_def)
  moreover have "takeWhile is_digit (dec n) = dec n"
    by (simp add: takeWhile_eq_all_conv dec_digit)
  ultimately show ?thesis by (simp add: scan_number_def)
qed

lemma c_str_dec [simp]: "c_str (dec n) = dec n"
  using dec_digit digit_plain(5) by (auto simp: c_str_def takeWhile_eq_all_conv)

lemma atoi_dec: "n < 2 ^ 31 \<Longrightarrow> atoi (dec n) = Inr (int n)"
  by (simp add: atoi_def)

lemma dec_no_slash: "47 \<notin> set (dec n)"
  using dec_digit digit_plain(2) by blast

lemma n2i_filename_eq: "n2i (filename i) = i"
proof -
  have "unat i < 2 ^ LENGTH(64)" by (rule unsigned_less)
  then have "unat i < 2 ^ 64" by (simp only: len_of_numeral_defs) simp
  then show ?thesis by (simp add: n2i_def filename_def Let_def)
qed

section \<open>Parsing what was printed\<close>

definition name_ok :: "byte list \<Rightarrow> bool" where
  "name_ok n \<longleftrightarrow> n \<noteq> [] \<and> 47 \<notin> set n"

definition entry_ok :: "dirent \<Rightarrow> bool" where
  "entry_ok e \<longleftrightarrow> name_ok (d_name e) \<and> unat (d_inum e) < 2 ^ 31"

lemma getline_line:
  assumes "is_good ss" "is_rest ss = line @ 47 # rest" "47 \<notin> set line"
  shows "getline ss tok = (ss\<lparr>is_rest := rest\<rparr>, line)"
proof -
  have "takeWhile (\<lambda>c. c \<noteq> 47) (line @ 47 # rest) = line"
    "dropWhile (\<lambda>c. c \<noteq> 47) (line @ 47 # rest) = 47 # rest"
    using assms(3) by (auto simp: takeWhile_append dropWhile_append)
  then show ?thesis using assms(1,2) by (simp add: getline_def)
qed

lemma getline_end: "is_good ss \<Longrightarrow> is_rest ss = [] \<Longrightarrow> snd (getline ss tok) = []"
  by (simp add: getline_def)

lemma print_entries_simps [simp]:
  "print_entries [] = []"
  "print_entries (e # es) = entry_bytes (d_name e) (d_inum e) @ print_entries es"
  "print_entries (es @ fs) = print_entries es @ print_entries fs"
  by (simp_all add: print_entries_def)

lemma read_entries_print:
  assumes "\<forall>e \<in> set es. entry_ok e" "is_good ss" "\<not> is_fail ss" "is_rest ss = print_entries es"
  shows "read_entries ss acc = Inr (acc @ es)"
  using assms
proof (induction es arbitrary: ss acc)
  case Nil
  obtain ss1 where "getline ss [] = (ss1, [])"
    using getline_end [OF Nil.prems(2)] Nil.prems(4) by (metis prod.collapse print_entries_simps(1))
  then show ?case by (subst read_entries.simps) simp
next
  case (Cons e es)
  define ss1 where "ss1 = ss\<lparr>is_rest := filename (d_inum e) @ 47 # print_entries es\<rparr>"
  define ss2 where "ss2 = ss\<lparr>is_rest := print_entries es\<rparr>"
  have ok: "name_ok (d_name e)" "unat (d_inum e) < 2 ^ 31"
    using Cons.prems(1) by (simp_all add: entry_ok_def)
  have 1: "getline ss [] = (ss1, d_name e)"
    unfolding ss1_def using Cons.prems(2,4) ok(1)
    by (intro getline_line) (simp_all add: entry_bytes_def name_ok_def)
  have 2: "getline ss1 (d_name e) = (ss2, filename (d_inum e))"
    using getline_line [of ss1 "filename (d_inum e)" "print_entries es" "d_name e"] Cons.prems(2)
      dec_no_slash by (simp add: ss1_def ss2_def filename_def)
  have num: "atoi (c_str (filename (d_inum e))) = Inr (int (unat (d_inum e)))"
    using ok(2) by (simp add: filename_def atoi_dec)
  have "read_entries ss2 (acc @ [e]) = Inr ((acc @ [e]) @ es)"
    using Cons.prems by (intro Cons.IH) (auto simp: ss2_def)
  moreover have "\<not> is_fail ss2" using Cons.prems(3) by (simp add: ss2_def)
  moreover have "\<lparr>d_name = d_name e, d_inum = word_of_int (int (unat (d_inum e)))\<rparr> = e" by simp
  ultimately show ?case
    using ok(1) 1 2 num by (subst read_entries.simps) (simp only: name_ok_def Let_def prod.case if_False andThen_Inr append_assoc append_Cons append_Nil)
qed

definition parse_dir :: "byte list \<Rightarrow> dirent list result" where
  "parse_dir data = read_entries (istringstream data) []"

lemma parse_print: "\<forall>e \<in> set es. entry_ok e \<Longrightarrow> parse_dir (print_entries es) = Inr es"
  using read_entries_print [of es "istringstream (print_entries es)" "[]"]
  by (simp add: parse_dir_def istringstream_def)

text \<open>Whatever the data, the names that come out are the names that can be printed.\<close>

lemma getline_name:
  assumes "getline ss [] = (ss1, name)" "name \<noteq> []"
  shows "name_ok name"
proof -
  have "name = takeWhile (\<lambda>c. c \<noteq> 47) (is_rest ss)"
    using assms by (auto simp: getline_def Let_def split: if_splits)
  then show ?thesis using assms(2) set_takeWhileD by (fastforce simp: name_ok_def)
qed

lemma read_entries_names:
  assumes "read_entries ss acc = Inr es" "\<forall>e \<in> set acc. name_ok (d_name e)"
  shows "\<forall>e \<in> set es. name_ok (d_name e)"
  using assms
proof (induction ss acc rule: read_entries.induct)
  case (1 ss acc)
  obtain ss1 name where g1: "getline ss [] = (ss1, name)" by fastforce
  obtain ss2 token where g2: "getline ss1 name = (ss2, token)" by fastforce
  show ?case
  proof (cases "name = []")
    case True
    then show ?thesis using "1.prems" g1 by (subst (asm) read_entries.simps) simp
  next
    case False
    then obtain i where i: "atoi (c_str token) = Inr i"
      using "1.prems"(1) g1 g2 by (subst (asm) read_entries.simps) (auto simp: andThen_eq_Inr_iff)
    let ?acc = "acc @ [\<lparr>d_name = name, d_inum = word_of_int i\<rparr>]"
    have acc: "\<forall>e \<in> set ?acc. name_ok (d_name e)"
      using "1.prems"(2) getline_name [OF g1 False] by auto
    have "(if is_fail ss2 then Inr ?acc else read_entries ss2 ?acc) = Inr es"
      using "1.prems"(1) g1 g2 i False by (subst (asm) read_entries.simps) (simp add: Let_def)
    then show ?thesis
      using "1.IH" [OF g1 [symmetric] refl False g2 [symmetric] refl i refl] acc
      by (cases "is_fail ss2") auto
  qed
qed

end
