(* ===== verification/Yfs_Client.thy ===== *)
theory Yfs_Client
  imports Extent_Store Dir_Format
begin

text \<open>
  The file system operations (\<open>class yfs_client\<close> of src/yfs_client.h and .cc).
  A reference parameter is an argument with the value the caller's variable
  holds and a component of the result; a variable the source leaves
  uninitialised takes its value from the environment.  A C string is the list
  of its bytes before the terminator.  \<open>tsym\<close> is the inode type
  \<open>T_SYMLINK\<close>, which the source uses and nothing under src/ declares.
\<close>

section \<open>Strings\<close>

text \<open>The greatest length of a \<open>std::string\<close> (libstdc++, 64 bits).\<close>

definition str_max :: nat where
  "str_max = 2 ^ 63 - 1"

definition string_fill :: "u64 \<Rightarrow> byte list result" where
  "string_fill n = (if str_max < unat n then Inl LengthError else Inr (replicate (unat n) 0))"

definition string_append :: "byte list \<Rightarrow> byte list \<Rightarrow> byte list result" where
  "string_append s t = (if str_max < length s + length t then Inl LengthError else Inr (s @ t))"

definition substr :: "byte list \<Rightarrow> u64 \<Rightarrow> u64 \<Rightarrow> byte list result" where
  "substr s pos n =
     (if length s < unat pos then Inl OutOfRange else Inr (take (unat n) (drop (unat pos) s)))"

section \<open>State and records\<close>

record yfs_client =
  yfs_ec :: extent_client

record fileinfo =
  fi_size :: u64
  fi_atime :: u64
  fi_mtime :: u64
  fi_ctime :: u64

record dirinfo =
  di_atime :: u64
  di_mtime :: u64
  di_ctime :: u64

definition yfs_client_new :: "u32 \<Rightarrow> env \<Rightarrow> yfs_client result" where
  "yfs_client_new static_inum e =
     andThen (extent_client_new static_inum e) (\<lambda>ec. Inr \<lparr>yfs_ec = ec\<rparr>)"

text \<open>The second constructor empties the root directory and only reports a failure.\<close>

definition yfs_client_new_dst :: "u32 \<Rightarrow> env \<Rightarrow> yfs_client result" where
  "yfs_client_new_dst static_inum e =
     andThen (extent_client_new static_inum e) (\<lambda>ec.
     andThen (ec_put ec 1 []) (\<lambda>(_, ec'). Inr \<lparr>yfs_ec = ec'\<rparr>))"

text \<open>The bytes of an uninitialised local variable.\<close>

definition uninit :: "nat \<Rightarrow> yfs_client \<Rightarrow> byte list \<times> yfs_client" where
  "uninit n y =
     (let ec = yfs_ec y; es = ec_es ec; im = es_im es; (bs, e) = env_bytes n (im_env im)
      in (bs, y\<lparr>yfs_ec := ec\<lparr>ec_es := es\<lparr>es_im := im\<lparr>im_env := e\<rparr>\<rparr>\<rparr>\<rparr>))"

section \<open>Attributes\<close>

definition isfile :: "yfs_client \<Rightarrow> u64 \<Rightarrow> bool result" where
  "isfile y inum =
     andThen (ec_getattr (yfs_ec y) inum) (\<lambda>(ret, a).
       if ret \<noteq> OK then Inr False else Inr (a_type a = T_FILE))"

definition isdir :: "yfs_client \<Rightarrow> u64 \<Rightarrow> bool result" where
  "isdir y inum =
     andThen (ec_getattr (yfs_ec y) inum) (\<lambda>(ret, a).
       if ret \<noteq> OK then Inr False else Inr (a_type a = T_DIR))"

definition issymlink :: "u32 \<Rightarrow> yfs_client \<Rightarrow> u64 \<Rightarrow> bool result" where
  "issymlink tsym y inum =
     andThen (ec_getattr (yfs_ec y) inum) (\<lambda>(ret, a).
       if ret \<noteq> OK then Inr False else Inr (a_type a = tsym))"

definition getfile :: "yfs_client \<Rightarrow> u64 \<Rightarrow> fileinfo \<Rightarrow> (status \<times> fileinfo) result" where
  "getfile y inum fin =
     andThen (ec_getattr (yfs_ec y) inum) (\<lambda>(ret, a).
       if ret \<noteq> OK then Inr (IOERR, fin)
       else Inr (OK, \<lparr>fi_size = ucast (a_size a), fi_atime = ucast (a_atime a),
                      fi_mtime = ucast (a_mtime a), fi_ctime = ucast (a_ctime a)\<rparr>))"

definition getdir :: "yfs_client \<Rightarrow> u64 \<Rightarrow> dirinfo \<Rightarrow> (status \<times> dirinfo) result" where
  "getdir y inum din =
     andThen (ec_getattr (yfs_ec y) inum) (\<lambda>(ret, a).
       if ret \<noteq> OK then Inr (IOERR, din)
       else Inr (OK, \<lparr>di_atime = ucast (a_atime a), di_mtime = ucast (a_mtime a),
                      di_ctime = ucast (a_ctime a)\<rparr>))"

definition yfs_setattr :: "yfs_client \<Rightarrow> u64 \<Rightarrow> u64 \<Rightarrow> (status \<times> yfs_client) result" where
  "yfs_setattr y ino sz =
     andThen (ec_getattr (yfs_ec y) ino) (\<lambda>(r, a).
       if r \<noteq> OK then Inr (r, y)
       else if ucast (a_size a) = sz then Inr (r, y)
       else andThen (ec_get (yfs_ec y) ino) (\<lambda>(r, buf, ec1).
         if r \<noteq> OK then Inr (r, y\<lparr>yfs_ec := ec1\<rparr>)
         else andThen (if ucast (a_size a) < sz
                       then andThen (string_fill (sz - ucast (a_size a))) (string_append buf)
                       else substr buf 0 sz) (\<lambda>buf1.
           andThen (ec_put ec1 ino buf1) (\<lambda>(r, ec2). Inr (r, y\<lparr>yfs_ec := ec2\<rparr>)))))"

section \<open>Directories\<close>

definition readdir :: "yfs_client \<Rightarrow> u64 \<Rightarrow> dirent list \<Rightarrow> (status \<times> dirent list \<times> yfs_client) result" where
  "readdir y dir list =
     andThen (isdir y dir) (\<lambda>d.
       if \<not> d then Inr (IOERR, list, y)
       else andThen (ec_get (yfs_ec y) dir) (\<lambda>(r, data, ec).
         if r \<noteq> OK then Inr (r, list, y\<lparr>yfs_ec := ec\<rparr>)
         else andThen (read_entries (istringstream data) list) (\<lambda>list'.
           Inr (r, list', y\<lparr>yfs_ec := ec\<rparr>))))"

definition lookup ::
  "yfs_client \<Rightarrow> u64 \<Rightarrow> byte list \<Rightarrow> bool \<Rightarrow> u64 \<Rightarrow> (status \<times> bool \<times> u64 \<times> yfs_client) result"
where
  "lookup y parent name found ino_out =
     andThen (isdir y parent) (\<lambda>d.
       if \<not> d then Inr (IOERR, found, ino_out, y)
       else andThen (readdir y parent []) (\<lambda>(_, list, y1).
         (case find (\<lambda>e. d_name e = name) list of
            Some e \<Rightarrow> Inr (OK, True, d_inum e, y1)
          | None \<Rightarrow> Inr (OK, False, ino_out, y1))))"

text \<open>\<open>create\<close> and \<open>mkdir\<close> have one body; they differ in the type of the inode.\<close>

definition make_node ::
  "u32 \<Rightarrow> yfs_client \<Rightarrow> u64 \<Rightarrow> byte list \<Rightarrow> u64 \<Rightarrow> (status \<times> u64 \<times> yfs_client) result"
where
  "make_node type y parent name ino_out =
     (let (junk, y0) = uninit 1 y
      in andThen (lookup y0 parent name (junk \<noteq> [0]) ino_out) (\<lambda>(_, exist, ino1, y1).
         if exist then Inr (EXIST, ino1, y1)
         else andThen (ec_create (yfs_ec y1) type) (\<lambda>(r, ino2, ec2).
           if r \<noteq> OK then Inr (r, ino2, y1\<lparr>yfs_ec := ec2\<rparr>)
           else andThen (ec_get ec2 parent) (\<lambda>(r, buf, ec3).
             if r \<noteq> OK then Inr (r, ino2, y1\<lparr>yfs_ec := ec3\<rparr>)
             else andThen (ec_put ec3 parent (buf @ entry_bytes name ino2)) (\<lambda>(r, ec4).
               Inr (r, ino2, y1\<lparr>yfs_ec := ec4\<rparr>))))))"

definition yfs_create ::
  "yfs_client \<Rightarrow> u64 \<Rightarrow> byte list \<Rightarrow> u64 \<Rightarrow> (status \<times> u64 \<times> yfs_client) result" where
  "yfs_create y parent name ino_out = make_node T_FILE y parent name ino_out"

definition yfs_mkdir ::
  "yfs_client \<Rightarrow> u64 \<Rightarrow> byte list \<Rightarrow> u64 \<Rightarrow> (status \<times> u64 \<times> yfs_client) result" where
  "yfs_mkdir y parent name ino_out = make_node T_DIR y parent name ino_out"

text \<open>The loop of \<open>unlink\<close> that erases the first entry with the name.\<close>

primrec erase_first :: "byte list \<Rightarrow> dirent list \<Rightarrow> dirent list" where
  "erase_first name [] = []"
| "erase_first name (e # es) = (if d_name e = name then es else e # erase_first name es)"

definition bytes_u64 :: "byte list \<Rightarrow> u64" where
  "bytes_u64 bs = ucast (bytes_u32 bs) OR push_bit 32 (ucast (bytes_u32 (drop 4 bs)))"

definition unlink :: "yfs_client \<Rightarrow> u64 \<Rightarrow> byte list \<Rightarrow> (status \<times> yfs_client) result" where
  "unlink y parent name =
     (let (junk, y0) = uninit 1 y; (junk8, y0') = uninit 8 y0
      in andThen (lookup y0' parent name (junk \<noteq> [0]) (bytes_u64 junk8)) (\<lambda>(_, exist, ino_out, y1).
         if \<not> exist then Inr (NOENT, y1)
         else andThen (ec_remove (yfs_ec y1) ino_out) (\<lambda>(r, ec2).
           if r \<noteq> OK then Inr (r, y1\<lparr>yfs_ec := ec2\<rparr>)
           else andThen (readdir (y1\<lparr>yfs_ec := ec2\<rparr>) parent []) (\<lambda>(_, list, y3).
             andThen (ec_put (yfs_ec y3) parent (print_entries (erase_first name list)))
               (\<lambda>(_, ec4). Inr (r, y3\<lparr>yfs_ec := ec4\<rparr>))))))"

section \<open>Files\<close>

definition yfs_read ::
  "yfs_client \<Rightarrow> u64 \<Rightarrow> u64 \<Rightarrow> u64 \<Rightarrow> byte list \<Rightarrow> (status \<times> byte list \<times> yfs_client) result" where
  "yfs_read y ino sz off data =
     andThen (isfile y ino) (\<lambda>f.
       if \<not> f then Inr (IOERR, data, y)
       else andThen (ec_get (yfs_ec y) ino) (\<lambda>(r, buf, ec).
         if r \<noteq> OK then Inr (r, data, y\<lparr>yfs_ec := ec\<rparr>)
         else andThen (substr buf off sz) (\<lambda>data'. Inr (r, data', y\<lparr>yfs_ec := ec\<rparr>))))"

text \<open>
  The new contents and \<open>bytes_written\<close>, from the old contents \<open>buf\<close> and the
  bytes \<open>buf1\<close>.  Sums are taken in \<open>size_t\<close>; the test for a hole compares the
  signed offset with the length as an \<open>int\<close>.
\<close>

definition splice :: "byte list \<Rightarrow> u64 \<Rightarrow> byte list \<Rightarrow> (byte list \<times> u64) result" where
  "splice buf off buf1 =
     (let len = word_of_nat (length buf) :: u64; len1 = word_of_nat (length buf1) :: u64
      in andThen (if off + len1 < len then substr buf (off + len1) (- 1) else Inr []) (\<lambda>suffix.
         andThen (if sint off > sint (word_of_nat (length buf) :: u32)
                  then andThen (string_fill (off - len)) (\<lambda>hole.
                       andThen (string_append buf hole) (\<lambda>b. Inr (b, off - len + len1)))
                  else andThen (substr buf 0 off) (\<lambda>b. Inr (b, len1))) (\<lambda>(front, written).
         andThen (string_append front buf1) (\<lambda>b.
         andThen (string_append b suffix) (\<lambda>b'. Inr (b', written))))))"

definition yfs_write ::
  "yfs_client \<Rightarrow> u64 \<Rightarrow> u64 \<Rightarrow> u64 \<Rightarrow> byte list \<Rightarrow> u64 \<Rightarrow> (status \<times> u64 \<times> yfs_client) result" where
  "yfs_write y ino sz off data bytes_written =
     andThen (ec_get (yfs_ec y) ino) (\<lambda>(r, buf, ec1).
       if r \<noteq> OK then Inr (r, bytes_written, y\<lparr>yfs_ec := ec1\<rparr>)
       else if length data < unat sz then Inl HeapOverflow
       else andThen (splice buf off (take (unat sz) data)) (\<lambda>(buf', written).
         andThen (ec_put ec1 ino buf') (\<lambda>(r, ec2). Inr (r, written, y\<lparr>yfs_ec := ec2\<rparr>))))"

section \<open>Symbolic links\<close>

definition yfs_symlink ::
  "u32 \<Rightarrow> yfs_client \<Rightarrow> u64 \<Rightarrow> byte list \<Rightarrow> byte list \<Rightarrow> u64 \<Rightarrow> (status \<times> u64 \<times> yfs_client) result"
where
  "yfs_symlink tsym y parent link name ino_out =
     andThen (ec_create (yfs_ec y) tsym) (\<lambda>(r, ino, ec1).
       if r \<noteq> OK then Inr (r, ino, y\<lparr>yfs_ec := ec1\<rparr>)
       else andThen (ec_put ec1 ino link) (\<lambda>(r, ec2).
         if r \<noteq> OK then Inr (r, ino, y\<lparr>yfs_ec := ec2\<rparr>)
         else andThen (ec_get ec2 ino) (\<lambda>(_, buf1, ec3).
           andThen (ec_get ec3 parent) (\<lambda>(r, buf, ec4).
             if r \<noteq> OK then Inr (r, ino, y\<lparr>yfs_ec := ec4\<rparr>)
             else andThen (ec_put ec4 parent (buf @ entry_bytes name ino)) (\<lambda>(r, ec5).
               Inr (r, ino, y\<lparr>yfs_ec := ec5\<rparr>))))))"

definition yfs_readlink :: "u32 \<Rightarrow> yfs_client \<Rightarrow> u64 \<Rightarrow> byte list \<Rightarrow> (status \<times> byte list \<times> yfs_client) result" where
  "yfs_readlink tsym y lnk data =
     andThen (issymlink tsym y lnk) (\<lambda>s.
       if \<not> s then Inr (IOERR, data, y)
       else andThen (ec_get (yfs_ec y) lnk) (\<lambda>(r, data', ec). Inr (r, data', y\<lparr>yfs_ec := ec\<rparr>)))"

end
