(* ===== verification/Yfs_Files.thy ===== *)
theory Yfs_Files
  imports Yfs_Client
begin

text \<open>
  What the file system operations do, on every path, over the abstract store of
  the extent layer.
\<close>

section \<open>State\<close>

definition y_ok :: "yfs_client \<Rightarrow> bool" where
  "y_ok y \<longleftrightarrow> ec_ok (yfs_ec y)"

definition y_store :: "yfs_client \<Rightarrow> store" where
  "y_store y = ec_store (yfs_ec y)"

lemma y_simps [simp]:
  "y_ok (y\<lparr>yfs_ec := ec\<rparr>) = ec_ok ec"
  "y_store (y\<lparr>yfs_ec := ec\<rparr>) = ec_store ec"
  by (simp_all add: y_ok_def y_store_def)

lemma im_env_frame [simp]:
  "im_ok (im\<lparr>im_env := e\<rparr>) = im_ok im"
  "files (im\<lparr>im_env := e\<rparr>) = files im"
  "room (im\<lparr>im_env := e\<rparr>) = room im"
  by (auto simp: im_ok_def files_def room_def fun_eq_iff)

lemma uninitD:
  assumes "uninit n y = (bs, y')"
  shows "y_ok y' = y_ok y" "y_store y' = y_store y"
  using assms by (auto simp: uninit_def Let_def y_ok_def y_store_def ec_ok_def ec_store_def split: prod.splits)

section \<open>Types of inodes\<close>

lemma ucast_scast_type: "ucast (scast t :: u32) = (t :: u16)"
  by (rule bit_word_eqI) (auto simp: bit_simps)

lemma high_bit:
  assumes "unat (w :: u32) < 2 ^ 15" "15 \<le> n"
  shows "\<not> bit w n"
proof -
  have "take_bit 15 (unat w) = unat w" using assms(1) by (simp only: take_bit_nat_eq_self)
  then have "bit (unat w) n \<Longrightarrow> n < 15" by (metis bit_take_bit_iff)
  then show ?thesis using assms(2) by (auto simp: bit_unsigned_iff not_le dest: bit_imp_le_length)
qed

lemma type_code:
  assumes "unat (ty :: u32) < 2 ^ 15"
  shows "scast t = ty \<longleftrightarrow> t = (ucast ty :: u16)"
proof
  assume "scast t = ty"
  then show "t = ucast ty" using ucast_scast_type [of t] by simp
next
  assume t: "t = ucast ty"
  show "scast t = ty" unfolding t
    by (rule bit_word_eqI) (use high_bit [OF assms] in \<open>auto simp: bit_simps min_def\<close>)
qed

abbreviation DIR :: u16 where "DIR \<equiv> ucast T_DIR"
abbreviation REG :: u16 where "REG \<equiv> ucast T_FILE"

lemma type_codes [simp]:
  "scast t = T_DIR \<longleftrightarrow> t = DIR" "scast t = T_FILE \<longleftrightarrow> t = REG"
  "0 \<noteq> T_DIR" "0 \<noteq> T_FILE" "DIR \<noteq> 0" "REG \<noteq> 0" "DIR \<noteq> REG" "REG \<noteq> DIR"
  using type_code [of T_DIR t] type_code [of T_FILE t] by (simp_all add: T_DIR_def T_FILE_def)

definition has_type :: "store \<Rightarrow> u64 \<Rightarrow> u16 \<Rightarrow> bool" where
  "has_type st i t \<longleftrightarrow> (case st_files st (extent_inum i) of None \<Rightarrow> False | Some (t', d) \<Rightarrow> t' = t)"

lemma attr_test:
  assumes "y_ok y" "unat ty < 2 ^ 15" "ty \<noteq> 0"
  shows "\<exists>a. ec_getattr (yfs_ec y) i = Inr (OK, a) \<and> (a_type a = ty \<longleftrightarrow> has_type (y_store y) i (ucast ty))"
proof (cases "st_files (y_store y) (extent_inum i)")
  case None
  then show ?thesis
    using ec.attrs_none [of "yfs_ec y" i] assms
    by (simp add: has_type_def y_ok_def y_store_def zero_attr_def)
next
  case (Some f)
  then obtain t d where "st_files (y_store y) (extent_inum i) = Some (t, d)" by (cases f) auto
  then show ?thesis
    using ec.attrs_ok [of "yfs_ec y" i t d] assms type_code [OF assms(2), of t]
    by (auto simp: has_type_def y_ok_def y_store_def)
qed

lemma isdir_eq: "y_ok y \<Longrightarrow> isdir y i = Inr (has_type (y_store y) i DIR)"
  using attr_test [of y T_DIR i] by (auto simp: isdir_def T_DIR_def)

lemma isfile_eq: "y_ok y \<Longrightarrow> isfile y i = Inr (has_type (y_store y) i REG)"
  using attr_test [of y T_FILE i] by (auto simp: isfile_def T_FILE_def)

lemma issymlink_eq:
  "y_ok y \<Longrightarrow> unat tsym < 2 ^ 15 \<Longrightarrow> tsym \<noteq> 0 \<Longrightarrow>
   issymlink tsym y i = Inr (has_type (y_store y) i (ucast tsym))"
  using attr_test [of y tsym i] by (auto simp: issymlink_def)

section \<open>Directories\<close>

text \<open>File \<open>k\<close> is a directory with the entries \<open>es\<close>.\<close>

definition dir_at :: "store \<Rightarrow> u32 \<Rightarrow> dirent list \<Rightarrow> bool" where
  "dir_at st k es \<longleftrightarrow> st_files st k = Some (DIR, print_entries es) \<and> (\<forall>e \<in> set es. entry_ok e)"

lemma dir_at_unique:
  assumes "dir_at st k es" "dir_at st k es'"
  shows "es = es'"
proof -
  have "print_entries es = print_entries es'" using assms by (simp add: dir_at_def)
  moreover have "parse_dir (print_entries es) = Inr es"
    using assms(1) by (intro parse_print) (simp add: dir_at_def)
  moreover have "parse_dir (print_entries es') = Inr es'"
    using assms(2) by (intro parse_print) (simp add: dir_at_def)
  ultimately show ?thesis by (metis sum.inject(2))
qed

lemma dir_at_type: "dir_at st (extent_inum i) es \<Longrightarrow> has_type st i DIR"
  by (simp add: dir_at_def has_type_def)

lemma readdir_ok:
  assumes "y_ok y" "dir_at (y_store y) (extent_inum i) es"
  shows "\<exists>y'. readdir y i acc = Inr (OK, acc @ es, y') \<and> y_ok y' \<and> y_store y' = y_store y"
proof -
  obtain ec where ec: "ec_get (yfs_ec y) i = Inr (OK, print_entries es, ec)" "ec_ok ec"
      "ec_store ec = y_store y"
    using ec.get_ok [of "yfs_ec y" i] assms by (auto simp: dir_at_def y_ok_def y_store_def)
  have "read_entries (istringstream (print_entries es)) acc = Inr (acc @ es)"
    using assms(2) by (intro read_entries_print) (auto simp: dir_at_def istringstream_def)
  then show ?thesis
    using ec isdir_eq [OF assms(1)] dir_at_type [OF assms(2)] by (simp add: readdir_def)
qed

lemma readdir_not_dir:
  "y_ok y \<Longrightarrow> \<not> has_type (y_store y) i DIR \<Longrightarrow> readdir y i acc = Inr (IOERR, acc, y)"
  by (simp add: readdir_def isdir_eq)

text \<open>The entry a name stands for.\<close>

definition dir_find :: "byte list \<Rightarrow> dirent list \<Rightarrow> dirent option" where
  "dir_find name es = find (\<lambda>e. d_name e = name) es"

lemma dir_find_None: "dir_find name es = None \<longleftrightarrow> name \<notin> d_name ` set es"
  by (auto simp: dir_find_def find_None_iff)

lemma dir_find_SomeD: "dir_find name es = Some e \<Longrightarrow> e \<in> set es \<and> d_name e = name"
  by (auto simp: dir_find_def find_Some_iff)

lemma lookup_eq:
  assumes "y_ok y" "dir_at (y_store y) (extent_inum i) es"
  shows "\<exists>y'. lookup y i name found ino =
      Inr (OK, dir_find name es \<noteq> None, (case dir_find name es of None \<Rightarrow> ino | Some e \<Rightarrow> d_inum e), y') \<and>
    y_ok y' \<and> y_store y' = y_store y"
proof -
  obtain y' where "readdir y i [] = Inr (OK, es, y')" "y_ok y'" "y_store y' = y_store y"
    using readdir_ok [OF assms, of "[]"] by auto
  then show ?thesis
    using isdir_eq [OF assms(1)] dir_at_type [OF assms(2)]
    by (cases "dir_find name es") (simp_all add: lookup_def dir_find_def)
qed

lemma lookup_not_dir:
  "y_ok y \<Longrightarrow> \<not> has_type (y_store y) i DIR \<Longrightarrow> lookup y i name found ino = Inr (IOERR, found, ino, y)"
  by (simp add: lookup_def isdir_eq)

section \<open>Creating an entry\<close>

lemma make_node_exists:
  assumes "y_ok y" "dir_at (y_store y) (extent_inum p) es" "dir_find name es = Some e"
  shows "\<exists>y'. make_node ty y p name ino = Inr (EXIST, d_inum e, y') \<and> y_ok y' \<and> y_store y' = y_store y"
proof -
  obtain junk y0 where u: "uninit 1 y = (junk, y0)" by fastforce
  note y0 = uninitD [OF u]
  show ?thesis
    using lookup_eq [of y0 p es name "junk \<noteq> [0]" ino] assms y0 u
    by (auto simp: make_node_def)
qed

lemma can_put_create:
  "k \<noteq> st_last st + 1 \<Longrightarrow> can_put (store_create st ty) k d = can_put st k d"
  by (simp add: can_put_def split: option.split)

lemma can_put_known: "can_put st k d \<Longrightarrow> st_files st k \<noteq> None"
  by (auto simp: can_put_def split: option.splits)

text \<open>
  The part of \<open>create\<close>, \<open>mkdir\<close> and \<open>symlink\<close> that appends the entry to its
  directory.
\<close>

lemma append_entry:
  assumes "ec_ok ec" "st_files (ec_store ec) (extent_inum p) = Some (t, d)"
    and "can_put (ec_store ec) (extent_inum p) (d @ entry_bytes name i)"
  shows "\<exists>ec1 ec2. ec_get ec p = Inr (OK, d, ec1) \<and> ec_put ec1 p (d @ entry_bytes name i) = Inr (OK, ec2) \<and>
    ec_ok ec2 \<and> ec_store ec2 = store_put (ec_store ec) (extent_inum p) (d @ entry_bytes name i)"
  using ec.read_modify_write [of ec p t d "\<lambda>d. d @ entry_bytes name i"] assms by blast

lemma make_node_put:
  assumes y: "y_ok y" and dir: "dir_at (y_store y) (extent_inum p) es"
    and new: "dir_find name es = None"
    and ty: "(ucast ty :: u16) \<noteq> 0" and n: "can_create (y_store y)"
    and i: "i = ucast (st_last (y_store y) + 1)"
  shows "\<exists>ec y1. make_node ty y p name ino = andThen (ec_put ec p (print_entries es @ entry_bytes name i))
      (\<lambda>(r, ec'). Inr (r, i, y1\<lparr>yfs_ec := ec'\<rparr>)) \<and>
    ec_ok ec \<and> ec_store ec = store_create (y_store y) ty \<and> extent_inum i = st_last (y_store y) + 1 \<and>
    extent_inum i \<noteq> extent_inum p \<and> st_files (y_store y) (extent_inum i) = None"
proof -
  obtain junk y0 where u: "uninit 1 y = (junk, y0)" by fastforce
  note y0 = uninitD [OF u]
  obtain y1 where y1: "lookup y0 p name (junk \<noteq> [0]) ino = Inr (OK, False, ino, y1)"
      "y_ok y1" "y_store y1 = y_store y"
    using lookup_eq [of y0 p es name "junk \<noteq> [0]" ino] assms(1-3) y0 by auto
  have ok1: "ec_ok (yfs_ec y1)" "ec_store (yfs_ec y1) = y_store y"
    using y1 by (simp_all add: y_ok_def y_store_def)
  have key: "extent_inum i = st_last (y_store y) + 1"
    using ec.last_small(2) [of "yfs_ec y1"] n i ok1(2) by simp
  have fresh: "st_files (y_store y) (extent_inum i) = None"
    using ec.create_fresh [OF ok1(1)] n ok1(2) key by simp
  have neq: "extent_inum p \<noteq> extent_inum i"
    using fresh dir by (auto simp: dir_at_def)
  obtain ec2 where c: "ec_create (yfs_ec y1) ty = Inr (OK, i, ec2)" "ec_ok ec2"
      "ec_store ec2 = store_create (y_store y) ty"
    using ec.create_ok [OF ok1(1) _ ty] n ok1(2) i by auto
  have "st_files (ec_store ec2) (extent_inum p) = Some (DIR, print_entries es)"
    using c(3) dir neq key by (simp add: dir_at_def)
  then obtain ec3 where "ec_get ec2 p = Inr (OK, print_entries es, ec3)" "ec_ok ec3" "ec_store ec3 = ec_store ec2"
    using ec.get_ok [OF c(2)] by blast
  then show ?thesis
    using u y1(1) c key fresh neq by (intro exI [of _ ec3] exI [of _ y1]) (simp add: make_node_def)
qed

lemma make_node_ok:
  assumes y: "y_ok y" and dir: "dir_at (y_store y) (extent_inum p) es"
    and new: "dir_find name es = None"
    and ty: "(ucast ty :: u16) \<noteq> 0" and n: "can_create (y_store y)"
    and i: "i = ucast (st_last (y_store y) + 1)"
    and space: "can_put (y_store y) (extent_inum p) (print_entries es @ entry_bytes name i)"
  shows "\<exists>y'. make_node ty y p name ino = Inr (OK, i, y') \<and> y_ok y' \<and>
    extent_inum i \<noteq> extent_inum p \<and> st_files (y_store y) (extent_inum i) = None \<and>
    y_store y' = store_put (store_create (y_store y) ty) (extent_inum p)
                   (print_entries es @ entry_bytes name i)"
proof -
  obtain ec y1 where m: "make_node ty y p name ino = andThen (ec_put ec p (print_entries es @ entry_bytes name i))
      (\<lambda>(r, ec'). Inr (r, i, y1\<lparr>yfs_ec := ec'\<rparr>))" "ec_ok ec" "ec_store ec = store_create (y_store y) ty"
      "extent_inum i = st_last (y_store y) + 1" "extent_inum i \<noteq> extent_inum p"
      "st_files (y_store y) (extent_inum i) = None"
    using make_node_put [OF y dir new ty n i] by blast
  have "can_put (ec_store ec) (extent_inum p) (print_entries es @ entry_bytes name i)"
    using space m(4,5) by (simp add: m(3) can_put_create)
  then show ?thesis using ec.put_ok [OF m(2)] m(1,3,5,6) by fastforce
qed

section \<open>Removing an entry\<close>

lemma nblk_mono: "a \<le> b \<Longrightarrow> nblk a \<le> nblk b"
  unfolding nblk_def layout by (intro nat_mono zdiv_mono1) simp_all

lemma file_blocks_mono: "length a \<le> length b \<Longrightarrow> file_blocks a \<le> file_blocks b"
  using nblk_mono [of "int (length a)" "int (length b)"]
  by (simp add: file_blocks_def blocks_needed_def)

lemma length_erase_first: "length (print_entries (erase_first name es)) \<le> length (print_entries es)"
  by (induction es) simp_all

lemma set_erase_first: "set (erase_first name es) \<subseteq> set es"
  by (induction es) auto

lemma erase_first_split:
  assumes "dir_find name es = Some e"
  obtains us vs where "es = us @ e # vs" "erase_first name es = us @ vs" "name \<notin> d_name ` set us"
proof -
  have "\<exists>us vs. es = us @ e # vs \<and> erase_first name es = us @ vs \<and> name \<notin> d_name ` set us"
    using assms
  proof (induction es)
    case (Cons x xs)
    show ?case
    proof (cases "d_name x = name")
      case True
      then show ?thesis using Cons.prems by (intro exI [of _ "[]"] exI [of _ xs]) (simp add: dir_find_def)
    next
      case False
      then have "dir_find name xs = Some e" using Cons.prems by (simp add: dir_find_def)
      from Cons.IH [OF this] obtain us vs where
        "xs = us @ e # vs" "erase_first name xs = us @ vs" "name \<notin> d_name ` set us" by blast
      then show ?thesis using False by (intro exI [of _ "x # us"] exI [of _ vs]) auto
    qed
  qed (simp add: dir_find_def)
  then show thesis using that by blast
qed

lemma can_put_remove:
  assumes "st_files st p = Some (t, d)" "length d' \<le> length d" "length d \<le> MAXFILE * BLOCK_SIZE"
    and "p \<noteq> k"
  shows "can_put (store_remove st k) p d'"
proof -
  have "file_blocks d' \<le> file_blocks d" using assms(2) by (rule file_blocks_mono)
  then show ?thesis
    using assms by (auto simp: can_put_def)
qed

lemma unlink_none:
  assumes "y_ok y" "dir_at (y_store y) (extent_inum p) es" "dir_find name es = None"
  shows "\<exists>y'. unlink y p name = Inr (NOENT, y') \<and> y_ok y' \<and> y_store y' = y_store y"
proof -
  obtain junk y0 where u: "uninit 1 y = (junk, y0)" by fastforce
  obtain junk8 y1 where u8: "uninit 8 y0 = (junk8, y1)" by fastforce
  note y1 = uninitD [OF u] uninitD [OF u8]
  show ?thesis
    using lookup_eq [of y1 p es name "junk \<noteq> [0]" "bytes_u64 junk8"] assms y1 u u8
    by (auto simp: unlink_def)
qed

lemma unlink_ok:
  assumes y: "y_ok y" and dir: "dir_at (y_store y) (extent_inum p) es"
    and e: "dir_find name es = Some e"
    and live: "st_files (y_store y) (extent_inum (d_inum e)) \<noteq> None"
    and neq: "extent_inum (d_inum e) \<noteq> extent_inum p"
  shows "\<exists>y'. unlink y p name = Inr (OK, y') \<and> y_ok y' \<and>
    y_store y' = store_put (store_remove (y_store y) (extent_inum (d_inum e))) (extent_inum p)
                   (print_entries (erase_first name es))"
proof -
  let ?k = "extent_inum (d_inum e)" and ?d = "print_entries (erase_first name es)"
  obtain junk y0 where u: "uninit 1 y = (junk, y0)" by fastforce
  obtain junk8 y0' where u8: "uninit 8 y0 = (junk8, y0')" by fastforce
  note y0 = uninitD [OF u] uninitD [OF u8]
  obtain y1 where y1: "lookup y0' p name (junk \<noteq> [0]) (bytes_u64 junk8) = Inr (OK, True, d_inum e, y1)"
      "y_ok y1" "y_store y1 = y_store y"
    using lookup_eq [of y0' p es name "junk \<noteq> [0]" "bytes_u64 junk8"] y dir e y0 by auto
  obtain ec2 where r: "ec_remove (yfs_ec y1) (d_inum e) = Inr (OK, ec2)" "ec_ok ec2"
      "ec_store ec2 = store_remove (y_store y) ?k"
    using ec.remove_ok [of "yfs_ec y1" "d_inum e"] y1(2,3) live by (auto simp: y_ok_def y_store_def)
  let ?y2 = "y1\<lparr>yfs_ec := ec2\<rparr>"
  have dir2: "dir_at (y_store ?y2) (extent_inum p) es"
    using dir neq by (auto simp: r(3) dir_at_def)
  obtain y3 where y3: "readdir ?y2 p [] = Inr (OK, es, y3)" "y_ok y3" "y_store y3 = y_store ?y2"
    using readdir_ok [OF _ dir2, of "[]"] r(2) by auto
  have "length (print_entries es) \<le> MAXFILE * BLOCK_SIZE"
    using ec.bounded [of "yfs_ec y" "extent_inum p"] y dir by (auto simp: y_ok_def y_store_def dir_at_def)
  then have "can_put (store_remove (y_store y) ?k) (extent_inum p) ?d"
    using dir neq by (intro can_put_remove [OF _ length_erase_first]) (auto simp: dir_at_def)
  then obtain ec4 where "ec_put (yfs_ec y3) p ?d = Inr (OK, ec4)" "ec_ok ec4"
      "ec_store ec4 = store_put (store_remove (y_store y) ?k) (extent_inum p) ?d"
    using ec.put_ok [of "yfs_ec y3" p ?d] y3(2,3) r(3) by (auto simp: y_ok_def y_store_def)
  then show ?thesis
    using u u8 y1(1) r(1) y3(1) by (auto simp: unlink_def)
qed

section \<open>Reading\<close>

lemma yfs_get:
  assumes "y_ok y" "st_files (y_store y) (extent_inum i) = Some (t, d)"
  obtains ec where "ec_get (yfs_ec y) i = Inr (OK, d, ec)" "ec_ok ec" "ec_store ec = y_store y"
  using ec.get_ok [of "yfs_ec y" i t d] assms by (auto simp: y_ok_def y_store_def)

lemma has_type_Some: "st_files st (extent_inum i) = Some (t, d) \<Longrightarrow> has_type st i t' \<longleftrightarrow> t = t'"
  by (simp add: has_type_def)

lemma yfs_read_ok:
  assumes y: "y_ok y" and f: "st_files (y_store y) (extent_inum ino) = Some (REG, d)"
    and off: "unat off \<le> length d"
  shows "\<exists>y'. yfs_read y ino sz off out = Inr (OK, take (unat sz) (drop (unat off) d), y') \<and>
    y_ok y' \<and> y_store y' = y_store y"
proof -
  obtain ec where "ec_get (yfs_ec y) ino = Inr (OK, d, ec)" "ec_ok ec" "ec_store ec = y_store y"
    using y f by (rule yfs_get)
  then show ?thesis
    using off isfile_eq [OF y] has_type_Some [OF f]
    by (simp add: yfs_read_def substr_def not_less)
qed

lemma yfs_read_beyond:
  assumes y: "y_ok y" and f: "st_files (y_store y) (extent_inum ino) = Some (REG, d)"
    and off: "length d < unat off"
  shows "yfs_read y ino sz off out = Inl OutOfRange"
proof -
  obtain ec where "ec_get (yfs_ec y) ino = Inr (OK, d, ec)"
    using y f by (rule yfs_get)
  then show ?thesis
    using off isfile_eq [OF y] has_type_Some [OF f] by (simp add: yfs_read_def substr_def)
qed

section \<open>Writing\<close>

definition write_spec :: "byte list \<Rightarrow> nat \<Rightarrow> byte list \<Rightarrow> byte list" where
  "write_spec old off new = take off old @ replicate (off - length old) 0 @ new @ drop (off + length new) old"

definition written_spec :: "byte list \<Rightarrow> nat \<Rightarrow> byte list \<Rightarrow> nat" where
  "written_spec old off new = (off - length old) + length new"

lemma length_write_spec: "length (write_spec old off new) = max (length old) (off + length new)"
  by (simp add: write_spec_def)

lemma unat_u64_of_nat: "n < 2 ^ 64 \<Longrightarrow> unat (word_of_nat n :: u64) = n"
  by (simp add: unat_of_nat)

lemma unat_add_u64:
  assumes "unat (a :: u64) + unat b < 2 ^ 64"
  shows "unat (a + b) = unat a + unat b"
  using assms by (simp add: unat_word_ariths)

lemma unat_diff_u64: "unat (b :: u64) \<le> unat a \<Longrightarrow> unat (a - b) = unat a - unat b"
  by (simp add: unat_sub_if' word_le_nat_alt)

lemma sint_small_u64: "unat (w :: u64) < 2 ^ 63 \<Longrightarrow> sint w = int (unat w)"
proof -
  assume "unat w < 2 ^ 63"
  then have "int (unat w) < int (2 ^ 63)" by (simp only: of_nat_less_iff)
  then have "uint w < 2 ^ 63" by (simp only: uint_nat of_nat_power of_nat_numeral)
  then have "sint w = uint w"
    using order_trans [of "- (2 ^ 63)" 0 "uint w"]
    by (simp add: sint_uint signed_take_bit_int_eq_self)
  then show ?thesis by (simp only: uint_nat)
qed

lemma splice_eq:
  assumes old: "length old < 2 ^ 31" and off: "unat off + length new < 2 ^ 62"
  shows "splice old off new =
    Inr (write_spec old (unat off) new, word_of_nat (written_spec old (unat off) new))"
proof -
  let ?len = "word_of_nat (length old) :: u64" and ?len1 = "word_of_nat (length new) :: u64"
  have len: "unat ?len = length old" "unat ?len1 = length new"
    using old off by (auto intro!: unat_u64_of_nat)
  have sum: "unat (off + ?len1) = unat off + length new"
    using off len(2) by (subst unat_add_u64) simp_all
  have sufx: "(if off + ?len1 < ?len then substr old (off + ?len1) (- 1) else Inr []) =
      Inr (drop (unat off + length new) old)"
  proof (cases "off + ?len1 < ?len")
    case True
    then have "unat off + length new < length old" by (simp only: word_less_nat_alt len sum)
    moreover have "unat (- 1 :: u64) = 2 ^ 64 - 1" by (simp add: unsigned_minus_1_eq_mask mask_eq_exp_minus_1)
    ultimately show ?thesis using True old by (simp add: substr_def sum)
  next
    case False
    then have "length old \<le> unat off + length new" by (simp only: word_less_nat_alt len sum not_less)
    then show ?thesis using False by simp
  qed
  have hole: "sint off > sint (word_of_nat (length old) :: u32) \<longleftrightarrow> length old < unat off"
  proof -
    have "sint off = int (unat off)" using off by (intro sint_small_u64) simp
    then show ?thesis by (simp only: sint_of_nat_u32 [OF old] of_nat_less_iff)
  qed
  show ?thesis
  proof (cases "length old < unat off")
    case True
    have diff: "unat (off - ?len) = unat off - length old"
      using True len(1) by (subst unat_diff_u64) simp_all
    have fill: "string_fill (off - ?len) = Inr (replicate (unat off - length old) 0)"
      "string_append old (replicate (unat off - length old) 0) = Inr (old @ replicate (unat off - length old) 0)"
      "string_append (old @ replicate (unat off - length old) 0) new =
         Inr ((old @ replicate (unat off - length old) 0) @ new)"
      "string_append ((old @ replicate (unat off - length old) 0) @ new) [] =
         Inr ((old @ replicate (unat off - length old) 0) @ new)"
      using True off by (simp_all add: string_fill_def string_append_def diff str_max_def)
    have "off - ?len + ?len1 = word_of_nat (written_spec old (unat off) new)"
      using True by (simp add: written_spec_def of_nat_diff)
    then show ?thesis
      using True hole sufx fill
      by (simp only: splice_def Let_def if_True andThen_Inr prod.case) (simp add: write_spec_def)
  next
    case False
    have app: "substr old 0 off = Inr (take (unat off) old)"
      "string_append (take (unat off) old) new = Inr (take (unat off) old @ new)"
      "string_append (take (unat off) old @ new) (drop (unat off + length new) old) =
         Inr ((take (unat off) old @ new) @ drop (unat off + length new) old)"
      using False off old by (simp_all add: substr_def string_append_def str_max_def)
    show ?thesis
      using False hole sufx app
      by (simp only: splice_def Let_def if_False andThen_Inr prod.case)
        (simp add: write_spec_def written_spec_def)
  qed
qed

lemma yfs_write_put:
  assumes y: "y_ok y" and f: "st_files (y_store y) (extent_inum ino) = Some (t, d)"
    and sz: "unat sz = length new" and data: "new = take (unat sz) data"
    and off: "unat off + length new < 2 ^ 62"
  shows "\<exists>ec. yfs_write y ino sz off data bw = andThen (ec_put ec ino (write_spec d (unat off) new))
      (\<lambda>(r, ec'). Inr (r, word_of_nat (written_spec d (unat off) new), y\<lparr>yfs_ec := ec'\<rparr>)) \<and>
    ec_ok ec \<and> ec_store ec = y_store y"
proof -
  obtain ec1 where g: "ec_get (yfs_ec y) ino = Inr (OK, d, ec1)" "ec_ok ec1" "ec_store ec1 = y_store y"
    using y f by (rule yfs_get)
  have "length d \<le> MAXFILE * BLOCK_SIZE"
    using ec.bounded [of "yfs_ec y" "extent_inum ino" t d] y f by (simp add: y_ok_def y_store_def)
  then have "splice d off new =
      Inr (write_spec d (unat off) new, word_of_nat (written_spec d (unat off) new))"
    using off by (intro splice_eq) (simp_all add: layout)
  moreover have "\<not> length data < unat sz" using sz data by (metis length_take min.cobounded1 not_le)
  ultimately show ?thesis
    using g data by (intro exI [of _ ec1]) (simp add: yfs_write_def)
qed

lemma yfs_write_ok:
  assumes y: "y_ok y" and f: "st_files (y_store y) (extent_inum ino) = Some (t, d)"
    and sz: "unat sz = length new" and data: "new = take (unat sz) data"
    and space: "can_put (y_store y) (extent_inum ino) (write_spec d (unat off) new)"
  shows "\<exists>y'. yfs_write y ino sz off data bw =
      Inr (OK, word_of_nat (written_spec d (unat off) new), y') \<and> y_ok y' \<and>
    y_store y' = store_put (y_store y) (extent_inum ino) (write_spec d (unat off) new)"
proof -
  have "length (write_spec d (unat off) new) \<le> MAXFILE * BLOCK_SIZE"
    using space f by (simp add: can_put_def)
  then have "unat off + length new < 2 ^ 62" by (simp add: length_write_spec layout)
  from yfs_write_put [OF y f sz data this, of bw] obtain ec1 where
    w: "yfs_write y ino sz off data bw = andThen (ec_put ec1 ino (write_spec d (unat off) new))
      (\<lambda>(r, ec'). Inr (r, word_of_nat (written_spec d (unat off) new), y\<lparr>yfs_ec := ec'\<rparr>))"
      "ec_ok ec1" "ec_store ec1 = y_store y" by blast
  then show ?thesis using ec.put_ok [OF w(2), of ino] space by fastforce
qed

section \<open>Changing the length\<close>

definition resize :: "byte list \<Rightarrow> nat \<Rightarrow> byte list" where
  "resize d n = take n d @ replicate (n - length d) 0"

lemma length_resize [simp]: "length (resize d n) = n"
  by (simp add: resize_def)

lemma store_put_same: "st_files st k = Some (t, d) \<Longrightarrow> store_put st k d = st"
  by (rule store_eqI) (auto simp: store_put_room fun_eq_iff)

lemma ucast_u64_of_nat: "n < 2 ^ 32 \<Longrightarrow> (ucast (word_of_nat n :: u32) :: u64) = word_of_nat n"
  by (simp add: word_unat_eq_iff unsigned_ucast_eq unat_of_nat take_bit_nat_eq_self)

lemma resize_step:
  assumes d: "length d < 2 ^ 31" and sz: "unat sz < 2 ^ 31"
  shows "(if (ucast (word_of_nat (length d) :: u32) :: u64) < sz
      then andThen (string_fill (sz - ucast (word_of_nat (length d) :: u32))) (string_append d)
      else substr d 0 sz) = Inr (resize d (unat sz))"
proof -
  let ?len = "word_of_nat (length d) :: u64"
  have len: "unat ?len = length d" using d by (intro unat_u64_of_nat) simp
  have u: "(ucast (word_of_nat (length d) :: u32) :: u64) = ?len"
    using d by (intro ucast_u64_of_nat) simp
  show ?thesis
  proof (cases "?len < sz")
    case True
    then have lt: "length d < unat sz" by (simp only: word_less_nat_alt len)
    then have "unat (sz - ?len) = unat sz - length d"
      using len by (subst unat_diff_u64) simp_all
    then show ?thesis
      unfolding u if_P [OF True]
      using lt sz by (simp add: string_fill_def string_append_def str_max_def resize_def)
  next
    case False
    then have "unat sz \<le> length d" by (simp only: word_less_nat_alt len not_less)
    then show ?thesis
      unfolding u if_not_P [OF False] by (simp add: substr_def resize_def)
  qed
qed

lemma resize_same: "length d = n \<Longrightarrow> resize d n = d"
  by (simp add: resize_def)

lemma yfs_setattr_put:
  assumes y: "y_ok y" and f: "st_files (y_store y) (extent_inum ino) = Some (t, d)"
    and sz: "unat sz < 2 ^ 31"
  shows "length d = unat sz \<and> yfs_setattr y ino sz = Inr (OK, y) \<or>
    (\<exists>ec. yfs_setattr y ino sz = andThen (ec_put ec ino (resize d (unat sz)))
       (\<lambda>(r, ec'). Inr (r, y\<lparr>yfs_ec := ec'\<rparr>)) \<and> ec_ok ec \<and> ec_store ec = y_store y)"
proof -
  have small: "length d < 2 ^ 31"
    using ec.bounded [of "yfs_ec y" "extent_inum ino" t d] y f
    by (auto simp: y_ok_def y_store_def layout)
  obtain a where a: "ec_getattr (yfs_ec y) ino = Inr (OK, a)" "a_size a = word_of_nat (length d)"
    using ec.attrs_ok [of "yfs_ec y" ino t d] y f by (auto simp: y_ok_def y_store_def)
  have len: "unat (word_of_nat (length d) :: u64) = length d"
    using small by (intro unat_u64_of_nat) simp
  have u: "(ucast (a_size a) :: u64) = word_of_nat (length d)"
    unfolding a(2) using small by (intro ucast_u64_of_nat) simp
  show ?thesis
  proof (cases "word_of_nat (length d) = sz")
    case True
    then have "yfs_setattr y ino sz = Inr (OK, y)"
      unfolding yfs_setattr_def a(1) andThen_Inr prod.case u by simp
    then show ?thesis using True len by simp
  next
    case False
    obtain ec1 where g: "ec_get (yfs_ec y) ino = Inr (OK, d, ec1)" "ec_ok ec1" "ec_store ec1 = y_store y"
      using y f by (rule yfs_get)
    have "yfs_setattr y ino sz = andThen (ec_put ec1 ino (resize d (unat sz)))
        (\<lambda>(r, ec'). Inr (r, y\<lparr>yfs_ec := ec'\<rparr>))"
      using False resize_step [OF small sz] g(1)
      unfolding yfs_setattr_def a(1) andThen_Inr prod.case u a(2) [symmetric]
      by (simp add: u)
    then show ?thesis using g(2,3) by blast
  qed
qed

lemma yfs_setattr_ok:
  assumes y: "y_ok y" and f: "st_files (y_store y) (extent_inum ino) = Some (t, d)"
    and space: "can_put (y_store y) (extent_inum ino) (resize d (unat sz))"
  shows "\<exists>y'. yfs_setattr y ino sz = Inr (OK, y') \<and> y_ok y' \<and>
    y_store y' = store_put (y_store y) (extent_inum ino) (resize d (unat sz))"
proof -
  have "unat sz < 2 ^ 31" using space f by (simp add: can_put_def layout)
  from yfs_setattr_put [OF y f this] show ?thesis
  proof (elim disjE exE conjE)
    assume "length d = unat sz" "yfs_setattr y ino sz = Inr (OK, y)"
    then show ?thesis using y store_put_same [OF f] by (simp add: resize_same)
  next
    fix ec
    assume "yfs_setattr y ino sz = andThen (ec_put ec ino (resize d (unat sz)))
        (\<lambda>(r, ec'). Inr (r, y\<lparr>yfs_ec := ec'\<rparr>))" "ec_ok ec" "ec_store ec = y_store y"
    then show ?thesis using ec.put_ok [of ec ino "resize d (unat sz)"] space by fastforce
  qed
qed

section \<open>Symbolic links\<close>

text \<open>The two writes of \<open>symlink\<close>: the target into the new file, then the entry.\<close>

lemma yfs_symlink_create:
  assumes y: "y_ok y" and ty: "(ucast tsym :: u16) \<noteq> 0" and n: "can_create (y_store y)"
    and i: "i = ucast (st_last (y_store y) + 1)"
  shows "\<exists>ec. ec_create (yfs_ec y) tsym = Inr (OK, i, ec) \<and> ec_ok ec \<and>
    ec_store ec = store_create (y_store y) tsym \<and> extent_inum i = st_last (y_store y) + 1 \<and>
    st_files (y_store y) (extent_inum i) = None"
proof -
  have ok: "ec_ok (yfs_ec y)" "ec_store (yfs_ec y) = y_store y"
    using y by (simp_all add: y_ok_def y_store_def)
  have key: "extent_inum i = st_last (y_store y) + 1"
    using ec.last_small(2) [of "yfs_ec y"] n i ok(2) by simp
  have "st_files (y_store y) (extent_inum i) = None"
    using ec.create_fresh [OF ok(1)] n ok(2) key by simp
  then show ?thesis using ec.create_ok [OF ok(1) _ ty] n ok(2) i key by auto
qed

lemma yfs_symlink_put:
  assumes y: "y_ok y" and p: "st_files (y_store y) (extent_inum p) = Some (t, d)"
    and ty: "(ucast tsym :: u16) \<noteq> 0" and n: "can_create (y_store y)"
    and i: "i = ucast (st_last (y_store y) + 1)"
    and link: "length link \<le> MAXFILE * BLOCK_SIZE" "file_blocks link \<le> st_room (y_store y)"
  shows "\<exists>ec. yfs_symlink tsym y p link name ino = andThen (ec_put ec p (d @ entry_bytes name i))
      (\<lambda>(r, ec'). Inr (r, i, y\<lparr>yfs_ec := ec'\<rparr>)) \<and> ec_ok ec \<and>
    ec_store ec = store_put (store_create (y_store y) tsym) (extent_inum i) link"
proof -
  obtain ec1 where c: "ec_create (yfs_ec y) tsym = Inr (OK, i, ec1)" "ec_ok ec1"
      "ec_store ec1 = store_create (y_store y) tsym" and key: "extent_inum i = st_last (y_store y) + 1"
    and fresh: "st_files (y_store y) (extent_inum i) = None"
    using yfs_symlink_create [OF y ty n i] by blast
  have "can_put (ec_store ec1) (extent_inum i) link"
    using link by (simp add: c(3) can_put_def key)
  from ec.put_get [OF c(2) this] obtain ec2 ec3 where
    l: "ec_put ec1 i link = Inr (OK, ec2)" "ec_get ec2 i = Inr (OK, link, ec3)" "ec_ok ec3"
      "ec_store ec3 = store_put (store_create (y_store y) tsym) (extent_inum i) link"
    unfolding c(3) by blast
  have "st_files (ec_store ec3) (extent_inum p) = Some (t, d)"
    using p fresh by (auto simp: l(4) key store_put_def)
  from ec.get_ok [OF l(3) this] obtain ec4 where
    "ec_get ec3 p = Inr (OK, d, ec4)" "ec_ok ec4" "ec_store ec4 = ec_store ec3" by blast
  then show ?thesis
    using c(1) l by (intro exI [of _ ec4]) (simp add: yfs_symlink_def)
qed

lemma yfs_symlink_ok:
  assumes y: "y_ok y" and p: "st_files (y_store y) (extent_inum p) = Some (t, d)"
    and ty: "(ucast tsym :: u16) \<noteq> 0" and n: "can_create (y_store y)"
    and i: "i = ucast (st_last (y_store y) + 1)"
    and link: "length link \<le> MAXFILE * BLOCK_SIZE" "file_blocks link \<le> st_room (y_store y)"
    and st1: "st1 = store_put (store_create (y_store y) tsym) (extent_inum i) link"
    and space: "can_put st1 (extent_inum p) (d @ entry_bytes name i)"
  shows "\<exists>y'. yfs_symlink tsym y p link name ino = Inr (OK, i, y') \<and> y_ok y' \<and>
    extent_inum i \<noteq> extent_inum p \<and> st_files (y_store y) (extent_inum i) = None \<and>
    y_store y' = store_put st1 (extent_inum p) (d @ entry_bytes name i)"
proof -
  have fresh: "st_files (y_store y) (extent_inum i) = None"
    using yfs_symlink_create [OF y ty n i] by blast
  then have neq: "extent_inum i \<noteq> extent_inum p" using p by auto
  obtain ec1 where s: "yfs_symlink tsym y p link name ino = andThen (ec_put ec1 p (d @ entry_bytes name i))
      (\<lambda>(r, ec'). Inr (r, i, y\<lparr>yfs_ec := ec'\<rparr>))" "ec_ok ec1" "ec_store ec1 = st1"
    using yfs_symlink_put [OF y p ty n i link, of name ino] unfolding st1 by blast
  then show ?thesis using ec.put_ok [OF s(2), of p] space fresh neq by fastforce
qed

lemma yfs_readlink_eq:
  assumes y: "y_ok y" and ty: "unat tsym < 2 ^ 15" "tsym \<noteq> 0"
    and f: "st_files (y_store y) (extent_inum i) = Some (t, d)"
  shows "\<exists>y'. yfs_readlink tsym y i out =
      Inr (if t = ucast tsym then (OK, d, y') else (IOERR, out, y)) \<and> y_ok y' \<and> y_store y' = y_store y"
proof -
  obtain ec where "ec_get (yfs_ec y) i = Inr (OK, d, ec)" "ec_ok ec" "ec_store ec = y_store y"
    using y f by (rule yfs_get)
  then show ?thesis
    using y issymlink_eq [OF y ty] has_type_Some [OF f]
    by (cases "t = ucast tsym") (auto simp: yfs_readlink_def)
qed

section \<open>Starting up\<close>

lemma ec_new_ok:
  obtains ec where "extent_client_new 0 e = Inr ec" "ec_ok ec"
    "ec_store ec = \<lparr>st_files = [1 \<mapsto> (DIR, [])], st_last = 1, st_room = 24576\<rparr>"
proof -
  obtain im now where im: "inode_manager_new 0 e = Inr im" "im_ok im" "im_inum im = 1" "room im = 24576"
      "files im = [1 \<mapsto> \<lparr>f_type = DIR, f_atime = now, f_mtime = now, f_ctime = now, f_data = []\<rparr>]"
    using inode_manager_new_ok [of e] by blast
  show thesis
  proof (rule that)
    show "extent_client_new 0 e = Inr \<lparr>ec_es = \<lparr>es_im = im\<rparr>\<rparr>"
      by (simp add: extent_client_new_def extent_server_new_def im(1))
    show "ec_ok \<lparr>ec_es = \<lparr>es_im = im\<rparr>\<rparr>" using im(2) by (simp add: ec_ok_def)
    show "ec_store \<lparr>ec_es = \<lparr>es_im = im\<rparr>\<rparr> = \<lparr>st_files = [1 \<mapsto> (DIR, [])], st_last = 1, st_room = 24576\<rparr>"
      by (rule store_eqI) (auto simp: ec_store_simps im fun_eq_iff)
  qed
qed

lemma yfs_new_ok:
  obtains y where "yfs_client_new 0 e = Inr y" "y_ok y"
    "y_store y = \<lparr>st_files = [1 \<mapsto> (DIR, [])], st_last = 1, st_room = 24576\<rparr>"
proof -
  obtain ec where ec: "extent_client_new 0 e = Inr ec" "ec_ok ec"
    "ec_store ec = \<lparr>st_files = [1 \<mapsto> (DIR, [])], st_last = 1, st_room = 24576\<rparr>"
    by (rule ec_new_ok)
  show thesis
    by (rule that [of "\<lparr>yfs_ec = ec\<rparr>"])
      (use ec in \<open>simp_all add: yfs_client_new_def y_ok_def y_store_def\<close>)
qed

end
