(* ===== verification/Namespace.thy ===== *)
theory Namespace
  imports Yfs_Files
begin

text \<open>
  The tree of directories.  \<open>tree_ok\<close> is the invariant of the files as a
  whole: every directory parses, every entry names an existing inode with a
  greater number than its directory's, and no inode has two entries.  Each
  change the operations make to the files keeps it, so it holds in every state
  the file system reaches.
\<close>

type_synonym tree = "u32 \<rightharpoonup> u16 \<times> byte list"

definition ekey :: "dirent \<Rightarrow> u32" where
  "ekey e = extent_inum (d_inum e)"

definition dir_in :: "tree \<Rightarrow> u32 \<Rightarrow> dirent list \<Rightarrow> bool" where
  "dir_in F k es \<longleftrightarrow> F k = Some (DIR, print_entries es) \<and> (\<forall>e \<in> set es. entry_ok e)"

lemma dir_at_in: "dir_at st k es \<longleftrightarrow> dir_in (st_files st) k es"
  by (simp add: dir_at_def dir_in_def)

lemma dir_in_unique: "dir_in F k es \<Longrightarrow> dir_in F k es' \<Longrightarrow> es = es'"
  using dir_at_unique [of "\<lparr>st_files = F, st_last = 0, st_room = 0\<rparr>" k es es']
  by (simp add: dir_at_in)

definition tree_ok :: "tree \<Rightarrow> bool" where
  "tree_ok F \<longleftrightarrow>
     (\<exists>es. dir_in F 1 es) \<and>
     (\<forall>k d. F k = Some (DIR, d) \<longrightarrow> (\<exists>es. dir_in F k es)) \<and>
     (\<forall>k es. dir_in F k es \<longrightarrow> distinct (map ekey es)) \<and>
     (\<forall>k es e. dir_in F k es \<longrightarrow> e \<in> set es \<longrightarrow> F (ekey e) \<noteq> None \<and> k < ekey e) \<and>
     (\<forall>k k' es es'. dir_in F k es \<longrightarrow> dir_in F k' es' \<longrightarrow> k \<noteq> k' \<longrightarrow>
        ekey ` set es \<inter> ekey ` set es' = {})"

definition names_ok :: "tree \<Rightarrow> bool" where
  "names_ok F \<longleftrightarrow> (\<forall>k es. dir_in F k es \<longrightarrow> distinct (map d_name es))"

lemma tree_okD:
  assumes "tree_ok F"
  shows "\<exists>es. dir_in F 1 es" "F k = Some (DIR, d) \<Longrightarrow> \<exists>es. dir_in F k es"
    "dir_in F k es \<Longrightarrow> distinct (map ekey es)"
    "dir_in F k es \<Longrightarrow> e \<in> set es \<Longrightarrow> F (ekey e) \<noteq> None"
    "dir_in F k es \<Longrightarrow> e \<in> set es \<Longrightarrow> k < ekey e"
    "dir_in F k es \<Longrightarrow> dir_in F k' es' \<Longrightarrow> k \<noteq> k' \<Longrightarrow> e \<in> set es \<Longrightarrow> e' \<in> set es' \<Longrightarrow> ekey e \<noteq> ekey e'"
  using assms unfolding tree_ok_def by (blast+)

lemma tree_okI:
  assumes "dir_in F 1 es0"
    and "\<And>k d. F k = Some (DIR, d) \<Longrightarrow> \<exists>es. dir_in F k es"
    and "\<And>k es. dir_in F k es \<Longrightarrow> distinct (map ekey es)"
    and "\<And>k es e. dir_in F k es \<Longrightarrow> e \<in> set es \<Longrightarrow> F (ekey e) \<noteq> None"
    and "\<And>k es e. dir_in F k es \<Longrightarrow> e \<in> set es \<Longrightarrow> k < ekey e"
    and "\<And>k k' es es' e e'. dir_in F k es \<Longrightarrow> dir_in F k' es' \<Longrightarrow> k \<noteq> k' \<Longrightarrow>
      e \<in> set es \<Longrightarrow> e' \<in> set es' \<Longrightarrow> ekey e \<noteq> ekey e'"
  shows "tree_ok F"
  unfolding tree_ok_def
proof (intro conjI allI impI)
  show "\<exists>es. dir_in F 1 es" using assms(1) by blast
next
  fix k k' es es'
  assume "dir_in F k es" "dir_in F k' es'" "k \<noteq> k'"
  then show "ekey ` set es \<inter> ekey ` set es' = {}" using assms(6) by blast
qed (use assms(2-5) in blast)+

section \<open>Changing a file that is not a directory\<close>

lemma dir_in_other: "t \<noteq> DIR \<Longrightarrow> F k = Some (t', d') \<Longrightarrow> t' \<noteq> DIR \<Longrightarrow>
    dir_in (F(k \<mapsto> (t, d))) k' es \<longleftrightarrow> dir_in F k' es"
  by (auto simp: dir_in_def)

lemma tree_put_file:
  assumes ok: "tree_ok F" and k: "F k = Some (t, d)" "t \<noteq> DIR"
  shows "tree_ok (F(k \<mapsto> (t, d')))"
proof -
  have dir: "dir_in (F(k \<mapsto> (t, d'))) k' es \<longleftrightarrow> dir_in F k' es" for k' es
    using k by (intro dir_in_other) auto
  let ?F = "F(k \<mapsto> (t, d'))"
  obtain es0 where "dir_in F 1 es0" using tree_okD(1) [OF ok] by blast
  then have "dir_in ?F 1 es0" unfolding dir .
  then show ?thesis
  proof (rule tree_okI)
    fix j c
    assume "?F j = Some (DIR, c)"
    then have "F j = Some (DIR, c)" using k(2) by (simp split: if_splits)
    then show "\<exists>es. dir_in ?F j es" unfolding dir by (rule tree_okD(2) [OF ok])
  next
    fix j es e
    assume "dir_in ?F j es" "e \<in> set es"
    then have "F (ekey e) \<noteq> None" unfolding dir by (rule tree_okD(4) [OF ok])
    then show "?F (ekey e) \<noteq> None" by simp
  next
    fix j es
    assume "dir_in ?F j es"
    then show "distinct (map ekey es)" unfolding dir by (rule tree_okD(3) [OF ok])
  next
    fix j es e
    assume "dir_in ?F j es" "e \<in> set es"
    then show "j < ekey e" unfolding dir by (rule tree_okD(5) [OF ok])
  next
    fix j j' es es' e e'
    assume "dir_in ?F j es" "dir_in ?F j' es'" "j \<noteq> j'" "e \<in> set es" "e' \<in> set es'"
    then show "ekey e \<noteq> ekey e'" unfolding dir by (rule tree_okD(6) [OF ok])
  qed
qed

section \<open>Adding an entry\<close>

lemma dir_in_link:
  assumes "dir_in F p es" "F n = None" "c = [] \<or> t \<noteq> DIR" "p \<noteq> n" "entry_ok e"
  shows "dir_in (F(n \<mapsto> (t, c), p \<mapsto> (DIR, print_entries (es @ [e])))) k xs \<longleftrightarrow>
    (if k = p then xs = es @ [e] else if k = n then t = DIR \<and> xs = [] else dir_in F k xs)"
proof -
  let ?F = "F(n \<mapsto> (t, c), p \<mapsto> (DIR, print_entries (es @ [e])))"
  have p: "dir_in ?F p (es @ [e])"
    using assms(1,5) by (auto simp: dir_in_def)
  have n: "dir_in ?F n []" if "t = DIR"
    using assms(3,4) that by (auto simp: dir_in_def)
  have "dir_in ?F n xs \<Longrightarrow> t = DIR" using assms(4) by (auto simp: dir_in_def)
  then show ?thesis
    using p n dir_in_unique [OF p, of xs] dir_in_unique [of ?F n "[]" xs]
    by (auto simp: dir_in_def split: if_splits)
qed

lemma tree_link:
  assumes ok: "tree_ok F" and dir: "dir_in F p es" and n: "F n = None" "p < n"
    and c: "c = [] \<or> t \<noteq> DIR" and e: "entry_ok e" "ekey e = n"
  shows "tree_ok (F(n \<mapsto> (t, c), p \<mapsto> (DIR, print_entries (es @ [e]))))"
proof -
  let ?F = "F(n \<mapsto> (t, c), p \<mapsto> (DIR, print_entries (es @ [e])))"
  have "p \<noteq> n" using n(2) by simp
  note D = dir_in_link [OF dir n(1) c this e(1)]
  have old: "ekey x \<noteq> n" if "dir_in F k xs" "x \<in> set xs" for k xs x
    using tree_okD(4) [OF ok that] n(1) by auto
  have some: "?F j \<noteq> None" if "F j \<noteq> None" for j using that by simp
  obtain es0 where "dir_in F 1 es0" using tree_okD(1) [OF ok] by blast
  then have "dir_in ?F 1 (if p = 1 then es @ [e] else es0)"
    using n(1) unfolding D by (auto simp: dir_in_def)
  then show ?thesis
  proof (rule tree_okI)
    show "\<exists>xs. dir_in ?F k xs" if "?F k = Some (DIR, d)" for k d
      using that tree_okD(2) [OF ok, of k] unfolding D by (auto split: if_splits)
    show "distinct (map ekey xs)" if "dir_in ?F k xs" for k xs
    proof (cases "k = p")
      case True
      have "distinct (map ekey es)" "n \<notin> ekey ` set es"
        using tree_okD(3) [OF ok dir] old [OF dir] by auto
      then show ?thesis using that True e(2) unfolding D by simp
    next
      case False
      then show ?thesis using that tree_okD(3) [OF ok, of k xs] unfolding D by (auto split: if_splits)
    qed
    show "?F (ekey x) \<noteq> None" if "dir_in ?F k xs" "x \<in> set xs" for k xs x
      using that some tree_okD(4) [OF ok] dir e(2) unfolding D by (auto split: if_splits)
    show "k < ekey x" if "dir_in ?F k xs" "x \<in> set xs" for k xs x
      using that tree_okD(5) [OF ok] dir e(2) n(2) unfolding D by (auto split: if_splits)
    show "ekey x \<noteq> ekey x'"
      if "dir_in ?F k xs" "dir_in ?F k' xs'" "k \<noteq> k'" "x \<in> set xs" "x' \<in> set xs'" for k k' xs xs' x x'
    proof -
      have new: "(k = p \<and> (x = e \<or> x \<in> set es)) \<or> (k \<noteq> p \<and> dir_in F k xs)"
        "(k' = p \<and> (x' = e \<or> x' \<in> set es)) \<or> (k' \<noteq> p \<and> dir_in F k' xs')"
        using that unfolding D by (auto split: if_splits)
      then show ?thesis
        using that(3-5) dir e(2) old [of k xs x] old [of k' xs' x']
          tree_okD(6) [OF ok, of k _ k' _ x x'] by metis
    qed
  qed
qed

section \<open>Removing an entry and its file\<close>

lemma dir_in_unlink:
  assumes "dir_in F p es" "set es' \<subseteq> set es" "p \<noteq> n"
  shows "dir_in (F(n := None, p \<mapsto> (DIR, print_entries es'))) k xs \<longleftrightarrow>
    (if k = p then xs = es' else k \<noteq> n \<and> dir_in F k xs)"
proof -
  let ?F = "F(n := None, p \<mapsto> (DIR, print_entries es'))"
  have "dir_in ?F p es'" using assms(1,2) by (auto simp: dir_in_def)
  then show ?thesis
    using dir_in_unique [of ?F p es' xs] assms(3) by (auto simp: dir_in_def split: if_splits)
qed

lemma tree_unlink:
  assumes ok: "tree_ok F" and dir: "dir_in F p es" and e: "dir_find name es = Some e" and p: "0 < p"
  shows "tree_ok (F(ekey e := None, p \<mapsto> (DIR, print_entries (erase_first name es))))"
proof -
  let ?es = "erase_first name es" and ?n = "ekey e"
  let ?F = "F(?n := None, p \<mapsto> (DIR, print_entries ?es))"
  obtain us vs where es: "es = us @ e # vs" "?es = us @ vs"
    using erase_first_split [OF e] by metis
  have n: "p < ?n" using tree_okD(5) [OF ok dir] es(1) by simp
  have sub: "set ?es \<subseteq> set es" by (rule set_erase_first)
  have D: "dir_in ?F k xs \<longleftrightarrow> (if k = p then xs = ?es else k \<noteq> ?n \<and> dir_in F k xs)" for k xs
    using n by (intro dir_in_unlink [OF dir sub]) simp
  have gone: "ekey x \<noteq> ?n" if "x \<in> set ?es" for x
  proof -
    have "distinct (map ekey (us @ e # vs))"
      using tree_okD(3) [OF ok dir] by (simp only: es(1))
    moreover have "x \<in> set (us @ vs)" using that by (simp only: es(2))
    ultimately show ?thesis by (auto simp: image_iff)
  qed
  have away: "ekey x \<noteq> ?n" if "dir_in F k xs" "k \<noteq> p" "x \<in> set xs" for k xs x
    using tree_okD(6) [OF ok that(1) dir that(2,3)] es(1) by simp
  have split: "x \<in> set xs \<Longrightarrow> (k = p \<and> x \<in> set ?es) \<or> (k \<noteq> p \<and> dir_in F k xs)"
    if "dir_in ?F k xs" for k xs x
    using that unfolding D by (auto split: if_splits)
  obtain es0 where es0: "dir_in F 1 es0" using tree_okD(1) [OF ok] by blast
  have "1 \<noteq> ?n" using n p by (auto simp: word_less_nat_alt)
  then have "dir_in ?F 1 (if p = 1 then ?es else es0)" using es0 unfolding D by simp
  then show ?thesis
  proof (rule tree_okI)
    show "\<exists>xs. dir_in ?F k xs" if "?F k = Some (DIR, d)" for k d
      using that tree_okD(2) [OF ok, of k] unfolding D by (auto split: if_splits)
    show "distinct (map ekey xs)" if "dir_in ?F k xs" for k xs
    proof (cases "k = p")
      case True
      have "distinct (map ekey (us @ e # vs))"
        using tree_okD(3) [OF ok dir] by (simp only: es(1))
      then have "distinct (map ekey ?es)" unfolding es(2) by simp
      then show ?thesis using that True unfolding D by simp
    next
      case False
      then show ?thesis using that tree_okD(3) [OF ok, of k xs] unfolding D by simp
    qed
    show "?F (ekey x) \<noteq> None" if "dir_in ?F k xs" "x \<in> set xs" for k xs x
    proof -
      have "F (ekey x) \<noteq> None" "ekey x \<noteq> ?n"
        using split [OF that] that(2) gone away tree_okD(4) [OF ok] dir sub by blast+
      then show ?thesis by simp
    qed
    show "k < ekey x" if "dir_in ?F k xs" "x \<in> set xs" for k xs x
      using split [OF that] that(2) tree_okD(5) [OF ok] dir sub by blast
    show "ekey x \<noteq> ekey x'"
      if "dir_in ?F k xs" "dir_in ?F k' xs'" "k \<noteq> k'" "x \<in> set xs" "x' \<in> set xs'" for k k' xs xs' x x'
      using split [OF that(1,4)] split [OF that(2,5)] that(3-5) dir sub
        tree_okD(6) [OF ok, of k _ k' _ x x'] by blast
  qed
qed

section \<open>Names\<close>

lemma names_put_file:
  "names_ok F \<Longrightarrow> F k = Some (t, d) \<Longrightarrow> t \<noteq> DIR \<Longrightarrow> names_ok (F(k \<mapsto> (t, d')))"
  unfolding names_ok_def using dir_in_other by blast

lemma names_link:
  assumes "names_ok F" "dir_in F p es" "F n = None" "p \<noteq> n" "c = [] \<or> t \<noteq> DIR" "entry_ok e"
    and "dir_find (d_name e) es = None"
  shows "names_ok (F(n \<mapsto> (t, c), p \<mapsto> (DIR, print_entries (es @ [e]))))"
  using assms unfolding names_ok_def dir_in_link [OF assms(2,3,5,4,6)]
  by (auto simp: dir_find_None)

lemma names_unlink:
  assumes "names_ok F" "dir_in F p es" "p \<noteq> n"
  shows "names_ok (F(n := None, p \<mapsto> (DIR, print_entries (erase_first name es))))"
proof -
  have "distinct (map d_name (erase_first name es))" if "distinct (map d_name es)"
    using that
  proof (induction es)
    case (Cons x xs)
    then show ?case using set_erase_first [of name xs] by auto
  qed simp
  then show ?thesis
    using assms(1,2) unfolding names_ok_def dir_in_unlink [OF assms(2) set_erase_first assms(3)]
    by auto
qed

end
