(* ===== verification/Fuse.thy ===== *)
theory Fuse
  imports Yfs_Client
begin

text \<open>
  The request handlers of src/fuse.cc.  A handler takes the state of the one
  \<open>yfs_client\<close> and the arguments of the request and returns the reply it sends.
  The session loop is single threaded: requests run one after the other.
\<close>

section \<open>The kernel interface\<close>

text \<open>
  What comes from the fuse headers and library: the bits of \<open>to_set\<close>, the size
  of a directory record by the length of the name, and the bytes
  \<open>fuse_add_dirent\<close> stores for a name, an inode number and an offset.
\<close>

record fuse_lib =
  SET_ATTR_SIZE :: u32
  SET_ATTR_ATIME :: u32
  SET_ATTR_MTIME :: u32
  fuse_dirent_size :: "nat \<Rightarrow> nat"
  fuse_add_dirent :: "byte list \<Rightarrow> u64 \<Rightarrow> nat \<Rightarrow> byte list"

datatype errno = E_SUCCESS | ENOENT | EEXIST | ENOTDIR | ENOTEMPTY | ENOSYS

definition S_IFREG :: u32 where "S_IFREG = 0x8000"
definition S_IFDIR :: u32 where "S_IFDIR = 0x4000"
definition S_IFLNK :: u32 where "S_IFLNK = 0xA000"

text \<open>The fields of \<open>struct stat\<close> the program sets; the others stay zero.\<close>

record stat =
  st_ino :: u64
  st_mode :: u32
  st_nlink :: u64
  st_atime :: u64
  st_mtime :: u64
  st_ctime :: u64
  st_size :: u64

definition zero_stat :: stat where
  "zero_stat = \<lparr>st_ino = 0, st_mode = 0, st_nlink = 0, st_atime = 0, st_mtime = 0, st_ctime = 0, st_size = 0\<rparr>"

text \<open>\<open>struct fuse_entry_param\<close>; both timeouts are always \<open>0.0\<close>.\<close>

record entry_param =
  e_ino :: u64
  e_attr :: stat
  e_generation :: u64

datatype reply =
    ReplyErr errno
  | ReplyAttr stat
  | ReplyEntry entry_param
  | ReplyCreate entry_param
  | ReplyBuf "byte list"
  | ReplyWrite u64
  | ReplyOpen
  | ReplyStatfs (f_namemax: nat) (f_bsize: nat)

section \<open>Attributes\<close>

definition zero_fileinfo :: fileinfo where
  "zero_fileinfo = \<lparr>fi_size = 0, fi_atime = 0, fi_mtime = 0, fi_ctime = 0\<rparr>"

definition zero_dirinfo :: dirinfo where
  "zero_dirinfo = \<lparr>di_atime = 0, di_mtime = 0, di_ctime = 0\<rparr>"

definition file_stat :: "u64 \<Rightarrow> u32 \<Rightarrow> fileinfo \<Rightarrow> stat" where
  "file_stat inum mode info =
     zero_stat\<lparr>st_ino := inum, st_mode := mode, st_nlink := 1, st_atime := fi_atime info,
               st_mtime := fi_mtime info, st_ctime := fi_ctime info, st_size := fi_size info\<rparr>"

definition fuse_getattr :: "yfs_client \<Rightarrow> u64 \<Rightarrow> (status \<times> stat) result" where
  "fuse_getattr y inum =
     (let st = zero_stat\<lparr>st_ino := inum\<rparr>
      in andThen (isfile y inum) (\<lambda>f.
         if f then andThen (getfile y inum zero_fileinfo) (\<lambda>(ret, info).
                if ret \<noteq> OK then Inr (ret, st) else Inr (OK, file_stat inum (S_IFREG OR 438) info))
         else andThen (isdir y inum) (\<lambda>d.
           if d then andThen (getdir y inum zero_dirinfo) (\<lambda>(ret, info).
                  if ret \<noteq> OK then Inr (ret, st)
                  else Inr (OK, st\<lparr>st_mode := S_IFDIR OR 511, st_nlink := 2, st_atime := di_atime info,
                                   st_mtime := di_mtime info, st_ctime := di_ctime info\<rparr>))
           else andThen (getfile y inum zero_fileinfo) (\<lambda>(ret, info).
                  if ret \<noteq> OK then Inr (ret, st) else Inr (OK, file_stat inum (S_IFLNK OR 511) info)))))"

definition fuseserver_getattr :: "yfs_client \<Rightarrow> u64 \<Rightarrow> (reply \<times> yfs_client) result" where
  "fuseserver_getattr y ino =
     andThen (fuse_getattr y ino) (\<lambda>(ret, st).
       if ret \<noteq> OK then Inr (ReplyErr ENOENT, y) else Inr (ReplyAttr st, y))"

definition set_attr_mask :: "fuse_lib \<Rightarrow> u32" where
  "set_attr_mask L = SET_ATTR_SIZE L OR SET_ATTR_ATIME L OR SET_ATTR_MTIME L"

definition fuseserver_setattr ::
  "fuse_lib \<Rightarrow> yfs_client \<Rightarrow> u64 \<Rightarrow> u64 \<Rightarrow> u32 \<Rightarrow> (reply \<times> yfs_client) result" where
  "fuseserver_setattr L y ino attr_size to_set =
     (if set_attr_mask L AND to_set \<noteq> 0
      then andThen (if to_set AND set_attr_mask L \<noteq> 0
                    then andThen (yfs_setattr y ino attr_size) (\<lambda>(_, y1). Inr y1)
                    else Inr y) (\<lambda>y1.
           andThen (fuse_getattr y1 ino) (\<lambda>(_, st). Inr (ReplyAttr st, y1)))
      else Inr (ReplyErr ENOSYS, y))"

section \<open>Reading and writing\<close>

definition fuseserver_read ::
  "yfs_client \<Rightarrow> u64 \<Rightarrow> u64 \<Rightarrow> u64 \<Rightarrow> (reply \<times> yfs_client) result" where
  "fuseserver_read y ino sz off =
     andThen (yfs_read y ino sz off []) (\<lambda>(r, buf, y1).
       if r = OK then Inr (ReplyBuf buf, y1) else Inr (ReplyErr ENOENT, y1))"

text \<open>\<open>size\<close> is also the variable \<open>bytes_written\<close> refers to.\<close>

definition fuseserver_write ::
  "yfs_client \<Rightarrow> u64 \<Rightarrow> byte list \<Rightarrow> u64 \<Rightarrow> u64 \<Rightarrow> (reply \<times> yfs_client) result" where
  "fuseserver_write y ino buf sz off =
     andThen (yfs_write y ino sz off buf sz) (\<lambda>(r, written, y1).
       if r = OK then Inr (ReplyWrite written, y1) else Inr (ReplyErr ENOENT, y1))"

section \<open>Creating\<close>

text \<open>The entry is set on success only.\<close>

definition fuseserver_createhelper ::
  "yfs_client \<Rightarrow> u64 \<Rightarrow> byte list \<Rightarrow> u32 \<Rightarrow> (status \<times> entry_param option \<times> yfs_client) result" where
  "fuseserver_createhelper y parent name type =
     (let (junk, y0) = uninit 8 y
      in andThen (if type = T_FILE then yfs_create y0 parent name (bytes_u64 junk)
                  else yfs_mkdir y0 parent name (bytes_u64 junk)) (\<lambda>(ret, inum, y1).
         if ret \<noteq> OK then Inr (ret, None, y1)
         else andThen (fuse_getattr y1 inum) (\<lambda>(ret, st).
           Inr (ret, Some \<lparr>e_ino = inum, e_attr = st, e_generation = 0\<rparr>, y1))))"

text \<open>The reply of \<open>create\<close>, \<open>mknod\<close> and \<open>mkdir\<close> when the helper has failed.\<close>

definition create_error :: "status \<Rightarrow> reply" where
  "create_error ret = (if ret = EXIST then ReplyErr EEXIST else ReplyErr ENOENT)"

definition fuseserver_create ::
  "yfs_client \<Rightarrow> u64 \<Rightarrow> byte list \<Rightarrow> (reply \<times> yfs_client) result" where
  "fuseserver_create y parent name =
     andThen (fuseserver_createhelper y parent name T_FILE) (\<lambda>(ret, e, y1).
       (case e of
          Some p \<Rightarrow> if ret = OK then Inr (ReplyCreate p, y1) else Inr (create_error ret, y1)
        | None \<Rightarrow> Inr (create_error ret, y1)))"

definition fuseserver_mknod ::
  "yfs_client \<Rightarrow> u64 \<Rightarrow> byte list \<Rightarrow> (reply \<times> yfs_client) result" where
  "fuseserver_mknod y parent name =
     andThen (fuseserver_createhelper y parent name T_FILE) (\<lambda>(ret, e, y1).
       (case e of
          Some p \<Rightarrow> if ret = OK then Inr (ReplyEntry p, y1) else Inr (create_error ret, y1)
        | None \<Rightarrow> Inr (create_error ret, y1)))"

definition fuseserver_mkdir ::
  "yfs_client \<Rightarrow> u64 \<Rightarrow> byte list \<Rightarrow> (reply \<times> yfs_client) result" where
  "fuseserver_mkdir y parent name =
     andThen (fuseserver_createhelper y parent name T_DIR) (\<lambda>(ret, e, y1).
       (case e of
          Some p \<Rightarrow> if ret = OK then Inr (ReplyEntry p, y1) else Inr (create_error ret, y1)
        | None \<Rightarrow> Inr (create_error ret, y1)))"

section \<open>Directories\<close>

definition fuseserver_lookup ::
  "yfs_client \<Rightarrow> u64 \<Rightarrow> byte list \<Rightarrow> (reply \<times> yfs_client) result" where
  "fuseserver_lookup y parent name =
     (let (junk, y0) = uninit 8 y
      in andThen (lookup y0 parent name False (bytes_u64 junk)) (\<lambda>(_, found, ino, y1).
         if found
         then andThen (fuse_getattr y1 ino) (\<lambda>(_, st).
              Inr (ReplyEntry \<lparr>e_ino = ino, e_attr = st, e_generation = 0\<rparr>, y1))
         else Inr (ReplyErr ENOENT, y1)))"

record dirbuf =
  db_p :: "byte list"
  db_size :: nat

definition dirbuf_add :: "fuse_lib \<Rightarrow> dirbuf \<Rightarrow> byte list \<Rightarrow> u64 \<Rightarrow> dirbuf" where
  "dirbuf_add L b name ino =
     (let sz = db_size b + fuse_dirent_size L (length name)
      in \<lparr>db_p = db_p b @ fuse_add_dirent L name ino sz, db_size = sz\<rparr>)"

definition reply_buf_limited :: "byte list \<Rightarrow> nat \<Rightarrow> u64 \<Rightarrow> u64 \<Rightarrow> reply" where
  "reply_buf_limited buf bufsize off maxsize =
     (if unat off < bufsize
      then ReplyBuf (take (min (bufsize - unat off) (unat maxsize)) (drop (unat off) buf))
      else ReplyBuf [])"

definition fuseserver_readdir ::
  "fuse_lib \<Rightarrow> yfs_client \<Rightarrow> u64 \<Rightarrow> u64 \<Rightarrow> u64 \<Rightarrow> (reply \<times> yfs_client) result" where
  "fuseserver_readdir L y ino sz off =
     andThen (isdir y ino) (\<lambda>d.
       if \<not> d then Inr (ReplyErr ENOTDIR, y)
       else andThen (readdir y ino []) (\<lambda>(_, entries, y1).
         let b = foldl (\<lambda>b e. dirbuf_add L b (c_str (d_name e)) (d_inum e)) \<lparr>db_p = [], db_size = 0\<rparr> entries
         in Inr (reply_buf_limited (db_p b) (db_size b) off sz, y1)))"

definition fuseserver_open :: "yfs_client \<Rightarrow> u64 \<Rightarrow> (reply \<times> yfs_client) result" where
  "fuseserver_open y ino = Inr (ReplyOpen, y)"

definition fuseserver_unlink ::
  "yfs_client \<Rightarrow> u64 \<Rightarrow> byte list \<Rightarrow> (reply \<times> yfs_client) result" where
  "fuseserver_unlink y parent name =
     andThen (unlink y parent name) (\<lambda>(r, y1).
       if r = OK then Inr (ReplyErr E_SUCCESS, y1)
       else if r = NOENT then Inr (ReplyErr ENOENT, y1) else Inr (ReplyErr ENOTEMPTY, y1))"

section \<open>Symbolic links and statfs\<close>

definition fuseserver_symlink ::
  "u32 \<Rightarrow> yfs_client \<Rightarrow> byte list \<Rightarrow> u64 \<Rightarrow> byte list \<Rightarrow> (reply \<times> yfs_client) result" where
  "fuseserver_symlink tsym y link parent name =
     (let (junk, y0) = uninit 8 y
      in andThen (yfs_symlink tsym y0 parent link name (bytes_u64 junk)) (\<lambda>(ret, inum, y1).
         andThen (fuse_getattr y1 inum) (\<lambda>(_, st).
           if ret = OK then Inr (ReplyEntry \<lparr>e_ino = inum, e_attr = st, e_generation = 0\<rparr>, y1)
           else Inr (ReplyErr ENOENT, y1))))"

definition fuseserver_readlink ::
  "u32 \<Rightarrow> yfs_client \<Rightarrow> u64 \<Rightarrow> (reply \<times> yfs_client) result" where
  "fuseserver_readlink tsym y ino =
     andThen (yfs_readlink tsym y ino []) (\<lambda>(r, buf, y1).
       if r = OK then Inr (ReplyBuf buf, y1) else Inr (ReplyErr ENOENT, y1))"

definition fuseserver_statfs :: "yfs_client \<Rightarrow> (reply \<times> yfs_client) result" where
  "fuseserver_statfs y = Inr (ReplyStatfs 255 512, y)"

section \<open>The operation table\<close>

datatype request =
    ReqGetattr u64
  | ReqStatfs
  | ReqReaddir u64 u64 u64
  | ReqLookup u64 "byte list"
  | ReqCreate u64 "byte list"
  | ReqMknod u64 "byte list"
  | ReqOpen u64
  | ReqRead u64 u64 u64
  | ReqWrite u64 "byte list" u64 u64
  | ReqSetattr u64 u64 u32
  | ReqUnlink u64 "byte list"
  | ReqMkdir u64 "byte list"
  | ReqSymlink "byte list" u64 "byte list"
  | ReqReadlink u64

text \<open>The table \<open>fuseserver_oper\<close> that \<open>main\<close> fills in.\<close>

fun dispatch :: "fuse_lib \<Rightarrow> u32 \<Rightarrow> yfs_client \<Rightarrow> request \<Rightarrow> (reply \<times> yfs_client) result" where
  "dispatch L tsym y (ReqGetattr ino) = fuseserver_getattr y ino"
| "dispatch L tsym y ReqStatfs = fuseserver_statfs y"
| "dispatch L tsym y (ReqReaddir ino sz off) = fuseserver_readdir L y ino sz off"
| "dispatch L tsym y (ReqLookup parent name) = fuseserver_lookup y parent name"
| "dispatch L tsym y (ReqCreate parent name) = fuseserver_create y parent name"
| "dispatch L tsym y (ReqMknod parent name) = fuseserver_mknod y parent name"
| "dispatch L tsym y (ReqOpen ino) = fuseserver_open y ino"
| "dispatch L tsym y (ReqRead ino sz off) = fuseserver_read y ino sz off"
| "dispatch L tsym y (ReqWrite ino buf sz off) = fuseserver_write y ino buf sz off"
| "dispatch L tsym y (ReqSetattr ino sz to_set) = fuseserver_setattr L y ino sz to_set"
| "dispatch L tsym y (ReqUnlink parent name) = fuseserver_unlink y parent name"
| "dispatch L tsym y (ReqMkdir parent name) = fuseserver_mkdir y parent name"
| "dispatch L tsym y (ReqSymlink link parent name) = fuseserver_symlink tsym y link parent name"
| "dispatch L tsym y (ReqReadlink ino) = fuseserver_readlink tsym y ino"

end
