(* ===== verification/Fs_Spec.thy ===== *)
theory Fs_Spec
  imports Namespace Fuse
begin

text \<open>
  The abstract file system: every request as a function on the store, with the
  answer it gives.  The handlers are shown to implement it and to keep the
  invariant of the tree.
\<close>

section \<open>The specification\<close>

definition entries :: "store \<Rightarrow> u32 \<Rightarrow> dirent list" where
  "entries st k =
     (case st_files st k of
        Some (t, d) \<Rightarrow> (case parse_dir d of Inr es \<Rightarrow> es | Inl _ \<Rightarrow> [])
      | None \<Rightarrow> [])"

definition next_inum :: "store \<Rightarrow> u64" where
  "next_inum st = ucast (st_last st + 1)"

definition fs_link :: "u32 \<Rightarrow> store \<Rightarrow> u32 \<Rightarrow> byte list \<Rightarrow> store" where
  "fs_link ty st p name =
     (if dir_find name (entries st p) \<noteq> None then st
      else store_put (store_create st ty) p
             (print_entries (entries st p @ [\<lparr>d_name = name, d_inum = next_inum st\<rparr>])))"

definition fs_symlink :: "u32 \<Rightarrow> store \<Rightarrow> byte list \<Rightarrow> u32 \<Rightarrow> byte list \<Rightarrow> store" where
  "fs_symlink tsym st link p name =
     store_put (store_put (store_create st tsym) (st_last st + 1) link) p
       (print_entries (entries st p @ [\<lparr>d_name = name, d_inum = next_inum st\<rparr>]))"

definition fs_unlink :: "store \<Rightarrow> u32 \<Rightarrow> byte list \<Rightarrow> store" where
  "fs_unlink st p name =
     (case dir_find name (entries st p) of
        None \<Rightarrow> st
      | Some e \<Rightarrow> store_put (store_remove st (ekey e)) p (print_entries (erase_first name (entries st p))))"

definition contents :: "store \<Rightarrow> u32 \<Rightarrow> byte list" where
  "contents st k = (case st_files st k of None \<Rightarrow> [] | Some (t, d) \<Rightarrow> d)"

fun fs_apply :: "fuse_lib \<Rightarrow> u32 \<Rightarrow> store \<Rightarrow> request \<Rightarrow> store" where
  "fs_apply L tsym st (ReqCreate p name) = fs_link T_FILE st (extent_inum p) name"
| "fs_apply L tsym st (ReqMknod p name) = fs_link T_FILE st (extent_inum p) name"
| "fs_apply L tsym st (ReqMkdir p name) = fs_link T_DIR st (extent_inum p) name"
| "fs_apply L tsym st (ReqSymlink link p name) = fs_symlink tsym st link (extent_inum p) name"
| "fs_apply L tsym st (ReqUnlink p name) = fs_unlink st (extent_inum p) name"
| "fs_apply L tsym st (ReqWrite i buf sz off) =
     store_put st (extent_inum i) (write_spec (contents st (extent_inum i)) (unat off) buf)"
| "fs_apply L tsym st (ReqSetattr i sz to_set) =
     (if set_attr_mask L AND to_set \<noteq> 0
      then store_put st (extent_inum i) (resize (contents st (extent_inum i)) (unat sz)) else st)"
| "fs_apply L tsym st req = st"

text \<open>The attributes the store determines: all but the times.\<close>

definition stat_ok :: "store \<Rightarrow> u64 \<Rightarrow> stat \<Rightarrow> bool" where
  "stat_ok st i s \<longleftrightarrow> st_ino s = i \<and>
     (case st_files st (extent_inum i) of
        None \<Rightarrow> st_mode s = S_IFLNK OR 511 \<and> st_nlink s = 1 \<and> st_size s = 0
      | Some (t, d) \<Rightarrow>
          if t = REG then st_mode s = S_IFREG OR 438 \<and> st_nlink s = 1 \<and> st_size s = word_of_nat (length d)
          else if t = DIR then st_mode s = S_IFDIR OR 511 \<and> st_nlink s = 2 \<and> st_size s = 0
          else st_mode s = S_IFLNK OR 511 \<and> st_nlink s = 1 \<and> st_size s = word_of_nat (length d))"

definition entry_reply :: "store \<Rightarrow> u64 \<Rightarrow> entry_param \<Rightarrow> bool" where
  "entry_reply st i p \<longleftrightarrow> e_ino p = i \<and> stat_ok st i (e_attr p)"

definition link_reply :: "(entry_param \<Rightarrow> reply) \<Rightarrow> store \<Rightarrow> store \<Rightarrow> u32 \<Rightarrow> byte list \<Rightarrow> reply \<Rightarrow> bool" where
  "link_reply R st st' p name rep \<longleftrightarrow>
     (if dir_find name (entries st p) \<noteq> None then rep = ReplyErr EEXIST
      else \<exists>e. rep = R e \<and> entry_reply st' (next_inum st) e)"

definition dir_listing :: "fuse_lib \<Rightarrow> dirent list \<Rightarrow> dirbuf" where
  "dir_listing L es =
     foldl (\<lambda>b e. dirbuf_add L b (c_str (d_name e)) (d_inum e)) \<lparr>db_p = [], db_size = 0\<rparr> es"

fun answers :: "fuse_lib \<Rightarrow> u32 \<Rightarrow> store \<Rightarrow> request \<Rightarrow> store \<Rightarrow> reply \<Rightarrow> bool" where
  "answers L tsym st (ReqGetattr i) st' rep \<longleftrightarrow> (\<exists>s. rep = ReplyAttr s \<and> stat_ok st i s)"
| "answers L tsym st ReqStatfs st' rep \<longleftrightarrow> rep = ReplyStatfs 255 512"
| "answers L tsym st (ReqReaddir i sz off) st' rep \<longleftrightarrow>
     rep = (if has_type st i DIR
            then (let b = dir_listing L (entries st (extent_inum i))
                  in reply_buf_limited (db_p b) (db_size b) off sz)
            else ReplyErr ENOTDIR)"
| "answers L tsym st (ReqLookup p name) st' rep \<longleftrightarrow>
     (case (if has_type st p DIR then dir_find name (entries st (extent_inum p)) else None) of
        None \<Rightarrow> rep = ReplyErr ENOENT
      | Some e \<Rightarrow> \<exists>r. rep = ReplyEntry r \<and> entry_reply st (d_inum e) r)"
| "answers L tsym st (ReqCreate p name) st' rep \<longleftrightarrow> link_reply ReplyCreate st st' (extent_inum p) name rep"
| "answers L tsym st (ReqMknod p name) st' rep \<longleftrightarrow> link_reply ReplyEntry st st' (extent_inum p) name rep"
| "answers L tsym st (ReqMkdir p name) st' rep \<longleftrightarrow> link_reply ReplyEntry st st' (extent_inum p) name rep"
| "answers L tsym st (ReqSymlink link p name) st' rep \<longleftrightarrow>
     (\<exists>e. rep = ReplyEntry e \<and> entry_reply st' (next_inum st) e)"
| "answers L tsym st (ReqOpen i) st' rep \<longleftrightarrow> rep = ReplyOpen"
| "answers L tsym st (ReqRead i sz off) st' rep \<longleftrightarrow>
     rep = (if has_type st i REG
            then ReplyBuf (take (unat sz) (drop (unat off) (contents st (extent_inum i))))
            else ReplyErr ENOENT)"
| "answers L tsym st (ReqWrite i buf sz off) st' rep \<longleftrightarrow>
     rep = ReplyWrite (word_of_nat (written_spec (contents st (extent_inum i)) (unat off) buf))"
| "answers L tsym st (ReqSetattr i sz to_set) st' rep \<longleftrightarrow>
     (if set_attr_mask L AND to_set \<noteq> 0 then \<exists>s. rep = ReplyAttr s \<and> stat_ok st' i s
      else rep = ReplyErr ENOSYS)"
| "answers L tsym st (ReqUnlink p name) st' rep \<longleftrightarrow>
     rep = ReplyErr (if dir_find name (entries st (extent_inum p)) = None then ENOENT else E_SUCCESS)"
| "answers L tsym st (ReqReadlink i) st' rep \<longleftrightarrow>
     rep = (if has_type st i (ucast tsym) then ReplyBuf (contents st (extent_inum i)) else ReplyErr ENOENT)"

text \<open>
  What the requests may assume: names the kernel forms, parents that are
  directories, data requests on files, and room on the disk for the change.
\<close>

definition link_fits :: "store \<Rightarrow> store \<Rightarrow> u64 \<Rightarrow> byte list \<Rightarrow> bool" where
  "link_fits st st1 p name \<longleftrightarrow> name_ok name \<and> has_type st p DIR \<and> can_create st \<and>
     can_put st1 (extent_inum p) (contents st (extent_inum p) @ entry_bytes name (next_inum st))"

text \<open>A name that exists needs no room: the request is answered with an error.\<close>

definition make_fits :: "store \<Rightarrow> u64 \<Rightarrow> byte list \<Rightarrow> bool" where
  "make_fits st p name \<longleftrightarrow>
     has_type st p DIR \<and> dir_find name (entries st (extent_inum p)) \<noteq> None \<or> link_fits st st p name"

lemma link_make_fits [intro]: "link_fits st st p name \<Longrightarrow> make_fits st p name"
  by (simp add: make_fits_def)

fun admissible :: "fuse_lib \<Rightarrow> u32 \<Rightarrow> store \<Rightarrow> request \<Rightarrow> bool" where
  "admissible L tsym st (ReqCreate p name) \<longleftrightarrow> make_fits st p name"
| "admissible L tsym st (ReqMknod p name) \<longleftrightarrow> make_fits st p name"
| "admissible L tsym st (ReqMkdir p name) \<longleftrightarrow> make_fits st p name"
| "admissible L tsym st (ReqSymlink link p name) \<longleftrightarrow>
     length link \<le> MAXFILE * BLOCK_SIZE \<and> file_blocks link \<le> st_room st \<and>
     link_fits st (store_put (store_create st tsym) (st_last st + 1) link) p name"
| "admissible L tsym st (ReqUnlink p name) \<longleftrightarrow> has_type st p DIR"
| "admissible L tsym st (ReqRead i sz off) \<longleftrightarrow>
     (has_type st i REG \<longrightarrow> unat off \<le> length (contents st (extent_inum i)))"
| "admissible L tsym st (ReqWrite i buf sz off) \<longleftrightarrow> has_type st i REG \<and> length buf = unat sz \<and>
     can_put st (extent_inum i) (write_spec (contents st (extent_inum i)) (unat off) buf)"
| "admissible L tsym st (ReqSetattr i sz to_set) \<longleftrightarrow>
     set_attr_mask L AND to_set = 0 \<or> \<not> has_type st i DIR \<and>
     can_put st (extent_inum i) (resize (contents st (extent_inum i)) (unat sz))"
| "admissible L tsym st req \<longleftrightarrow> True"

definition fs_ok :: "yfs_client \<Rightarrow> bool" where
  "fs_ok y \<longleftrightarrow> y_ok y \<and> tree_ok (st_files (y_store y))"

definition symlink_type :: "u32 \<Rightarrow> bool" where
  "symlink_type tsym \<longleftrightarrow> 2 < unat tsym \<and> unat tsym < 2 ^ 15"

end
