(* ===== verification/Fs_Refine.thy ===== *)
theory Fs_Refine
  imports Fs_Spec
begin

text \<open>
  Every handler, on an admissible request, returns, sends the reply of the
  specification, acts on the store as the specification and keeps the tree.
\<close>

section \<open>Reading the store\<close>

lemma entries_eq: "dir_at st k es \<Longrightarrow> entries st k = es"
  by (simp add: entries_def dir_at_def parse_print)

lemma contents_eq: "st_files st k = Some (t, d) \<Longrightarrow> contents st k = d"
  by (simp add: contents_def)

lemma has_typeE:
  assumes "has_type st i t"
  obtains d where "st_files st (extent_inum i) = Some (t, d)" "contents st (extent_inum i) = d"
  using assms by (auto simp: has_type_def contents_def split: option.splits)

lemma fs_okD:
  assumes "fs_ok y"
  shows "y_ok y" "tree_ok (st_files (y_store y))"
    and "st_files (y_store y) k \<noteq> None \<Longrightarrow> 0 < k \<and> k \<le> st_last (y_store y) \<and> unat k < INODE_NUM"
proof -
  show y: "y_ok y" and "tree_ok (st_files (y_store y))"
    using assms by (simp_all add: fs_ok_def)
  show "st_files (y_store y) k \<noteq> None \<Longrightarrow> 0 < k \<and> k \<le> st_last (y_store y) \<and> unat k < INODE_NUM"
    using ec.known [of "yfs_ec y" k] y by (simp add: y_ok_def y_store_def)
qed

lemma fs_dir:
  assumes "fs_ok y" "has_type (y_store y) p DIR"
  shows "dir_at (y_store y) (extent_inum p) (entries (y_store y) (extent_inum p))"
    and "contents (y_store y) (extent_inum p) = print_entries (entries (y_store y) (extent_inum p))"
proof -
  obtain d where "st_files (y_store y) (extent_inum p) = Some (DIR, d)"
    using assms(2) by (rule has_typeE)
  then obtain es where "dir_at (y_store y) (extent_inum p) es"
    using tree_okD(2) [OF fs_okD(2) [OF assms(1)]] by (auto simp: dir_at_in)
  then show "dir_at (y_store y) (extent_inum p) (entries (y_store y) (extent_inum p))"
    by (simp add: entries_eq)
  then show "contents (y_store y) (extent_inum p) = print_entries (entries (y_store y) (extent_inum p))"
    by (simp add: contents_def dir_at_def)
qed

lemma next_inum:
  assumes "can_create st"
  shows "extent_inum (next_inum st) = st_last st + 1" "unat (next_inum st) < 2 ^ 31"
    "unat (st_last st + 1) = unat (st_last st) + 1"
proof -
  show u: "unat (st_last st + 1) = unat (st_last st) + 1"
    using assms by (simp add: can_create_def unat_word_ariths layout)
  then have small: "unat (st_last st + 1) < 2 ^ 31"
    using assms by (simp add: can_create_def layout)
  then show "extent_inum (next_inum st) = st_last st + 1"
    unfolding next_inum_def by (rule extent_inum_ucast)
  have "unat (next_inum st) = unat (st_last st + 1)"
    using small by (simp add: next_inum_def unsigned_ucast_eq take_bit_nat_eq_self)
  then show "unat (next_inum st) < 2 ^ 31" using small by simp
qed

section \<open>Attributes\<close>

lemma fuse_getattr_ok:
  assumes y: "y_ok y"
  shows "\<exists>s. fuse_getattr y i = Inr (OK, s) \<and> stat_ok (y_store y) i s"
proof (cases "st_files (y_store y) (extent_inum i)")
  case None
  then have "ec_getattr (yfs_ec y) i = Inr (OK, zero_attr)"
    using ec.attrs_none [of "yfs_ec y" i] y by (simp add: y_ok_def y_store_def)
  then show ?thesis
    using None y by (simp add: fuse_getattr_def isfile_eq isdir_eq has_type_def getfile_def
        stat_ok_def file_stat_def zero_stat_def zero_attr_def)
next
  case (Some f)
  then obtain t d where f: "st_files (y_store y) (extent_inum i) = Some (t, d)" by (cases f) auto
  then obtain a where a: "ec_getattr (yfs_ec y) i = Inr (OK, a)" "a_size a = word_of_nat (length d)"
    using ec.attrs_ok [of "yfs_ec y" i t d] y by (auto simp: y_ok_def y_store_def)
  have "length d < 2 ^ 32"
    using ec.bounded [of "yfs_ec y" "extent_inum i" t d] f y by (simp add: y_ok_def y_store_def layout)
  then have sz: "(ucast (a_size a) :: u64) = word_of_nat (length d)"
    unfolding a(2) by (rule ucast_u64_of_nat)
  consider "t = REG" | "t = DIR" | "t \<noteq> REG" "t \<noteq> DIR" by blast
  then show ?thesis
    by cases (simp_all add: fuse_getattr_def isfile_eq [OF y] isdir_eq [OF y] has_type_Some [OF f] a(1)
        getfile_def getdir_def stat_ok_def f file_stat_def zero_stat_def sz)
qed

section \<open>Linking\<close>

lemma fs_make_node:
  assumes fs: "fs_ok y" and fits: "make_fits (y_store y) p name"
    and ty: "ty = T_FILE \<or> ty = T_DIR"
  shows "\<exists>r i y'. make_node ty y p name ino = Inr (r, i, y') \<and> fs_ok y' \<and>
    y_store y' = fs_link ty (y_store y) (extent_inum p) name \<and>
    (if dir_find name (entries (y_store y) (extent_inum p)) = None
     then r = OK \<and> i = next_inum (y_store y) else r = EXIST)"
proof -
  let ?st = "y_store y" and ?k = "extent_inum p"
  let ?es = "entries ?st ?k" and ?e = "\<lparr>d_name = name, d_inum = next_inum ?st\<rparr>"
  note D = fs_okD [OF fs]
  have dirt: "has_type ?st p DIR" using fits by (auto simp: make_fits_def link_fits_def)
  have dir: "dir_at ?st ?k ?es" using fs_dir(1) [OF fs dirt] .
  show ?thesis
  proof (cases "dir_find name ?es")
    case (Some e)
    then obtain y' where "make_node ty y p name ino = Inr (EXIST, d_inum e, y')" "y_ok y'" "y_store y' = ?st"
      using make_node_exists [OF D(1) dir] by blast
    then show ?thesis using Some D(2) by (auto simp: fs_link_def fs_ok_def)
  next
    case None
    have F: "name_ok name" "has_type ?st p DIR" "can_create ?st"
        "can_put ?st ?k (print_entries ?es @ entry_bytes name (next_inum ?st))"
      using fits None fs_dir(2) [OF fs] by (auto simp: make_fits_def link_fits_def)
    have t: "(ucast ty :: u16) \<noteq> 0" using ty by auto
    obtain y' where y': "make_node ty y p name ino = Inr (OK, next_inum ?st, y')" "y_ok y'"
        "extent_inum (next_inum ?st) \<noteq> ?k" "st_files ?st (extent_inum (next_inum ?st)) = None"
        "y_store y' = store_put (store_create ?st ty) ?k (print_entries ?es @ entry_bytes name (next_inum ?st))"
      using make_node_ok [OF D(1) dir None t F(3) next_inum_def F(4)] by blast
    have key: "extent_inum (next_inum ?st) = st_last ?st + 1" by (rule next_inum(1) [OF F(3)])
    have "st_files (store_create ?st ty) ?k = Some (DIR, print_entries ?es)"
      using dir y'(3) key by (simp add: dir_at_def)
    then have files': "st_files (y_store y') =
        (st_files ?st)(st_last ?st + 1 \<mapsto> (ucast ty, []), ?k \<mapsto> (DIR, print_entries (?es @ [?e])))"
      by (simp add: y'(5))
    have "tree_ok (st_files (y_store y'))"
      unfolding files'
    proof (rule tree_link [OF D(2)])
      show "dir_in (st_files ?st) ?k ?es" using dir by (simp add: dir_at_in)
      show "st_files ?st (st_last ?st + 1) = None" using y'(4) by (simp only: key)
      have "?k \<le> st_last ?st" using D(3) [of ?k] dir by (simp add: dir_at_def)
      then show "?k < st_last ?st + 1" using next_inum(3) [OF F(3)] by (simp add: word_less_nat_alt word_le_nat_alt)
      show "entry_ok ?e" using F(1) next_inum(2) [OF F(3)] by (simp add: entry_ok_def)
      show "ekey ?e = st_last ?st + 1" by (simp add: ekey_def key)
    qed simp
    then have "fs_ok y'" using y'(2) by (simp add: fs_ok_def)
    moreover have "y_store y' = fs_link ty ?st ?k name"
      using None by (simp add: fs_link_def y'(5))
    ultimately show ?thesis using y'(1) None by auto
  qed
qed

lemma fs_symlink:
  assumes fs: "fs_ok y" and ty: "symlink_type tsym"
    and adm: "admissible L tsym (y_store y) (ReqSymlink link p name)"
  shows "\<exists>y'. yfs_symlink tsym y p link name ino = Inr (OK, next_inum (y_store y), y') \<and> fs_ok y' \<and>
    y_store y' = fs_symlink tsym (y_store y) link (extent_inum p) name"
proof -
  let ?st = "y_store y" and ?k = "extent_inum p"
  let ?es = "entries ?st ?k" and ?e = "\<lparr>d_name = name, d_inum = next_inum ?st\<rparr>"
  let ?st1 = "store_put (store_create ?st tsym) (extent_inum (next_inum ?st)) link"
  note D = fs_okD [OF fs]
  have n: "can_create ?st" using adm by (simp add: link_fits_def)
  have key: "extent_inum (next_inum ?st) = st_last ?st + 1" by (rule next_inum(1) [OF n])
  have F: "name_ok name" "has_type ?st p DIR" "length link \<le> MAXFILE * BLOCK_SIZE"
      "file_blocks link \<le> st_room ?st"
      "can_put ?st1 ?k (print_entries ?es @ entry_bytes name (next_inum ?st))"
    using adm fs_dir(2) [OF fs] by (auto simp: link_fits_def key)
  have dir: "dir_at ?st ?k ?es" using fs_dir(1) [OF fs F(2)] .
  have t: "unat tsym < 2 ^ 15" "tsym \<noteq> T_DIR" "tsym \<noteq> 0"
    using ty by (auto simp: symlink_type_def T_DIR_def)
  have "(ucast tsym :: u16) \<noteq> DIR" "(ucast tsym :: u16) \<noteq> 0"
    using type_code [OF t(1), of DIR] type_code [OF t(1), of 0] type_codes(1) [of DIR] t(2,3) by auto
  then have t': "(ucast tsym :: u16) \<noteq> 0" "[] = link \<or> (ucast tsym :: u16) \<noteq> DIR" by simp_all
  have old: "st_files ?st ?k = Some (DIR, print_entries ?es)" using dir by (simp add: dir_at_def)
  obtain y' where y': "yfs_symlink tsym y p link name ino = Inr (OK, next_inum ?st, y')" "y_ok y'"
      "extent_inum (next_inum ?st) \<noteq> ?k" "st_files ?st (extent_inum (next_inum ?st)) = None"
      "y_store y' = store_put ?st1 ?k (print_entries ?es @ entry_bytes name (next_inum ?st))"
    using yfs_symlink_ok [OF D(1) old t'(1) n next_inum_def F(3,4) refl F(5)] by blast
  have "st_files ?st1 ?k = Some (DIR, print_entries ?es)"
    using old y'(3) key by (simp add: store_put_def)
  then have files': "st_files (y_store y') =
      (st_files ?st)(st_last ?st + 1 \<mapsto> (ucast tsym, link), ?k \<mapsto> (DIR, print_entries (?es @ [?e])))"
    by (simp add: y'(5)) (simp add: key store_put_def)
  have "tree_ok (st_files (y_store y'))"
    unfolding files'
  proof (rule tree_link [OF D(2)])
    show "dir_in (st_files ?st) ?k ?es" using dir by (simp add: dir_at_in)
    show "st_files ?st (st_last ?st + 1) = None" using y'(4) by (simp only: key)
    have "?k \<le> st_last ?st" using D(3) [of ?k] dir by (simp add: dir_at_def)
    then show "?k < st_last ?st + 1" using next_inum(3) [OF n] by (simp add: word_less_nat_alt word_le_nat_alt)
    show "entry_ok ?e" using F(1) next_inum(2) [OF n] by (simp add: entry_ok_def)
    show "ekey ?e = st_last ?st + 1" by (simp add: ekey_def key)
  qed (use t'(2) in auto)
  then have "fs_ok y'" using y'(2) by (simp add: fs_ok_def)
  moreover have "y_store y' = fs_symlink tsym ?st link ?k name"
    by (simp add: fs_symlink_def y'(5) key)
  ultimately show ?thesis using y'(1) by blast
qed

section \<open>Unlinking\<close>

lemma fs_unlink:
  assumes fs: "fs_ok y" and dirt: "has_type (y_store y) p DIR"
  shows "\<exists>y'. unlink y p name =
      Inr (if dir_find name (entries (y_store y) (extent_inum p)) = None then NOENT else OK, y') \<and>
    fs_ok y' \<and> y_store y' = fs_unlink (y_store y) (extent_inum p) name"
proof -
  let ?st = "y_store y" and ?k = "extent_inum p"
  let ?es = "entries ?st ?k"
  note D = fs_okD [OF fs]
  have dir: "dir_at ?st ?k ?es" using fs_dir(1) [OF fs dirt] .
  show ?thesis
  proof (cases "dir_find name ?es")
    case None
    then show ?thesis
      using unlink_none [OF D(1) dir None] D(2) by (auto simp: fs_unlink_def fs_ok_def)
  next
    case (Some e)
    have e: "e \<in> set ?es" using dir_find_SomeD [OF Some] by blast
    have dir': "dir_in (st_files ?st) ?k ?es" using dir by (simp add: dir_at_in)
    have live: "st_files ?st (ekey e) \<noteq> None" "?k < ekey e"
      using tree_okD(4,5) [OF D(2) dir' e] by auto
    then have neq: "ekey e \<noteq> ?k" by auto
    obtain y' where y': "unlink y p name = Inr (OK, y')" "y_ok y'"
        "y_store y' = store_put (store_remove ?st (ekey e)) ?k (print_entries (erase_first name ?es))"
      using unlink_ok [OF D(1) dir Some] live(1) neq unfolding ekey_def by blast
    have "st_files (store_remove ?st (ekey e)) ?k = Some (DIR, print_entries ?es)"
      using dir neq by (simp add: dir_at_def)
    then have files': "st_files (y_store y') =
        (st_files ?st)(ekey e := None, ?k \<mapsto> (DIR, print_entries (erase_first name ?es)))"
      by (simp add: y'(3))
    have "0 < ?k" using D(3) [of ?k] dir by (simp add: dir_at_def)
    then have "tree_ok (st_files (y_store y'))"
      unfolding files' by (rule tree_unlink [OF D(2) dir' Some])
    then show ?thesis using y' Some by (auto simp: fs_unlink_def fs_ok_def)
  qed
qed

section \<open>The handlers\<close>

definition implements :: "fuse_lib \<Rightarrow> u32 \<Rightarrow> yfs_client \<Rightarrow> request \<Rightarrow> bool" where
  "implements L tsym y req \<longleftrightarrow>
     (\<exists>rep y'. dispatch L tsym y req = Inr (rep, y') \<and> fs_ok y' \<and>
        y_store y' = fs_apply L tsym (y_store y) req \<and>
        answers L tsym (y_store y) req (y_store y') rep)"

lemma uninit_fs:
  assumes "uninit n y = (bs, y')"
  shows "fs_ok y' = fs_ok y" "y_store y' = y_store y"
  using uninitD [OF assms] by (simp_all add: fs_ok_def)

lemma fs_ok_same: "y_ok y' \<Longrightarrow> y_store y' = y_store y \<Longrightarrow> fs_ok y \<Longrightarrow> fs_ok y'"
  by (simp add: fs_ok_def)

lemma createhelper_ok:
  assumes fs: "fs_ok y" and fits: "make_fits (y_store y) p name"
    and ty: "ty = T_FILE \<or> ty = T_DIR"
  shows "\<exists>r e y'. fuseserver_createhelper y p name ty = Inr (r, e, y') \<and> fs_ok y' \<and>
    y_store y' = fs_link ty (y_store y) (extent_inum p) name \<and>
    (if dir_find name (entries (y_store y) (extent_inum p)) = None
     then r = OK \<and> (\<exists>q. e = Some q \<and> entry_reply (y_store y') (next_inum (y_store y)) q)
     else r = EXIST \<and> e = None)"
proof -
  obtain junk y0 where u: "uninit 8 y = (junk, y0)" by fastforce
  note y0 = uninit_fs [OF u]
  obtain r i y1 where 1: "make_node ty y0 p name (bytes_u64 junk) = Inr (r, i, y1)" "fs_ok y1"
      "y_store y1 = fs_link ty (y_store y) (extent_inum p) name"
      "if dir_find name (entries (y_store y) (extent_inum p)) = None
       then r = OK \<and> i = next_inum (y_store y) else r = EXIST"
    using fs_make_node [OF _ _ ty, of y0 p name "bytes_u64 junk"] fs fits y0 by auto
  have call: "(if ty = T_FILE then yfs_create y0 p name (bytes_u64 junk)
      else yfs_mkdir y0 p name (bytes_u64 junk)) = Inr (r, i, y1)"
    using ty 1(1) by (auto simp: yfs_create_def yfs_mkdir_def)
  show ?thesis
  proof (cases "dir_find name (entries (y_store y) (extent_inum p))")
    case None
    obtain s where "fuse_getattr y1 i = Inr (OK, s)" "stat_ok (y_store y1) i s"
      using fuse_getattr_ok [OF fs_okD(1) [OF 1(2)]] by blast
    then show ?thesis
      using None 1(2-4) call u by (simp add: fuseserver_createhelper_def entry_reply_def)
  next
    case (Some e)
    then show ?thesis
      using 1(2-4) call u by (simp add: fuseserver_createhelper_def)
  qed
qed

lemma link_handlers:
  assumes "fs_ok y" "make_fits (y_store y) p name"
  shows "implements L tsym y (ReqCreate p name)" "implements L tsym y (ReqMknod p name)"
    "implements L tsym y (ReqMkdir p name)"
proof -
  obtain r e y' where "fuseserver_createhelper y p name T_FILE = Inr (r, e, y')" "fs_ok y'"
      "y_store y' = fs_link T_FILE (y_store y) (extent_inum p) name"
      "if dir_find name (entries (y_store y) (extent_inum p)) = None
       then r = OK \<and> (\<exists>q. e = Some q \<and> entry_reply (y_store y') (next_inum (y_store y)) q)
       else r = EXIST \<and> e = None"
    using createhelper_ok [OF assms, of T_FILE] by blast
  then show "implements L tsym y (ReqCreate p name)" "implements L tsym y (ReqMknod p name)"
    by (cases "dir_find name (entries (y_store y) (extent_inum p))";
        auto simp: implements_def fuseserver_create_def fuseserver_mknod_def link_reply_def create_error_def)+
next
  obtain r e y' where "fuseserver_createhelper y p name T_DIR = Inr (r, e, y')" "fs_ok y'"
      "y_store y' = fs_link T_DIR (y_store y) (extent_inum p) name"
      "if dir_find name (entries (y_store y) (extent_inum p)) = None
       then r = OK \<and> (\<exists>q. e = Some q \<and> entry_reply (y_store y') (next_inum (y_store y)) q)
       else r = EXIST \<and> e = None"
    using createhelper_ok [OF assms, of T_DIR] by blast
  then show "implements L tsym y (ReqMkdir p name)"
    by (cases "dir_find name (entries (y_store y) (extent_inum p))";
        auto simp: implements_def fuseserver_mkdir_def link_reply_def create_error_def)
qed

lemma symlink_handlers:
  assumes fs: "fs_ok y" and ty: "symlink_type tsym"
  shows "admissible L tsym (y_store y) (ReqSymlink link p name) \<Longrightarrow>
      implements L tsym y (ReqSymlink link p name)"
    and "implements L tsym y (ReqReadlink i)"
proof -
  assume adm: "admissible L tsym (y_store y) (ReqSymlink link p name)"
  obtain junk y0 where u: "uninit 8 y = (junk, y0)" by fastforce
  note y0 = uninit_fs [OF u]
  obtain y' where y': "yfs_symlink tsym y0 p link name (bytes_u64 junk) = Inr (OK, next_inum (y_store y), y')"
      "fs_ok y'" "y_store y' = fs_symlink tsym (y_store y) link (extent_inum p) name"
    using fs_symlink [OF _ ty, of y0 L link p name] fs adm y0 by auto
  obtain s where "fuse_getattr y' (next_inum (y_store y)) = Inr (OK, s)"
      "stat_ok (y_store y') (next_inum (y_store y)) s"
    using fuse_getattr_ok [OF fs_okD(1) [OF y'(2)]] by blast
  then show "implements L tsym y (ReqSymlink link p name)"
    using y' u by (simp add: implements_def fuseserver_symlink_def entry_reply_def)
next
  have t: "unat tsym < 2 ^ 15" "tsym \<noteq> 0" using ty by (auto simp: symlink_type_def)
  have y: "y_ok y" using fs_okD(1) [OF fs] .
  show "implements L tsym y (ReqReadlink i)"
  proof (cases "has_type (y_store y) i (ucast tsym)")
    case True
    then obtain d where f: "st_files (y_store y) (extent_inum i) = Some (ucast tsym, d)"
        "contents (y_store y) (extent_inum i) = d" by (rule has_typeE)
    obtain y' where "yfs_readlink tsym y i [] = Inr (OK, d, y')" "y_ok y'" "y_store y' = y_store y"
      using yfs_readlink_eq [OF y t f(1), of "[]"] by auto
    then show ?thesis
      using True f(2) fs_ok_same [OF _ _ fs] by (simp add: implements_def fuseserver_readlink_def)
  next
    case False
    then have "yfs_readlink tsym y i [] = Inr (IOERR, [], y)"
      by (simp add: yfs_readlink_def issymlink_eq [OF y t])
    then show ?thesis using False fs by (simp add: implements_def fuseserver_readlink_def)
  qed
qed

lemma unlink_handler:
  assumes "fs_ok y" "has_type (y_store y) p DIR"
  shows "implements L tsym y (ReqUnlink p name)"
  using fs_unlink [OF assms, of name]
  by (cases "dir_find name (entries (y_store y) (extent_inum p))")
    (auto simp: implements_def fuseserver_unlink_def)

lemma lookup_handlers:
  assumes fs: "fs_ok y"
  shows "implements L tsym y (ReqLookup p name)" "implements L tsym y (ReqReaddir p sz off)"
proof -
  let ?st = "y_store y" and ?k = "extent_inum p"
  let ?es = "entries ?st ?k"
  have y: "y_ok y" using fs_okD(1) [OF fs] .
  obtain junk y0 where u: "uninit 8 y = (junk, y0)" by fastforce
  have y0: "fs_ok y0" "y_ok y0" "y_store y0 = ?st"
    using uninit_fs [OF u] uninitD [OF u] fs y by simp_all
  show "implements L tsym y (ReqLookup p name)"
  proof (cases "has_type ?st p DIR")
    case True
    have dir: "dir_at (y_store y0) ?k ?es" using fs_dir(1) [OF fs True] by (simp add: y0)
    obtain y1 where y1: "lookup y0 p name False (bytes_u64 junk) =
        Inr (OK, dir_find name ?es \<noteq> None,
             (case dir_find name ?es of None \<Rightarrow> bytes_u64 junk | Some e \<Rightarrow> d_inum e), y1)"
        "y_ok y1" "y_store y1 = ?st"
      using lookup_eq [OF y0(2) dir, of name False "bytes_u64 junk"] y0(3) by auto
    note fs1 = fs_ok_same [OF y1(2,3) fs]
    show ?thesis
    proof (cases "dir_find name ?es")
      case None
      then show ?thesis using True u y1 fs1 by (simp add: implements_def fuseserver_lookup_def)
    next
      case (Some e)
      obtain s where "fuse_getattr y1 (d_inum e) = Inr (OK, s)" "stat_ok ?st (d_inum e) s"
        using fuse_getattr_ok [OF y1(2)] y1(3) by auto
      then show ?thesis
        using Some True u y1 fs1 by (simp add: implements_def fuseserver_lookup_def entry_reply_def)
    qed
  next
    case False
    then show ?thesis
      using lookup_not_dir [OF y0(2)] y0 u by (simp add: implements_def fuseserver_lookup_def)
  qed
  show "implements L tsym y (ReqReaddir p sz off)"
  proof (cases "has_type ?st p DIR")
    case True
    obtain y1 where "readdir y p [] = Inr (OK, ?es, y1)" "y_ok y1" "y_store y1 = ?st"
      using readdir_ok [OF y fs_dir(1) [OF fs True], of "[]"] by auto
    then show ?thesis
      using True fs_ok_same [OF _ _ fs]
      by (simp add: implements_def fuseserver_readdir_def isdir_eq [OF y] dir_listing_def Let_def)
  next
    case False
    then show ?thesis using fs by (simp add: implements_def fuseserver_readdir_def isdir_eq [OF y])
  qed
qed

lemma read_handler:
  assumes fs: "fs_ok y" and adm: "admissible L tsym (y_store y) (ReqRead i sz off)"
  shows "implements L tsym y (ReqRead i sz off)"
proof -
  have y: "y_ok y" using fs_okD(1) [OF fs] .
  show ?thesis
  proof (cases "has_type (y_store y) i REG")
    case True
    then obtain d where f: "st_files (y_store y) (extent_inum i) = Some (REG, d)"
        "contents (y_store y) (extent_inum i) = d" by (rule has_typeE)
    then have "unat off \<le> length d" using adm True by simp
    from yfs_read_ok [OF y f(1) this] obtain y' where
      "yfs_read y i sz off [] = Inr (OK, take (unat sz) (drop (unat off) d), y')" "y_ok y'"
      "y_store y' = y_store y" by blast
    then show ?thesis
      using True f(2) fs_ok_same [OF _ _ fs] by (simp add: implements_def fuseserver_read_def)
  next
    case False
    then show ?thesis
      using fs by (simp add: implements_def fuseserver_read_def yfs_read_def isfile_eq [OF y])
  qed
qed

lemma fs_ok_put:
  assumes fs: "fs_ok y" and f: "st_files (y_store y) k = Some (t, d)" "t \<noteq> DIR"
    and y': "y_ok y'" "y_store y' = store_put (y_store y) k d'"
  shows "fs_ok y'"
  using tree_put_file [OF fs_okD(2) [OF fs] f] y'
  by (simp add: fs_ok_def store_put_files [OF f(1)])

lemma write_handler:
  assumes fs: "fs_ok y" and adm: "admissible L tsym (y_store y) (ReqWrite i buf sz off)"
  shows "implements L tsym y (ReqWrite i buf sz off)"
proof -
  have y: "y_ok y" using fs_okD(1) [OF fs] .
  from adm obtain d where f: "st_files (y_store y) (extent_inum i) = Some (REG, d)"
      "contents (y_store y) (extent_inum i) = d" by (auto elim: has_typeE)
  have sz: "unat sz = length buf" "buf = take (unat sz) buf" using adm by simp_all
  have space: "can_put (y_store y) (extent_inum i) (write_spec d (unat off) buf)"
    using adm f(2) by simp
  obtain y' where y': "yfs_write y i sz off buf sz = Inr (OK, word_of_nat (written_spec d (unat off) buf), y')"
      "y_ok y'" "y_store y' = store_put (y_store y) (extent_inum i) (write_spec d (unat off) buf)"
    using yfs_write_ok [OF y f(1) sz space] by blast
  moreover have "fs_ok y'" using fs_ok_put [OF fs f(1) _ y'(2,3)] type_codes(7) by metis
  ultimately show ?thesis
    using f(2) by (simp add: implements_def fuseserver_write_def)
qed

lemma setattr_handler:
  assumes fs: "fs_ok y" and adm: "admissible L tsym (y_store y) (ReqSetattr i sz to_set)"
  shows "implements L tsym y (ReqSetattr i sz to_set)"
proof (cases "set_attr_mask L AND to_set = 0")
  case True
  then show ?thesis using fs by (simp add: implements_def fuseserver_setattr_def)
next
  case False
  have y: "y_ok y" using fs_okD(1) [OF fs] .
  from adm False obtain t d where f: "st_files (y_store y) (extent_inum i) = Some (t, d)"
    using can_put_known by fastforce
  then have d: "contents (y_store y) (extent_inum i) = d" "t \<noteq> DIR"
    using adm False by (auto simp: contents_def has_type_def)
  then obtain y' where y': "yfs_setattr y i sz = Inr (OK, y')" "y_ok y'"
      "y_store y' = store_put (y_store y) (extent_inum i) (resize d (unat sz))"
    using yfs_setattr_ok [OF y f, of sz] adm False by auto
  obtain s where "fuse_getattr y' i = Inr (OK, s)" "stat_ok (y_store y') i s"
    using fuse_getattr_ok [OF y'(2)] by blast
  moreover have "fs_ok y'" by (rule fs_ok_put [OF fs f d(2) y'(2,3)])
  moreover have "to_set AND set_attr_mask L \<noteq> 0" using False by (simp add: and.commute)
  ultimately show ?thesis
    using False y' d(1) by (simp add: implements_def fuseserver_setattr_def)
qed

lemma getattr_handler:
  assumes "fs_ok y"
  shows "implements L tsym y (ReqGetattr i)"
  using fuse_getattr_ok [OF fs_okD(1) [OF assms], of i] assms
  by (auto simp: implements_def fuseserver_getattr_def)

lemma dispatch_implements:
  assumes fs: "fs_ok y" and ty: "symlink_type tsym" and adm: "admissible L tsym (y_store y) req"
  shows "implements L tsym y req"
proof (cases req)
  case ReqStatfs
  then show ?thesis using fs by (simp add: implements_def fuseserver_statfs_def)
next
  case ReqOpen
  then show ?thesis using fs by (simp add: implements_def fuseserver_open_def)
qed (use adm link_handlers [OF fs] symlink_handlers [OF fs ty] unlink_handler [OF fs]
      lookup_handlers [OF fs] read_handler [OF fs] write_handler [OF fs] setattr_handler [OF fs]
      getattr_handler [OF fs] in auto)

section \<open>Reachable states\<close>

text \<open>A run of the session loop: a new file system, then one request after the other.\<close>

inductive reachable :: "fuse_lib \<Rightarrow> u32 \<Rightarrow> env \<Rightarrow> yfs_client \<Rightarrow> bool"
  for L tsym e where
  start: "yfs_client_new 0 e = Inr y \<Longrightarrow> reachable L tsym e y"
| serve: "reachable L tsym e y \<Longrightarrow> admissible L tsym (y_store y) req \<Longrightarrow>
    dispatch L tsym y req = Inr (rep, y') \<Longrightarrow> reachable L tsym e y'"

lemma tree_new: "tree_ok [1 \<mapsto> (DIR, [])]"
proof -
  have dir: "dir_in [1 \<mapsto> (DIR, [])] k es \<longleftrightarrow> k = 1 \<and> es = []" for k es
  proof -
    have "print_entries es = [] \<longleftrightarrow> es = []" by (cases es) (simp_all add: entry_bytes_def)
    then show ?thesis by (auto simp: dir_in_def)
  qed
  show ?thesis unfolding tree_ok_def dir by auto
qed

lemma new_fs_ok:
  obtains y where "yfs_client_new 0 e = Inr y" "fs_ok y"
    "y_store y = \<lparr>st_files = [1 \<mapsto> (DIR, [])], st_last = 1, st_room = 24576\<rparr>"
  using yfs_new_ok [of e] tree_new by (metis fs_ok_def store.select_convs(1))

lemma reachable_fs_ok:
  assumes "reachable L tsym e y" "symlink_type tsym"
  shows "fs_ok y"
  using assms
proof induction
  case (start y)
  then show ?case using new_fs_ok [of e] by (metis sum.inject(2))
next
  case (serve y req rep y')
  then show ?case
    using dispatch_implements [of y tsym L req] by (auto simp: implements_def)
qed

end
