(* ===== verification/Mount.thy ===== *)
theory Mount
  imports Fs_Refine
begin

text \<open>
  The \<open>main\<close> function of src/fuse.cc: it makes the file system, mounts it through
  the fuse library and serves the kernel's requests one after the other until the
  session ends.  What the library's functions return and the requests of the session
  are in the record \<open>fuse_boot\<close>.
\<close>

section \<open>Start and session\<close>

record fuse_boot =
  parse_cmdline :: "byte list list \<Rightarrow> byte list \<Rightarrow> int \<times> byte list"
  mount_fd :: "byte list \<Rightarrow> int"
  lowlevel_new :: bool
  kern_chan_new :: "int \<Rightarrow> bool"
  session_requests :: "request list"
  session_err :: int

text \<open>\<open>fuse_session_loop\<close> calls the handler of each request and waits for its reply.\<close>

fun fuse_session_loop ::
    "fuse_lib \<Rightarrow> u32 \<Rightarrow> yfs_client \<Rightarrow> request list \<Rightarrow> (reply list \<times> yfs_client) result" where
  "fuse_session_loop L tsym y [] = Inr ([], y)"
| "fuse_session_loop L tsym y (req # reqs) =
     andThen (dispatch L tsym y req) (\<lambda>(rep, y).
     andThen (fuse_session_loop L tsym y reqs) (\<lambda>(reps, y). Inr (rep # reps, y)))"

text \<open>
  The exit code, the replies sent and the file system in the end; \<open>Exited\<close> where the
  code calls \<open>exit(1)\<close>.  The options are \<open>argv[0]\<close>, the mount point and \<open>-d\<close>.
\<close>

definition fuse_main ::
    "fuse_lib \<Rightarrow> u32 \<Rightarrow> fuse_boot \<Rightarrow> byte list list \<Rightarrow> u32 \<Rightarrow> env \<Rightarrow>
     (int \<times> reply list \<times> yfs_client) result" where
  "fuse_main L tsym F argv static_inum e =
     (if length argv \<noteq> 2 then Inl Exited
      else let mountpoint = argv ! 1
           in andThen (yfs_client_new static_inum e) (\<lambda>yfs.
              let fuse_argv = [argv ! 0, mountpoint, [45, 100]];
                  (res, mountpoint) = parse_cmdline F fuse_argv mountpoint
              in if res = - 1 then Inr (0, [], yfs)
                 else let fd = mount_fd F mountpoint
                      in if fd = - 1 then Inl Exited
                         else if \<not> lowlevel_new F then Inl Exited
                         else if \<not> kern_chan_new F fd then Inl Exited
                         else andThen (fuse_session_loop L tsym yfs (session_requests F)) (\<lambda>(reps, yfs).
                              Inr (if session_err F \<noteq> 0 then 1 else 0, reps, yfs))))"

section \<open>Sequences of requests in the specification\<close>

fun all_admissible :: "fuse_lib \<Rightarrow> u32 \<Rightarrow> store \<Rightarrow> request list \<Rightarrow> bool" where
  "all_admissible L tsym st [] = True"
| "all_admissible L tsym st (req # reqs) =
     (admissible L tsym st req \<and> all_admissible L tsym (fs_apply L tsym st req) reqs)"

fun all_answered :: "fuse_lib \<Rightarrow> u32 \<Rightarrow> store \<Rightarrow> request list \<Rightarrow> reply list \<Rightarrow> bool" where
  "all_answered L tsym st [] reps = (reps = [])"
| "all_answered L tsym st (req # reqs) reps =
     (case reps of
        [] \<Rightarrow> False
      | rep # reps \<Rightarrow>
          answers L tsym st req (fs_apply L tsym st req) rep \<and>
          all_answered L tsym (fs_apply L tsym st req) reqs reps)"

text \<open>A session implements the sequence of its requests.\<close>

lemma session_implements:
  assumes "reachable L tsym e y" "symlink_type tsym" "all_admissible L tsym (y_store y) reqs"
  shows "\<exists>reps y'. fuse_session_loop L tsym y reqs = Inr (reps, y') \<and> reachable L tsym e y' \<and>
    y_store y' = foldl (fs_apply L tsym) (y_store y) reqs \<and> all_answered L tsym (y_store y) reqs reps"
  using assms(1,3)
proof (induction reqs arbitrary: y)
  case (Cons req reqs)
  then have adm: "admissible L tsym (y_store y) req" by simp
  have "implements L tsym y req"
    by (rule dispatch_implements [OF reachable_fs_ok [OF Cons.prems(1) assms(2)] assms(2) adm])
  then obtain rep y1 where y1: "dispatch L tsym y req = Inr (rep, y1)"
      "y_store y1 = fs_apply L tsym (y_store y) req" "answers L tsym (y_store y) req (y_store y1) rep"
    unfolding implements_def by blast
  have "reachable L tsym e y1" by (rule reachable.serve [OF Cons.prems(1) adm y1(1)])
  from Cons.IH [OF this] Cons.prems(2) y1 show ?case by auto
qed simp

end
