(* ===== verification/Threads.thy ===== *)
theory Threads
  imports Prelude
begin

text \<open>
  How a thread gets the object, the method and the arguments it is to run
  (src/rpc/method_thread.h): the parent fills a structure from \<open>new\<close> and passes its
  address to \<open>pthread_create\<close>, the new thread copies it, deletes it and makes the call.
  \<open>ThrPool::addObjJob\<close> of src/rpc/thr_pool.h does the same with a job queue.  The
  results of the POSIX functions and the addresses that \<open>new\<close> returns are arguments.
\<close>

section \<open>Closures, threads and the heap\<close>

text \<open>The class \<open>XXX\<close> of each of the four templates, and \<open>objfunc_wrapper\<close>.\<close>

datatype ('o, 'm, 'v) closure =
    XXX0 'o 'm
  | XXX1 'o 'm 'v
  | XXX2 'o 'm 'v 'v
  | XXX3 'o 'm 'v 'v 'v
  | Wrapper 'o 'm 'v

text \<open>The call \<open>(o->*m)(a, ...)\<close>.\<close>

datatype ('o, 'm, 'v) method_call = MethodCall 'o 'm "'v list"

datatype ('o, 'm, 'v) thread = Starting nat | Queued nat | Called "('o, 'm, 'v) method_call"

text \<open>\<open>asked\<close> is a ghost list: the call each thread or job was made for.\<close>

record ('o, 'm, 'v) process =
  heap :: "nat \<rightharpoonup> ('o, 'm, 'v) closure"
  threads :: "('o, 'm, 'v) thread list"
  asked :: "('o, 'm, 'v) method_call list"

record posix =
  px_create :: int
  px_detach :: int
  px_cancelstate :: int
  px_canceltype :: int

section \<open>The parent\<close>

definition method_thread_parent ::
    "posix \<Rightarrow> nat \<Rightarrow> bool \<Rightarrow> ('o, 'm, 'v) process \<Rightarrow> (nat \<times> ('o, 'm, 'v) process) result" where
  "method_thread_parent px arg detach s =
     (let err = px_create px
      in if err \<noteq> 0 then Inl Exited
         else let th = length (threads s);
                  s = s\<lparr>threads := threads s @ [Starting arg]\<rparr>
              in if detach \<and> px_detach px \<noteq> 0 then Inl VerifyFailed
                 else Inr (th, s))"

definition ask :: "'o \<Rightarrow> 'm \<Rightarrow> 'v list \<Rightarrow> ('o, 'm, 'v) process \<Rightarrow> ('o, 'm, 'v) process" where
  "ask obj m vs s = s\<lparr>asked := asked s @ [MethodCall obj m vs]\<rparr>"

definition method_thread_0 ::
    "posix \<Rightarrow> nat \<Rightarrow> 'o \<Rightarrow> bool \<Rightarrow> 'm \<Rightarrow> ('o, 'm, 'v) process \<Rightarrow> (nat \<times> ('o, 'm, 'v) process) result" where
  "method_thread_0 px x obj detach m s =
     (let s = ask obj m [] s; s = s\<lparr>heap := (heap s)(x \<mapsto> XXX0 obj m)\<rparr>
      in method_thread_parent px x detach s)"

definition method_thread_1 ::
    "posix \<Rightarrow> nat \<Rightarrow> 'o \<Rightarrow> bool \<Rightarrow> 'm \<Rightarrow> 'v \<Rightarrow> ('o, 'm, 'v) process \<Rightarrow>
     (nat \<times> ('o, 'm, 'v) process) result" where
  "method_thread_1 px x obj detach m a s =
     (let s = ask obj m [a] s; s = s\<lparr>heap := (heap s)(x \<mapsto> XXX1 obj m a)\<rparr>
      in method_thread_parent px x detach s)"

definition method_thread_2 ::
    "posix \<Rightarrow> nat \<Rightarrow> 'o \<Rightarrow> bool \<Rightarrow> 'm \<Rightarrow> 'v \<Rightarrow> 'v \<Rightarrow> ('o, 'm, 'v) process \<Rightarrow>
     (nat \<times> ('o, 'm, 'v) process) result" where
  "method_thread_2 px x obj detach m a1 a2 s =
     (let s = ask obj m [a1, a2] s; s = s\<lparr>heap := (heap s)(x \<mapsto> XXX2 obj m a1 a2)\<rparr>
      in method_thread_parent px x detach s)"

definition method_thread_3 ::
    "posix \<Rightarrow> nat \<Rightarrow> 'o \<Rightarrow> bool \<Rightarrow> 'm \<Rightarrow> 'v \<Rightarrow> 'v \<Rightarrow> 'v \<Rightarrow> ('o, 'm, 'v) process \<Rightarrow>
     (nat \<times> ('o, 'm, 'v) process) result" where
  "method_thread_3 px x obj detach m a1 a2 a3 s =
     (let s = ask obj m [a1, a2, a3] s; s = s\<lparr>heap := (heap s)(x \<mapsto> XXX3 obj m a1 a2 a3)\<rparr>
      in method_thread_parent px x detach s)"

text \<open>
  The wrapper of a job; \<open>addJob\<close> is in the library, and its answer, whether the queue
  took the job, is the argument \<open>taken\<close>.  The wrapper of a refused job is not deleted.
\<close>

definition add_obj_job ::
    "bool \<Rightarrow> nat \<Rightarrow> 'o \<Rightarrow> 'm \<Rightarrow> 'v \<Rightarrow> ('o, 'm, 'v) process \<Rightarrow> bool \<times> ('o, 'm, 'v) process" where
  "add_obj_job taken x obj m a s =
     (let s = s\<lparr>heap := (heap s)(x \<mapsto> Wrapper obj m a)\<rparr>
      in (taken, if taken then (ask obj m [a] s)\<lparr>threads := threads s @ [Queued x]\<rparr> else s))"

section \<open>The child\<close>

definition method_thread_child :: "posix \<Rightarrow> unit result" where
  "method_thread_child px =
     (if px_cancelstate px \<noteq> 0 then Inl VerifyFailed
      else if px_canceltype px \<noteq> 0 then Inl VerifyFailed
      else Inr ())"

text \<open>The fields a thread copies before it deletes the structure.\<close>

fun call_of :: "('o, 'm, 'v) closure \<Rightarrow> ('o, 'm, 'v) method_call" where
  "call_of (XXX0 obj m) = MethodCall obj m []"
| "call_of (XXX1 obj m a) = MethodCall obj m [a]"
| "call_of (XXX2 obj m a1 a2) = MethodCall obj m [a1, a2]"
| "call_of (XXX3 obj m a1 a2 a3) = MethodCall obj m [a1, a2, a3]"
| "call_of (Wrapper obj m a) = MethodCall obj m [a]"

text \<open>\<open>XXX::yyy\<close>, run by thread \<open>i\<close>, and \<open>objfunc_wrapper::func\<close>, run for job \<open>i\<close>.\<close>

definition yyy :: "posix \<Rightarrow> nat \<Rightarrow> nat \<Rightarrow> ('o, 'm, 'v) process \<Rightarrow> ('o, 'm, 'v) process result" where
  "yyy px i x s =
     (case heap s x of
        None \<Rightarrow> Inl NullDeref
      | Some c \<Rightarrow>
          (let s = s\<lparr>heap := (heap s)(x := None)\<rparr>
           in andThen (method_thread_child px) (\<lambda>_.
              Inr (s\<lparr>threads := (threads s)[i := Called (call_of c)]\<rparr>))))"

definition func :: "nat \<Rightarrow> nat \<Rightarrow> ('o, 'm, 'v) process \<Rightarrow> ('o, 'm, 'v) process result" where
  "func i x s =
     (case heap s x of
        None \<Rightarrow> Inl NullDeref
      | Some c \<Rightarrow>
          (let s = s\<lparr>threads := (threads s)[i := Called (call_of c)]\<rparr>
           in Inr (s\<lparr>heap := (heap s)(x := None)\<rparr>)))"

fun run_thread :: "posix \<Rightarrow> nat \<Rightarrow> ('o, 'm, 'v) process \<Rightarrow> ('o, 'm, 'v) process result" where
  "run_thread px i s =
     (case threads s ! i of
        Starting x \<Rightarrow> yyy px i x s
      | Queued x \<Rightarrow> func i x s
      | Called c \<Rightarrow> Inr s)"

section \<open>Runs\<close>

text \<open>\<open>new\<close> returns an address that is not in use.\<close>

inductive thread_step :: "('o, 'm, 'v) process \<Rightarrow> ('o, 'm, 'v) process \<Rightarrow> bool" where
  thread0: "heap s x = None \<Longrightarrow> method_thread_0 px x obj detach m s = Inr (th, s') \<Longrightarrow> thread_step s s'"
| thread1: "heap s x = None \<Longrightarrow> method_thread_1 px x obj detach m a s = Inr (th, s') \<Longrightarrow> thread_step s s'"
| thread2: "heap s x = None \<Longrightarrow> method_thread_2 px x obj detach m a1 a2 s = Inr (th, s') \<Longrightarrow> thread_step s s'"
| thread3: "heap s x = None \<Longrightarrow> method_thread_3 px x obj detach m a1 a2 a3 s = Inr (th, s') \<Longrightarrow> thread_step s s'"
| job: "heap s x = None \<Longrightarrow> add_obj_job True x obj m a s = (r, s') \<Longrightarrow> thread_step s s'"
| run: "i < length (threads s) \<Longrightarrow> run_thread px i s = Inr s' \<Longrightarrow> thread_step s s'"

inductive threads_reachable :: "('o, 'm, 'v) process \<Rightarrow> bool" where
  empty: "threads_reachable \<lparr>heap = Map.empty, threads = [], asked = []\<rparr>"
| next_thread_step: "threads_reachable s \<Longrightarrow> thread_step s s' \<Longrightarrow> threads_reachable s'"

section \<open>The hand-over\<close>

text \<open>Every thread that has not started owns its structure, and nothing else is on the heap.\<close>

fun owns :: "('o, 'm, 'v) thread \<Rightarrow> nat option" where
  "owns (Starting x) = Some x"
| "owns (Queued x) = Some x"
| "owns (Called c) = None"

fun right_call :: "(nat \<rightharpoonup> ('o, 'm, 'v) closure) \<Rightarrow> ('o, 'm, 'v) thread \<Rightarrow> ('o, 'm, 'v) method_call \<Rightarrow> bool" where
  "right_call h (Called d) c = (d = c)"
| "right_call h t c = (map_option call_of (Option.bind (owns t) h) = Some c)"

definition threads_ok :: "('o, 'm, 'v) process \<Rightarrow> bool" where
  "threads_ok s \<longleftrightarrow>
     length (asked s) = length (threads s) \<and>
     (\<forall>i<length (threads s). right_call (heap s) (threads s ! i) (asked s ! i)) \<and>
     (\<forall>i<length (threads s). \<forall>j<length (threads s).
        owns (threads s ! i) \<noteq> None \<longrightarrow> owns (threads s ! i) = owns (threads s ! j) \<longrightarrow> i = j) \<and>
     (\<forall>x. heap s x \<noteq> None \<longrightarrow> (\<exists>i<length (threads s). owns (threads s ! i) = Some x))"

lemma right_call_owns:
  "right_call h t c \<Longrightarrow> owns t = Some x \<Longrightarrow> \<exists>d. h x = Some d \<and> call_of d = c"
  by (cases t) (auto split: bind_splits)

lemma right_call_cong:
  "right_call h t c \<Longrightarrow> (\<And>x. owns t = Some x \<Longrightarrow> h' x = h x) \<Longrightarrow> right_call h' t c"
  by (cases t) auto

lemma spawn_ok:
  assumes ok: "threads_ok s" and x: "heap s x = None" and t: "owns t = Some x"
    and s': "heap s' = (heap s)(x \<mapsto> d)" "threads s' = threads s @ [t]" "asked s' = asked s @ [call_of d]"
  shows "threads_ok s'"
proof -
  let ?n = "length (threads s)"
  have len: "length (asked s) = ?n" using ok by (simp add: threads_ok_def)
  have old: "owns (threads s ! i) \<noteq> Some x" "right_call (heap s') (threads s ! i) (asked s ! i)" if "i < ?n" for i
  proof -
    have r: "right_call (heap s) (threads s ! i) (asked s ! i)" using ok that by (simp add: threads_ok_def)
    then show o: "owns (threads s ! i) \<noteq> Some x" using x right_call_owns by fastforce
    show "right_call (heap s') (threads s ! i) (asked s ! i)"
      using o by (intro right_call_cong [OF r]) (auto simp: s'(1))
  qed
  have new: "right_call (heap s') t (call_of d)" using t by (cases t) (auto simp: s'(1))
  show ?thesis
    unfolding threads_ok_def s'(2,3) length_append
  proof (intro conjI allI impI)
    fix i assume "i < ?n + length [t]"
    then show "right_call (heap s') ((threads s @ [t]) ! i) ((asked s @ [call_of d]) ! i)"
      using old(2) new len by (auto simp: nth_append less_Suc_eq)
  next
    fix i j assume "i < ?n + length [t]" "j < ?n + length [t]"
      "owns ((threads s @ [t]) ! i) \<noteq> None" "owns ((threads s @ [t]) ! i) = owns ((threads s @ [t]) ! j)"
    then show "i = j"
      using ok old(1) t unfolding threads_ok_def
      by (auto simp: nth_append less_Suc_eq split: if_splits)
  next
    fix y assume "heap s' y \<noteq> None"
    then consider "y = x" | "heap s y \<noteq> None" by (auto simp: s'(1) split: if_splits)
    then show "\<exists>i<?n + length [t]. owns ((threads s @ [t]) ! i) = Some y"
    proof cases
      case 1
      then show ?thesis using t by (intro exI [of _ ?n]) simp
    next
      case 2
      then obtain i where "i < ?n" "owns (threads s ! i) = Some y" using ok by (auto simp: threads_ok_def)
      then show ?thesis by (intro exI [of _ i]) (simp add: nth_append)
    qed
  qed (simp add: len)
qed

lemma called_ok:
  assumes ok: "threads_ok s" and i: "i < length (threads s)" and x: "owns (threads s ! i) = Some x"
    and d: "heap s x = Some d"
    and s': "heap s' = (heap s)(x := None)" "threads s' = (threads s)[i := Called (call_of d)]" "asked s' = asked s"
  shows "threads_ok s'"
proof -
  let ?n = "length (threads s)"
  have call: "call_of d = asked s ! i"
    using ok i right_call_owns [OF _ x] d by (fastforce simp: threads_ok_def)
  have uniq: "j = i" if "j < ?n" "owns (threads s ! j) = Some x" for j
    using ok i x that unfolding threads_ok_def by (metis option.distinct(1))
  show ?thesis
    unfolding threads_ok_def s'(2,3) length_list_update
  proof (intro conjI allI impI)
    fix j assume j: "j < ?n"
    show "right_call (heap s') ((threads s)[i := Called (call_of d)] ! j) (asked s ! j)"
    proof (cases "j = i")
      case True
      then show ?thesis using i call by simp
    next
      case False
      have r: "right_call (heap s) (threads s ! j) (asked s ! j)" using ok j by (simp add: threads_ok_def)
      show ?thesis
        using False uniq [OF j] by (simp, intro right_call_cong [OF r]) (auto simp: s'(1))
    qed
  next
    fix j k assume "j < ?n" "k < ?n" "owns ((threads s)[i := Called (call_of d)] ! j) \<noteq> None"
      "owns ((threads s)[i := Called (call_of d)] ! j) = owns ((threads s)[i := Called (call_of d)] ! k)"
    then show "j = k"
      using ok i unfolding threads_ok_def by (auto simp: nth_list_update split: if_splits)
  next
    fix y assume y: "heap s' y \<noteq> None"
    then have "heap s y \<noteq> None" "y \<noteq> x" by (auto simp: s'(1) split: if_splits)
    then obtain j where "j < ?n" "owns (threads s ! j) = Some y" using ok by (auto simp: threads_ok_def)
    moreover from this x \<open>y \<noteq> x\<close> have "j \<noteq> i" by auto
    ultimately show "\<exists>j<?n. owns ((threads s)[i := Called (call_of d)] ! j) = Some y"
      by (intro exI [of _ j]) simp
  qed (use ok in \<open>simp add: threads_ok_def\<close>)
qed

lemma run_thread_ok:
  assumes ok: "threads_ok s" and i: "i < length (threads s)" and run: "run_thread px i s = Inr s'"
  shows "threads_ok s'"
proof (cases "owns (threads s ! i)")
  case None
  then show ?thesis using run ok by (cases "threads s ! i") auto
next
  case (Some x)
  then obtain d where d: "heap s x = Some d"
    using ok i right_call_owns unfolding threads_ok_def by blast
  show ?thesis
    by (rule called_ok [OF ok i Some d])
      (use run Some d in \<open>cases "threads s ! i"; auto simp: yyy_def func_def Let_def andThen_eq_Inr_iff\<close>)+
qed

lemma threads_reachable_ok:
  assumes "threads_reachable s"
  shows "threads_ok s"
  using assms
proof (induction rule: threads_reachable.induct)
  case empty
  then show ?case by (simp add: threads_ok_def)
next
  case (next_thread_step s s')
  from next_thread_step.hyps(2) show ?case
  proof (cases rule: thread_step.cases)
    case run
    then show ?thesis using run_thread_ok next_thread_step.IH by blast
  next
    case (job x obj m a r)
    then show ?thesis
      by (intro spawn_ok [OF next_thread_step.IH job(1), of "Queued x" s' "Wrapper obj m a"])
        (auto simp: add_obj_job_def ask_def)
  next
    case (thread0 x px obj detach m th)
    then show ?thesis
      by (intro spawn_ok [OF next_thread_step.IH thread0(1), of "Starting x" s' "XXX0 obj m"])
        (auto simp: method_thread_0_def method_thread_parent_def ask_def Let_def split: if_splits)
  next
    case (thread1 x px obj detach m a th)
    then show ?thesis
      by (intro spawn_ok [OF next_thread_step.IH thread1(1), of "Starting x" s' "XXX1 obj m a"])
        (auto simp: method_thread_1_def method_thread_parent_def ask_def Let_def split: if_splits)
  next
    case (thread2 x px obj detach m a1 a2 th)
    then show ?thesis
      by (intro spawn_ok [OF next_thread_step.IH thread2(1), of "Starting x" s' "XXX2 obj m a1 a2"])
        (auto simp: method_thread_2_def method_thread_parent_def ask_def Let_def split: if_splits)
  next
    case (thread3 x px obj detach m a1 a2 a3 th)
    then show ?thesis
      by (intro spawn_ok [OF next_thread_step.IH thread3(1), of "Starting x" s' "XXX3 obj m a1 a2 a3"])
        (auto simp: method_thread_3_def method_thread_parent_def ask_def Let_def split: if_splits)
  qed
qed

text \<open>
  C24. The hand-over to a thread or a job is safe in every interleaving: when thread or
  job i runs, the structure it reads is there, it makes the call it was made for, and
  once all have run no structure is left.  The exception is a job the queue refuses:
  its wrapper stays on the heap and no job owns it.
\<close>

theorem threads_handoff:
  assumes "threads_reachable s" "i < length (threads s)" "px_cancelstate px = 0" "px_canceltype px = 0"
  shows "(\<exists>s'. run_thread px i s = Inr s' \<and> threads s' ! i = Called (asked s ! i) \<and> threads_reachable s') \<and>
    ((\<forall>t\<in>set (threads s). owns t = None) \<longrightarrow> heap s = Map.empty) \<and>
    (heap s x = None \<longrightarrow>
      (\<exists>s'. add_obj_job False x obj m a s = (False, s') \<and> heap s' x \<noteq> None \<and>
        (\<forall>t\<in>set (threads s'). owns t \<noteq> Some x)))"
proof (intro conjI impI)
  have ok: "threads_ok s" by (rule threads_reachable_ok [OF assms(1)])
  have r: "right_call (heap s) (threads s ! j) (asked s ! j)" if "j < length (threads s)" for j
    using ok that by (simp add: threads_ok_def)
  have child: "method_thread_child px = Inr ()" using assms(3,4) by (simp add: method_thread_child_def)
  have "\<exists>s'. run_thread px i s = Inr s' \<and> threads s' ! i = Called (asked s ! i)"
  proof (cases "owns (threads s ! i)")
    case None
    then show ?thesis using r [OF assms(2)] by (cases "threads s ! i") auto
  next
    case (Some y)
    then obtain d where "heap s y = Some d" "call_of d = asked s ! i"
      using right_call_owns [OF r [OF assms(2)]] by blast
    then show ?thesis
      using Some assms(2) by (cases "threads s ! i") (auto simp: yyy_def func_def child)
  qed
  then show "\<exists>s'. run_thread px i s = Inr s' \<and> threads s' ! i = Called (asked s ! i) \<and> threads_reachable s'"
    using next_thread_step [OF assms(1) run [OF assms(2)]] by blast
  show "heap s = Map.empty" if "\<forall>t\<in>set (threads s). owns t = None"
    using ok that by (fastforce simp: threads_ok_def)
  show "\<exists>s'. add_obj_job False x obj m a s = (False, s') \<and> heap s' x \<noteq> None \<and>
      (\<forall>t\<in>set (threads s'). owns t \<noteq> Some x)" if x: "heap s x = None"
  proof -
    have "owns t \<noteq> Some x" if t: "t \<in> set (threads s)" for t
    proof -
      obtain j where "j < length (threads s)" "t = threads s ! j"
        using t by (auto simp: in_set_conv_nth)
      then show ?thesis using right_call_owns [OF r] x by fastforce
    qed
    then show ?thesis by (simp add: add_obj_job_def)
  qed
qed

definition demo_posix :: posix where
  "demo_posix = \<lparr>px_create = 0, px_detach = 0, px_cancelstate = 0, px_canceltype = 0\<rparr>"

definition demo_process :: "(nat, nat, nat) process" where
  "demo_process = \<lparr>heap = [5 \<mapsto> XXX1 1 2 3], threads = [Starting 5], asked = [MethodCall 1 2 [3]]\<rparr>"

theorem threads_handoff_witness:
  "threads_reachable demo_process \<and>
   (\<exists>s'. run_thread demo_posix 0 demo_process = Inr s' \<and> threads s' ! 0 = Called (MethodCall 1 2 [3]))"
proof -
  have "method_thread_1 demo_posix 5 1 True 2 3 \<lparr>heap = Map.empty, threads = [], asked = []\<rparr> =
      Inr (0, demo_process)"
    by (simp add: method_thread_1_def method_thread_parent_def ask_def demo_posix_def demo_process_def)
  from next_thread_step [OF empty thread1 [OF _ this]] have "threads_reachable demo_process" by simp
  with threads_handoff [OF this, of 0 demo_posix] show ?thesis
    by (simp add: demo_posix_def demo_process_def del: run_thread.simps) blast
qed

end
