(* ===== verification/Marshall.thy ===== *)
theory Marshall
  imports Prelude
begin

text \<open>
  The message buffers of src/rpc/marshall.h: headers, the content behind the
  header, and the operators for vectors and maps.  The operators for bytes,
  integers and strings are declared there and implemented in the binary
  librpc.a; they are arguments of the definitions below, and the locale \<open>codec\<close>
  says what they promise: writing appends an encoding at the head position,
  reading takes that encoding off again.

  An object that \<open>operator>>\<close> fills is passed by reference, so a reader takes the
  value of the variable before the call and returns the one after it.  Sizes and
  positions are of type \<open>int\<close> in the code and natural numbers here; \<open>INT_MAX\<close>
  bounds them wherever a message is built.
\<close>

section \<open>Headers\<close>

record req_header =
  rq_xid :: u32
  rq_proc :: u32
  rq_clt_nonce :: u32
  rq_srv_nonce :: u32
  rq_xid_rep :: u32

record reply_header =
  rp_xid :: u32
  rp_ret :: u32

text \<open>\<open>static_max\<close> of src/lang/algorithm.h and the layout of a message.  The
  argument \<open>ck\<close> is the build option \<open>RPC_CHECKSUMMING\<close>.\<close>

definition static_max :: "nat \<Rightarrow> nat \<Rightarrow> nat" where
  "static_max a b = (if a > b then a else b)"

definition INT_MAX :: nat where "INT_MAX = 2147483647"
definition DEFAULT_RPC_SZ :: nat where "DEFAULT_RPC_SZ = 1024"

definition sizeof_req_header :: nat where "sizeof_req_header = 5 * 4"
definition sizeof_reply_header :: nat where "sizeof_reply_header = 2 * 4"
definition sizeof_rpc_sz :: nat where "sizeof_rpc_sz = 4"
definition sizeof_rpc_checksum :: nat where "sizeof_rpc_checksum = 8"

definition RPC_HEADER_SZ :: "bool \<Rightarrow> nat" where
  "RPC_HEADER_SZ ck =
     (if ck then static_max sizeof_req_header sizeof_reply_header + sizeof_rpc_sz + sizeof_rpc_checksum
      else static_max sizeof_req_header sizeof_reply_header + sizeof_rpc_sz)"

text \<open>Where the fields of a header start: behind the size of the message and the checksum.\<close>

definition header_start :: "bool \<Rightarrow> nat" where
  "header_start ck = sizeof_rpc_sz + (if ck then sizeof_rpc_checksum else 0)"

lemma header_layout:
  "RPC_HEADER_SZ False = 24" "RPC_HEADER_SZ True = 32"
  "header_start False = 4" "header_start True = 12"
  "header_start ck + sizeof_req_header = RPC_HEADER_SZ ck"
  "header_start ck + sizeof_reply_header \<le> RPC_HEADER_SZ ck"
  "RPC_HEADER_SZ ck \<le> DEFAULT_RPC_SZ"
  by (simp_all add: RPC_HEADER_SZ_def header_start_def static_max_def sizeof_req_header_def
      sizeof_reply_header_def sizeof_rpc_sz_def sizeof_rpc_checksum_def DEFAULT_RPC_SZ_def)

section \<open>The buffers\<close>

text \<open>The capacity \<open>_capa\<close> is the length of the buffer.\<close>

record marshall =
  m_buf :: "byte list"
  m_ind :: nat

record unmarshall =
  u_buf :: "byte list"
  u_sz :: nat
  u_ind :: nat
  u_ok :: bool

text \<open>The memory a constructor gets from \<open>malloc\<close> is an argument.\<close>

definition marshall_new :: "bool \<Rightarrow> (nat \<Rightarrow> byte) \<Rightarrow> marshall" where
  "marshall_new ck mem = \<lparr>m_buf = map mem [0..<DEFAULT_RPC_SZ], m_ind = RPC_HEADER_SZ ck\<rparr>"

definition get_content :: "bool \<Rightarrow> marshall \<Rightarrow> byte list" where
  "get_content ck m = take (m_ind m - RPC_HEADER_SZ ck) (drop (RPC_HEADER_SZ ck) (m_buf m))"

definition take_buf :: "marshall \<Rightarrow> (byte list \<times> nat) \<times> marshall" where
  "take_buf m = ((m_buf m, m_ind m), \<lparr>m_buf = [], m_ind = 0\<rparr>)"

definition unmarshall_new :: unmarshall where
  "unmarshall_new = \<lparr>u_buf = [], u_sz = 0, u_ind = 0, u_ok = False\<rparr>"

definition unmarshall_buf :: "byte list \<Rightarrow> nat \<Rightarrow> unmarshall" where
  "unmarshall_buf b sz = \<lparr>u_buf = b, u_sz = sz, u_ind = 0, u_ok = True\<rparr>"

text \<open>
  The size is computed as an \<open>int\<close>: beyond \<open>INT_MAX\<close> the allocation of a negative
  size fails the \<open>VERIFY\<close>, and a size that wraps around to a small one makes the
  copy overflow the buffer.
\<close>

definition take_content :: "bool \<Rightarrow> (nat \<Rightarrow> byte) \<Rightarrow> unmarshall \<Rightarrow> byte list \<Rightarrow> unmarshall result" where
  "take_content ck mem u s =
     (let sz = sint (word_of_nat (length s + RPC_HEADER_SZ ck) :: u32);
          head = map (\<lambda>i. if i < length (u_buf u) then u_buf u ! i else mem i) [0..<RPC_HEADER_SZ ck]
      in if sz < 0 then Inl VerifyFailed
         else if sz < int (length s + RPC_HEADER_SZ ck) then Inl HeapOverflow
         else Inr \<lparr>u_buf = head @ s, u_sz = nat sz, u_ind = RPC_HEADER_SZ ck, u_ok = True\<rparr>)"

definition unmarshall_content :: "bool \<Rightarrow> (nat \<Rightarrow> byte) \<Rightarrow> byte list \<Rightarrow> unmarshall result" where
  "unmarshall_content ck mem s = take_content ck mem unmarshall_new s"

definition unmarshall_take_buf :: "unmarshall \<Rightarrow> (byte list \<times> nat) \<times> unmarshall" where
  "unmarshall_take_buf u = ((u_buf u, u_sz u), u\<lparr>u_buf := [], u_sz := 0, u_ind := 0\<rparr>)"

section \<open>Packing and unpacking the headers\<close>

text \<open>The head is moved into the header and back.\<close>

definition pack_req_header ::
    "bool \<Rightarrow> (marshall \<Rightarrow> u32 \<Rightarrow> marshall) \<Rightarrow> marshall \<Rightarrow> req_header \<Rightarrow> marshall" where
  "pack_req_header ck pack m h =
     (let saved_sz = m_ind m;
          m = m\<lparr>m_ind := sizeof_rpc_sz\<rparr>;
          m = (if ck then m\<lparr>m_ind := m_ind m + sizeof_rpc_checksum\<rparr> else m);
          m = pack m (rq_xid h);
          m = pack m (rq_proc h);
          m = pack m (rq_clt_nonce h);
          m = pack m (rq_srv_nonce h);
          m = pack m (rq_xid_rep h)
      in m\<lparr>m_ind := saved_sz\<rparr>)"

definition pack_reply_header ::
    "bool \<Rightarrow> (marshall \<Rightarrow> u32 \<Rightarrow> marshall) \<Rightarrow> marshall \<Rightarrow> reply_header \<Rightarrow> marshall" where
  "pack_reply_header ck pack m h =
     (let saved_sz = m_ind m;
          m = m\<lparr>m_ind := sizeof_rpc_sz\<rparr>;
          m = (if ck then m\<lparr>m_ind := m_ind m + sizeof_rpc_checksum\<rparr> else m);
          m = pack m (rp_xid h);
          m = pack m (rp_ret h)
      in m\<lparr>m_ind := saved_sz\<rparr>)"

definition unpack_req_header ::
    "bool \<Rightarrow> (unmarshall \<Rightarrow> u32 \<Rightarrow> u32 \<times> unmarshall) \<Rightarrow> unmarshall \<Rightarrow> req_header \<Rightarrow>
     req_header \<times> unmarshall" where
  "unpack_req_header ck unpack u h =
     (let u = u\<lparr>u_ind := sizeof_rpc_sz\<rparr>;
          u = (if ck then u\<lparr>u_ind := u_ind u + sizeof_rpc_checksum\<rparr> else u);
          (xid, u) = unpack u (rq_xid h);
          (proc, u) = unpack u (rq_proc h);
          (clt, u) = unpack u (rq_clt_nonce h);
          (srv, u) = unpack u (rq_srv_nonce h);
          (rep, u) = unpack u (rq_xid_rep h)
      in (\<lparr>rq_xid = xid, rq_proc = proc, rq_clt_nonce = clt, rq_srv_nonce = srv, rq_xid_rep = rep\<rparr>,
          u\<lparr>u_ind := RPC_HEADER_SZ ck\<rparr>))"

definition unpack_reply_header ::
    "bool \<Rightarrow> (unmarshall \<Rightarrow> u32 \<Rightarrow> u32 \<times> unmarshall) \<Rightarrow> unmarshall \<Rightarrow> reply_header \<Rightarrow>
     reply_header \<times> unmarshall" where
  "unpack_reply_header ck unpack u h =
     (let u = u\<lparr>u_ind := sizeof_rpc_sz\<rparr>;
          u = (if ck then u\<lparr>u_ind := u_ind u + sizeof_rpc_checksum\<rparr> else u);
          (xid, u) = unpack u (rp_xid h);
          (ret, u) = unpack u (rp_ret h)
      in (\<lparr>rp_xid = xid, rp_ret = ret\<rparr>, u\<lparr>u_ind := RPC_HEADER_SZ ck\<rparr>))"

section \<open>Vectors and maps\<close>

definition put_vector ::
    "(marshall \<Rightarrow> u32 \<Rightarrow> marshall) \<Rightarrow> (marshall \<Rightarrow> 'c \<Rightarrow> marshall) \<Rightarrow> marshall \<Rightarrow> 'c list \<Rightarrow> marshall" where
  "put_vector put_u32 put m v = foldl put (put_u32 m (word_of_nat (length v))) v"

text \<open>\<open>z i\<close> is the value of the element variable before it is read in round \<open>i\<close>.\<close>

fun get_elems ::
    "(unmarshall \<Rightarrow> 'c \<Rightarrow> 'c \<times> unmarshall) \<Rightarrow> (nat \<Rightarrow> 'c) \<Rightarrow> nat \<Rightarrow> nat \<Rightarrow> unmarshall \<Rightarrow> 'c list \<Rightarrow>
     'c list \<times> unmarshall" where
  "get_elems get z i 0 u v = (v, u)"
| "get_elems get z i (Suc n) u v =
     (case get u (z i) of (x, u) \<Rightarrow> get_elems get z (Suc i) n u (v @ [x]))"

definition get_vector ::
    "(unmarshall \<Rightarrow> u32 \<Rightarrow> u32 \<times> unmarshall) \<Rightarrow> u32 \<Rightarrow>
     (unmarshall \<Rightarrow> 'c \<Rightarrow> 'c \<times> unmarshall) \<Rightarrow> (nat \<Rightarrow> 'c) \<Rightarrow> unmarshall \<Rightarrow> 'c list \<Rightarrow>
     'c list \<times> unmarshall" where
  "get_vector get_u32 n0 get z u v =
     (case get_u32 u n0 of (n, u) \<Rightarrow> get_elems get z 0 (unat n) u v)"

text \<open>A \<open>std::map\<close> is its list of pairs in the order of the keys.\<close>

type_synonym ('a, 'b) std_map = "('a \<times> 'b) list"

fun map_assign :: "'a::linorder \<Rightarrow> 'b \<Rightarrow> ('a, 'b) std_map \<Rightarrow> ('a, 'b) std_map" where
  "map_assign a b [] = [(a, b)]"
| "map_assign a b ((k, x) # d) =
     (if a < k then (a, b) # (k, x) # d
      else if a = k then (k, b) # d
      else (k, x) # map_assign a b d)"

definition put_map ::
    "(marshall \<Rightarrow> u32 \<Rightarrow> marshall) \<Rightarrow> (marshall \<Rightarrow> 'a \<Rightarrow> marshall) \<Rightarrow> (marshall \<Rightarrow> 'b \<Rightarrow> marshall) \<Rightarrow>
     marshall \<Rightarrow> ('a, 'b) std_map \<Rightarrow> marshall" where
  "put_map put_u32 put_a put_b m d =
     foldl (\<lambda>m (a, b). put_b (put_a m a) b) (put_u32 m (word_of_nat (length d))) d"

fun get_pairs ::
    "(unmarshall \<Rightarrow> 'a::linorder \<Rightarrow> 'a \<times> unmarshall) \<Rightarrow> (nat \<Rightarrow> 'a) \<Rightarrow>
     (unmarshall \<Rightarrow> 'b \<Rightarrow> 'b \<times> unmarshall) \<Rightarrow> (nat \<Rightarrow> 'b) \<Rightarrow> nat \<Rightarrow> nat \<Rightarrow>
     unmarshall \<Rightarrow> ('a, 'b) std_map \<Rightarrow> ('a, 'b) std_map \<times> unmarshall" where
  "get_pairs get_a za get_b zb i 0 u d = (d, u)"
| "get_pairs get_a za get_b zb i (Suc n) u d =
     (case get_a u (za i) of (a, u) \<Rightarrow>
      case get_b u (zb i) of (b, u) \<Rightarrow>
        get_pairs get_a za get_b zb (Suc i) n u (map_assign a b d))"

definition get_map ::
    "(unmarshall \<Rightarrow> u32 \<Rightarrow> u32 \<times> unmarshall) \<Rightarrow> u32 \<Rightarrow>
     (unmarshall \<Rightarrow> 'a::linorder \<Rightarrow> 'a \<times> unmarshall) \<Rightarrow> (nat \<Rightarrow> 'a) \<Rightarrow>
     (unmarshall \<Rightarrow> 'b \<Rightarrow> 'b \<times> unmarshall) \<Rightarrow> (nat \<Rightarrow> 'b) \<Rightarrow>
     unmarshall \<Rightarrow> ('a, 'b) std_map \<Rightarrow> ('a, 'b) std_map \<times> unmarshall" where
  "get_map get_u32 n0 get_a za get_b zb u d =
     (case get_u32 u n0 of (n, u) \<Rightarrow>
        (let d = [] in get_pairs get_a za get_b zb 0 (unat n) u d))"

end
