(* ===== verification/Codec.thy ===== *)
theory Codec
  imports Marshall
begin

text \<open>
  What a pair of \<open>operator<<\<close> and \<open>operator>>\<close> promises, and which of them keep
  the promise: the pairs of the RPC library are assumed to, the templates for
  vectors and maps of src/rpc/marshall.h and any sequence of two operators are
  shown to.
\<close>

named_theorems message "appending to and reading from a message"

section \<open>Appending and taking off\<close>

definition m_wf :: "bool \<Rightarrow> marshall \<Rightarrow> bool" where
  "m_wf ck m \<longleftrightarrow>
     RPC_HEADER_SZ ck \<le> m_ind m \<and> m_ind m \<le> length (m_buf m) \<and> m_ind m \<le> INT_MAX"

text \<open>The bytes at the head position are overwritten; the buffer may grow at its far side.\<close>

definition appended :: "byte list \<Rightarrow> marshall \<Rightarrow> marshall \<Rightarrow> bool" where
  "appended bs m m' \<longleftrightarrow>
     m_ind m' = m_ind m + length bs \<and>
     (\<exists>junk. m_buf m' = take (m_ind m) (m_buf m) @ bs @ drop (m_ind m + length bs) (m_buf m) @ junk)"

definition upcoming :: "byte list \<Rightarrow> unmarshall \<Rightarrow> bool" where
  "upcoming bs u \<longleftrightarrow>
     u_ok u \<and> u_sz u \<le> length (u_buf u) \<and> u_ind u + length bs \<le> u_sz u \<and>
     take (length bs) (drop (u_ind u) (u_buf u)) = bs"

definition skip :: "nat \<Rightarrow> unmarshall \<Rightarrow> unmarshall" where
  "skip n u = u\<lparr>u_ind := u_ind u + n\<rparr>"

lemma skip_simps [simp]:
  "u_buf (skip n u) = u_buf u" "u_sz (skip n u) = u_sz u" "u_ind (skip n u) = u_ind u + n"
  "u_ok (skip n u) = u_ok u" "skip 0 u = u" "skip m (skip n u) = skip (n + m) u"
  by (simp_all add: skip_def)

lemma appended_ind: "appended bs m m' \<Longrightarrow> m_ind m' = m_ind m + length bs"
  by (simp add: appended_def)

lemma appended_room:
  "appended bs m m' \<Longrightarrow> m_ind m \<le> length (m_buf m) \<Longrightarrow> m_ind m' \<le> length (m_buf m')"
  by (auto simp: appended_def)

lemma appended_Nil [simp]: "appended [] m m"
  by (auto simp: appended_def intro: exI [of _ "[]"])

lemma appended_append:
  assumes "appended a m m1" "appended b m1 m2" "m_ind m \<le> length (m_buf m)"
  shows "appended (a @ b) m m2"
proof -
  let ?i = "m_ind m" and ?l = "m_buf m"
  obtain j1 where 1: "m_ind m1 = ?i + length a"
      "m_buf m1 = take ?i ?l @ a @ drop (?i + length a) ?l @ j1"
    using assms(1) by (auto simp: appended_def)
  obtain j2 where 2: "m_ind m2 = m_ind m1 + length b"
      "m_buf m2 = take (m_ind m1) (m_buf m1) @ b @ drop (m_ind m1 + length b) (m_buf m1) @ j2"
    using assms(2) by (auto simp: appended_def)
  have "take (?i + length a) (m_buf m1) = take ?i ?l @ a"
    using assms(3) by (simp add: 1(2))
  moreover have "drop (?i + length a + length b) (m_buf m1) =
      drop (?i + length (a @ b)) ?l @ drop (length b - (length ?l - (?i + length a))) j1"
    using assms(3) by (simp add: 1(2) ac_simps)
  ultimately show ?thesis
    by (auto simp: appended_def 1(1) 2)
qed

lemma appended_content:
  assumes "appended bs m m'" "m_wf ck m"
  shows "get_content ck m' = get_content ck m @ bs"
proof -
  from assms have "take (m_ind m') (m_buf m') = take (m_ind m) (m_buf m) @ bs"
    by (auto simp: appended_def m_wf_def)
  moreover have "get_content ck n = drop (RPC_HEADER_SZ ck) (take (m_ind n) (m_buf n))" for n
    by (simp add: get_content_def drop_take)
  ultimately show ?thesis using assms(2) by (simp add: m_wf_def)
qed

lemma appended_wf:
  assumes "appended bs m m'" "m_wf ck m" "m_ind m + length bs \<le> INT_MAX"
  shows "m_wf ck m'"
  using assms appended_room [OF assms(1)] appended_ind [OF assms(1)] by (simp add: m_wf_def)

lemma upcoming_append [message]:
  "upcoming (a @ b) u \<longleftrightarrow> upcoming a u \<and> upcoming b (skip (length a) u)"
  by (auto simp: upcoming_def take_add add.commute [of "u_ind u"] add.assoc append_eq_append_conv_if
      min_def split: if_splits)

section \<open>The contract\<close>

locale codec =
  fixes valid :: "'c \<Rightarrow> bool"
    and enc :: "'c \<Rightarrow> byte list"
    and put :: "marshall \<Rightarrow> 'c \<Rightarrow> marshall"
    and get :: "unmarshall \<Rightarrow> 'c \<Rightarrow> 'c \<times> unmarshall"
    and z :: 'c
  assumes put_law: "valid v \<Longrightarrow> m_ind m \<le> length (m_buf m) \<Longrightarrow>
      m_ind m + length (enc v) \<le> INT_MAX \<Longrightarrow> appended (enc v) m (put m v)"
    and get_law: "valid v \<Longrightarrow> upcoming (enc v) u \<Longrightarrow> get u z = (v, skip (length (enc v)) u)"
begin

lemma put_content:
  assumes "valid v" "m_wf ck m" "m_ind m + length (enc v) \<le> INT_MAX"
  shows "m_wf ck (put m v)" "get_content ck (put m v) = get_content ck m @ enc v"
    "m_ind (put m v) = m_ind m + length (enc v)"
proof -
  have "appended (enc v) m (put m v)"
    using assms by (intro put_law) (simp_all add: m_wf_def)
  then show "m_wf ck (put m v)" "get_content ck (put m v) = get_content ck m @ enc v"
    "m_ind (put m v) = m_ind m + length (enc v)"
    using assms appended_wf appended_content appended_ind by blast+
qed

end

text \<open>Two operators in sequence.\<close>

definition put_pair ::
    "(marshall \<Rightarrow> 'a \<Rightarrow> marshall) \<Rightarrow> (marshall \<Rightarrow> 'b \<Rightarrow> marshall) \<Rightarrow> marshall \<Rightarrow> 'a \<times> 'b \<Rightarrow> marshall" where
  "put_pair p q m v = q (p m (fst v)) (snd v)"

definition get_pair ::
    "(unmarshall \<Rightarrow> 'a \<Rightarrow> 'a \<times> unmarshall) \<Rightarrow> (unmarshall \<Rightarrow> 'b \<Rightarrow> 'b \<times> unmarshall) \<Rightarrow>
     unmarshall \<Rightarrow> 'a \<times> 'b \<Rightarrow> ('a \<times> 'b) \<times> unmarshall" where
  "get_pair f g u z =
     (case f u (fst z) of (a, u) \<Rightarrow> case g u (snd z) of (b, u) \<Rightarrow> ((a, b), u))"

lemma codec_pair [intro]:
  assumes a: "codec va ea pa ga za" and b: "codec vb eb pb gb zb"
  shows "codec (\<lambda>v. va (fst v) \<and> vb (snd v)) (\<lambda>v. ea (fst v) @ eb (snd v))
    (put_pair pa pb) (get_pair ga gb) (za, zb)"
proof
  fix v and m :: marshall
  assume v: "va (fst v) \<and> vb (snd v)" and room: "m_ind m \<le> length (m_buf m)"
    and len: "m_ind m + length (ea (fst v) @ eb (snd v)) \<le> INT_MAX"
  have 1: "appended (ea (fst v)) m (pa m (fst v))"
    using v room len by (intro codec.put_law [OF a]) simp_all
  have "appended (eb (snd v)) (pa m (fst v)) (pb (pa m (fst v)) (snd v))"
    using v len appended_room [OF 1 room] by (intro codec.put_law [OF b]) (simp_all add: appended_ind [OF 1])
  from appended_append [OF 1 this room]
  show "appended (ea (fst v) @ eb (snd v)) m (put_pair pa pb m v)"
    by (simp add: put_pair_def)
next
  fix v u
  assume "va (fst v) \<and> vb (snd v)" "upcoming (ea (fst v) @ eb (snd v)) u"
  then show "get_pair ga gb u (za, zb) = (v, skip (length (ea (fst v) @ eb (snd v))) u)"
    using codec.get_law [OF a, of "fst v" u] codec.get_law [OF b, of "snd v"]
    by (simp add: get_pair_def message)
qed

section \<open>Vectors\<close>

definition enc_vector :: "(u32 \<Rightarrow> byte list) \<Rightarrow> ('c \<Rightarrow> byte list) \<Rightarrow> 'c list \<Rightarrow> byte list" where
  "enc_vector e4 e v = e4 (word_of_nat (length v)) @ concat (map e v)"

definition vector_ok :: "('c \<Rightarrow> bool) \<Rightarrow> 'c list \<Rightarrow> bool" where
  "vector_ok valid v \<longleftrightarrow> length v < 2 ^ 32 \<and> (\<forall>x\<in>set v. valid x)"

lemma put_elems:
  assumes "\<And>v m. valid v \<Longrightarrow> m_ind m \<le> length (m_buf m) \<Longrightarrow> m_ind m + length (e v) \<le> INT_MAX \<Longrightarrow>
      appended (e v) m (put m v)"
    and "\<forall>x\<in>set v. valid x" "m_ind m \<le> length (m_buf m)"
    and "m_ind m + length (concat (map e v)) \<le> INT_MAX"
  shows "appended (concat (map e v)) m (foldl put m v)"
  using assms(2-4)
proof (induction v arbitrary: m)
  case (Cons x v)
  have 1: "appended (e x) m (put m x)" using Cons.prems by (intro assms(1)) simp_all
  have "appended (concat (map e v)) (put m x) (foldl put (put m x) v)"
    using Cons.prems appended_room [OF 1] by (intro Cons.IH) (simp_all add: appended_ind [OF 1])
  from appended_append [OF 1 this] Cons.prems show ?case by simp
qed simp

lemma get_elems_concat:
  assumes "\<And>x u i. valid x \<Longrightarrow> upcoming (e x) u \<Longrightarrow> get u (z i) = (x, skip (length (e x)) u)"
    and "\<forall>x\<in>set v. valid x" "upcoming (concat (map e v)) u"
  shows "get_elems get z i (length v) u w = (w @ v, skip (length (concat (map e v))) u)"
  using assms(2,3)
proof (induction v arbitrary: i u w)
  case (Cons x v)
  then have "get u (z i) = (x, skip (length (e x)) u)"
    by (intro assms(1)) (simp_all add: message)
  with Cons show ?case by (simp add: message)
qed simp

lemma codec_vector [intro]:
  assumes n: "codec (\<lambda>_. True) e4 put4 get4 n0" and c: "\<And>i. codec valid e put get (z i)"
  shows "codec (vector_ok valid) (enc_vector e4 e) (put_vector put4 put) (get_vector get4 n0 get z) []"
proof
  fix v and m :: marshall
  assume v: "vector_ok valid v" and room: "m_ind m \<le> length (m_buf m)"
    and len: "m_ind m + length (enc_vector e4 e v) \<le> INT_MAX"
  let ?n = "word_of_nat (length v) :: u32"
  have 1: "appended (e4 ?n) m (put4 m ?n)"
    using room len by (intro codec.put_law [OF n]) (simp_all add: enc_vector_def)
  have "appended (concat (map e v)) (put4 m ?n) (foldl put (put4 m ?n) v)"
    using v len appended_room [OF 1 room]
    by (intro put_elems [of valid e put, OF codec.put_law [OF c]])
      (simp_all add: appended_ind [OF 1] vector_ok_def enc_vector_def)
  from appended_append [OF 1 this room]
  show "appended (enc_vector e4 e v) m (put_vector put4 put m v)"
    by (simp add: put_vector_def enc_vector_def)
next
  fix v u
  assume v: "vector_ok valid v" and u: "upcoming (enc_vector e4 e v) u"
  then have "unat (word_of_nat (length v) :: u32) = length v"
    by (simp add: vector_ok_def unat_u32_of_nat)
  with v u show "get_vector get4 n0 get z u [] = (v, skip (length (enc_vector e4 e v)) u)"
    using codec.get_law [OF n, of "word_of_nat (length v)" u]
      get_elems_concat [of valid e get z v, OF codec.get_law [OF c]]
    by (simp add: get_vector_def enc_vector_def message vector_ok_def)
qed

section \<open>Maps\<close>

definition map_ok :: "('a::linorder \<Rightarrow> bool) \<Rightarrow> ('b \<Rightarrow> bool) \<Rightarrow> ('a, 'b) std_map \<Rightarrow> bool" where
  "map_ok va vb d \<longleftrightarrow>
     sorted_wrt (<) (map fst d) \<and> length d < 2 ^ 32 \<and> (\<forall>x\<in>set d. va (fst x) \<and> vb (snd x))"

lemma map_assign_last:
  "\<forall>k\<in>fst ` set d. k < a \<Longrightarrow> map_assign a b d = d @ [(a, b)]"
  by (induction d) (auto dest: less_imp_not_less)

lemma map_assign_sorted:
  "sorted_wrt (<) (map fst d) \<Longrightarrow> sorted_wrt (<) (map fst (map_assign a b d))"
proof (induction d)
  case (Cons p d)
  have "set (map fst (map_assign a b d)) = insert a (set (map fst d))"
    by (induction d rule: map_assign.induct [of _ a b]) auto
  with Cons show ?case by (cases p) auto
qed simp

lemma map_assign_lookup:
  "sorted_wrt (<) (map fst d) \<Longrightarrow> map_of (map_assign a b d) = (map_of d)(a \<mapsto> b)"
  by (induction d) (auto simp: fun_eq_iff)

lemma get_pairs_concat:
  assumes "\<And>x u i. va x \<Longrightarrow> upcoming (ea x) u \<Longrightarrow> ga u (za i) = (x, skip (length (ea x)) u)"
    and "\<And>x u i. vb x \<Longrightarrow> upcoming (eb x) u \<Longrightarrow> gb u (zb i) = (x, skip (length (eb x)) u)"
    and "\<forall>x\<in>set d. va (fst x) \<and> vb (snd x)" "sorted_wrt (<) (map fst (w @ d))"
    and "upcoming (concat (map (\<lambda>x. ea (fst x) @ eb (snd x)) d)) u"
  shows "get_pairs ga za gb zb i (length d) u w =
    (w @ d, skip (length (concat (map (\<lambda>x. ea (fst x) @ eb (snd x)) d))) u)"
  using assms(3-5)
proof (induction d arbitrary: i u w)
  case (Cons x d)
  have "map_assign (fst x) (snd x) w = w @ [x]"
    using Cons.prems(2) by (subst map_assign_last) (auto simp: sorted_wrt_append)
  moreover have "sorted_wrt (<) (map fst ((w @ [x]) @ d))" using Cons.prems(2) by simp
  moreover have "ga u (za i) = (fst x, skip (length (ea (fst x))) u)"
    using Cons.prems(1,3) by (intro assms(1)) (simp_all add: message)
  moreover have "gb (skip (length (ea (fst x))) u) (zb i) =
      (snd x, skip (length (ea (fst x)) + length (eb (snd x))) u)"
    using Cons.prems(1,3) assms(2) [of "snd x" "skip (length (ea (fst x))) u" i]
    by (simp add: message)
  ultimately show ?case
    using Cons.prems(1,3) Cons.IH [of "w @ [x]"] by (simp add: message add.assoc)
qed simp

lemma codec_map [intro]:
  assumes n: "codec (\<lambda>_. True) e4 put4 get4 n0"
    and a: "\<And>i. codec va ea pa ga (za i)" and b: "\<And>i. codec vb eb pb gb (zb i)"
  shows "codec (map_ok va vb) (enc_vector e4 (\<lambda>x. ea (fst x) @ eb (snd x)))
    (put_map put4 pa pb) (get_map get4 n0 ga za gb zb) d0"
proof
  have p: "codec (\<lambda>v. va (fst v) \<and> vb (snd v)) (\<lambda>v. ea (fst v) @ eb (snd v))
      (put_pair pa pb) (get_pair ga gb) (za i, zb i)" for i
    by (rule codec_pair [OF a b])
  have v: "codec (vector_ok (\<lambda>v. va (fst v) \<and> vb (snd v))) (enc_vector e4 (\<lambda>v. ea (fst v) @ eb (snd v)))
      (put_vector put4 (put_pair pa pb)) (get_vector get4 n0 (get_pair ga gb) (\<lambda>i. (za i, zb i))) []"
    by (rule codec_vector [OF n p])
  fix d and m :: marshall
  assume "map_ok va vb d" "m_ind m \<le> length (m_buf m)"
    "m_ind m + length (enc_vector e4 (\<lambda>x. ea (fst x) @ eb (snd x)) d) \<le> INT_MAX"
  moreover have "put_map put4 pa pb m d = put_vector put4 (put_pair pa pb) m d"
    by (simp add: put_map_def put_vector_def put_pair_def [abs_def] case_prod_beta')
  ultimately show "appended (enc_vector e4 (\<lambda>x. ea (fst x) @ eb (snd x)) d) m (put_map put4 pa pb m d)"
    using codec.put_law [OF v] by (simp add: map_ok_def vector_ok_def)
next
  fix d u
  assume d: "map_ok va vb d" and u: "upcoming (enc_vector e4 (\<lambda>x. ea (fst x) @ eb (snd x)) d) u"
  have "unat (word_of_nat (length d) :: u32) = length d"
    using d by (simp add: map_ok_def unat_u32_of_nat)
  with d u show "get_map get4 n0 ga za gb zb u d0 =
      (d, skip (length (enc_vector e4 (\<lambda>x. ea (fst x) @ eb (snd x)) d)) u)"
    using codec.get_law [OF n, of "word_of_nat (length d)" u]
      get_pairs_concat [of va ea ga za vb eb gb zb d "[]", OF codec.get_law [OF a] codec.get_law [OF b]]
    by (simp add: get_map_def enc_vector_def message map_ok_def)
qed

section \<open>An instance\<close>

text \<open>
  A plain byte codec, as an instance of the library's operators: it shows that the
  contract can be met, and the vectors and maps of the code meet it over this
  instance.
\<close>

definition put_bytes :: "('c \<Rightarrow> byte list) \<Rightarrow> marshall \<Rightarrow> 'c \<Rightarrow> marshall" where
  "put_bytes enc m v =
     \<lparr>m_buf = take (m_ind m) (m_buf m) @ enc v @ drop (m_ind m + length (enc v)) (m_buf m),
      m_ind = m_ind m + length (enc v)\<rparr>"

definition get_bytes ::
    "(byte list \<Rightarrow> ('c \<times> nat) option) \<Rightarrow> unmarshall \<Rightarrow> 'c \<Rightarrow> 'c \<times> unmarshall" where
  "get_bytes dec u z =
     (if \<not> u_ok u then (z, u)
      else case dec (take (u_sz u - u_ind u) (drop (u_ind u) (u_buf u))) of
             None \<Rightarrow> (z, u\<lparr>u_ok := False\<rparr>)
           | Some (v, n) \<Rightarrow> (v, skip n u))"

lemma codec_bytes:
  assumes "\<And>v rest. valid v \<Longrightarrow> dec (enc v @ rest) = Some (v, length (enc v))"
  shows "codec valid enc (put_bytes enc) (get_bytes dec) z"
proof
  fix v and m :: marshall
  show "appended (enc v) m (put_bytes enc m v)"
    by (auto simp: appended_def put_bytes_def intro: exI [of _ "[]"])
next
  fix v u
  assume v: "valid v" and u: "upcoming (enc v) u"
  let ?rest = "take (u_sz u - u_ind u) (drop (u_ind u) (u_buf u))"
  have "take (length (enc v)) ?rest = enc v"
    using u by (auto simp: upcoming_def min_def)
  then have "?rest = enc v @ drop (length (enc v)) ?rest"
    by (metis append_take_drop_id)
  then have "dec ?rest = Some (v, length (enc v))"
    using assms [OF v] by metis
  then show "get_bytes dec u z = (v, skip (length (enc v)) u)"
    using u by (simp add: get_bytes_def upcoming_def)
qed

definition dec_u32 :: "byte list \<Rightarrow> (u32 \<times> nat) option" where
  "dec_u32 bs = (if length bs < 4 then None else Some (bytes_u32 bs, 4))"

definition enc_u64 :: "u64 \<Rightarrow> byte list" where
  "enc_u64 w = u32_bytes (ucast w) @ u32_bytes (ucast (drop_bit 32 w))"

definition dec_u64 :: "byte list \<Rightarrow> (u64 \<times> nat) option" where
  "dec_u64 bs =
     (if length bs < 8 then None
      else Some (ucast (bytes_u32 bs) OR push_bit 32 (ucast (bytes_u32 (drop 4 bs))), 8))"

definition enc_string :: "byte list \<Rightarrow> byte list" where
  "enc_string s = u32_bytes (word_of_nat (length s)) @ s"

definition dec_string :: "byte list \<Rightarrow> (byte list \<times> nat) option" where
  "dec_string bs =
     (if length bs < 4 \<or> length bs < 4 + unat (bytes_u32 bs) then None
      else Some (take (unat (bytes_u32 bs)) (drop 4 bs), 4 + unat (bytes_u32 bs)))"

lemma codec_u32: "codec (\<lambda>_. True) u32_bytes (put_bytes u32_bytes) (get_bytes dec_u32) z"
  by (rule codec_bytes) (simp add: dec_u32_def)

lemma codec_u64: "codec (\<lambda>_. True) enc_u64 (put_bytes enc_u64) (get_bytes dec_u64) z"
proof (rule codec_bytes)
  fix v :: u64 and rest
  have "ucast (ucast v :: u32) OR push_bit 32 (ucast (ucast (drop_bit 32 v) :: u32)) = v"
    by (rule bit_word_eqI) (auto simp: bit_simps)
  then show "dec_u64 (enc_u64 v @ rest) = Some (v, length (enc_u64 v))"
    by (simp add: dec_u64_def enc_u64_def)
qed

lemma codec_string:
  "codec (\<lambda>s. length s < 2 ^ 32) enc_string (put_bytes enc_string) (get_bytes dec_string) z"
  by (rule codec_bytes) (simp add: dec_string_def enc_string_def unat_u32_of_nat)

interpretation vec: codec "vector_ok (\<lambda>_. True)" "enc_vector u32_bytes u32_bytes"
    "put_vector (put_bytes u32_bytes) (put_bytes u32_bytes)"
    "get_vector (get_bytes dec_u32) 0 (get_bytes dec_u32) (\<lambda>_. 0)" "[]"
  by (rule codec_vector [OF codec_u32 codec_u32])

interpretation str_map: codec "map_ok (\<lambda>_. True) (\<lambda>s. length s < 2 ^ 32)"
    "enc_vector u32_bytes (\<lambda>x. u32_bytes (fst x) @ enc_string (snd x))"
    "put_map (put_bytes u32_bytes) (put_bytes u32_bytes) (put_bytes enc_string)"
    "get_map (get_bytes dec_u32) 0 (get_bytes dec_u32) (\<lambda>_. 0) (get_bytes dec_string) (\<lambda>_. [])" "d0"
    for d0
  by (rule codec_map [OF codec_u32 codec_u32 codec_string])

end
