(* ===== verification/Rpc.thy ===== *)
theory Rpc
  imports Codec
begin

text \<open>
  The call stubs of the RPC client and the handler stubs of the RPC server, as the
  templates of src/rpc/rpc.h write them out for every number of arguments.  The
  transport behind them (\<open>rpcc::call1\<close>, the dispatch loop of the server,
  \<open>unmarshall::okdone\<close>) is in the binary librpc.a; it is the record \<open>rpc_lib\<close>,
  and \<open>at_most_once\<close> says what it promises.
\<close>

section \<open>Return codes\<close>

definition timeout_failure :: int where "timeout_failure = -1"
definition unmarshal_args_failure :: int where "unmarshal_args_failure = -2"
definition unmarshal_reply_failure :: int where "unmarshal_reply_failure = -3"
definition atmostonce_failure :: int where "atmostonce_failure = -4"
definition oldsrv_failure :: int where "oldsrv_failure = -5"
definition bind_failure :: int where "bind_failure = -6"
definition cancel_failure :: int where "cancel_failure = -7"

section \<open>The library\<close>

text \<open>
  \<open>'w\<close> is the state the methods of the server work on.  A handler reads its
  arguments from one buffer and writes its reply to another.
\<close>

type_synonym 'w handler =
  "'w \<Rightarrow> unmarshall \<Rightarrow> marshall \<Rightarrow> (int \<times> unmarshall \<times> marshall \<times> 'w) result"

type_synonym 'c put = "marshall \<Rightarrow> 'c \<Rightarrow> marshall"
type_synonym 'c get = "unmarshall \<Rightarrow> 'c \<Rightarrow> 'c \<times> unmarshall"

record 'w rpc_lib =
  lib_ck :: bool
  lib_mem :: "nat \<Rightarrow> byte"
  lib_okdone :: "unmarshall \<Rightarrow> bool"
  lib_call1 :: "'w \<Rightarrow> u32 \<Rightarrow> marshall \<Rightarrow> unmarshall \<Rightarrow> int \<Rightarrow> int \<times> unmarshall \<times> 'w"

section \<open>The client: \<open>rpcc::call_m\<close> and \<open>rpcc::call\<close>\<close>

definition call_m ::
    "'w rpc_lib \<Rightarrow> 'r get \<Rightarrow> 'w \<Rightarrow> u32 \<Rightarrow> marshall \<Rightarrow> 'r \<Rightarrow> int \<Rightarrow> (int \<times> 'r \<times> 'w) result" where
  "call_m L get_r w proc req r tmo =
     (let u = unmarshall_new;
          (intret, u, w) = lib_call1 L w proc req u tmo
      in if intret < 0 then Inr (intret, r, w)
         else let (r, u) = get_r u r
              in if lib_okdone L u \<noteq> True then Inl VerifyFailed
                 else Inr (intret, r, w))"

definition call_0 ::
    "'w rpc_lib \<Rightarrow> 'r get \<Rightarrow>
     'w \<Rightarrow> u32 \<Rightarrow> 'r \<Rightarrow> int \<Rightarrow> (int \<times> 'r \<times> 'w) result" where
  "call_0 L get_r w proc r tmo =
     (let m = marshall_new (lib_ck L) (lib_mem L)
      in call_m L get_r w proc m r tmo)"

definition call_1 ::
    "'w rpc_lib \<Rightarrow> 'a put \<Rightarrow> 'r get \<Rightarrow>
     'w \<Rightarrow> u32 \<Rightarrow> 'a \<Rightarrow> 'r \<Rightarrow> int \<Rightarrow> (int \<times> 'r \<times> 'w) result" where
  "call_1 L put_a get_r w proc a r tmo =
     (let m = marshall_new (lib_ck L) (lib_mem L);
          m = put_a m a
      in call_m L get_r w proc m r tmo)"

definition call_2 ::
    "'w rpc_lib \<Rightarrow> 'a put \<Rightarrow> 'b put \<Rightarrow> 'r get \<Rightarrow>
     'w \<Rightarrow> u32 \<Rightarrow> 'a \<Rightarrow> 'b \<Rightarrow> 'r \<Rightarrow> int \<Rightarrow> (int \<times> 'r \<times> 'w) result" where
  "call_2 L put_a put_b get_r w proc a b r tmo =
     (let m = marshall_new (lib_ck L) (lib_mem L);
          m = put_a m a;
          m = put_b m b
      in call_m L get_r w proc m r tmo)"

definition call_3 ::
    "'w rpc_lib \<Rightarrow> 'a put \<Rightarrow> 'b put \<Rightarrow> 'c put \<Rightarrow> 'r get \<Rightarrow>
     'w \<Rightarrow> u32 \<Rightarrow> 'a \<Rightarrow> 'b \<Rightarrow> 'c \<Rightarrow> 'r \<Rightarrow> int \<Rightarrow> (int \<times> 'r \<times> 'w) result" where
  "call_3 L put_a put_b put_c get_r w proc a b c r tmo =
     (let m = marshall_new (lib_ck L) (lib_mem L);
          m = put_a m a;
          m = put_b m b;
          m = put_c m c
      in call_m L get_r w proc m r tmo)"

definition call_4 ::
    "'w rpc_lib \<Rightarrow> 'a put \<Rightarrow> 'b put \<Rightarrow> 'c put \<Rightarrow> 'd put \<Rightarrow> 'r get \<Rightarrow>
     'w \<Rightarrow> u32 \<Rightarrow> 'a \<Rightarrow> 'b \<Rightarrow> 'c \<Rightarrow> 'd \<Rightarrow> 'r \<Rightarrow> int \<Rightarrow> (int \<times> 'r \<times> 'w) result" where
  "call_4 L put_a put_b put_c put_d get_r w proc a b c d r tmo =
     (let m = marshall_new (lib_ck L) (lib_mem L);
          m = put_a m a;
          m = put_b m b;
          m = put_c m c;
          m = put_d m d
      in call_m L get_r w proc m r tmo)"

definition call_5 ::
    "'w rpc_lib \<Rightarrow> 'a put \<Rightarrow> 'b put \<Rightarrow> 'c put \<Rightarrow> 'd put \<Rightarrow> 'e put \<Rightarrow> 'r get \<Rightarrow>
     'w \<Rightarrow> u32 \<Rightarrow> 'a \<Rightarrow> 'b \<Rightarrow> 'c \<Rightarrow> 'd \<Rightarrow> 'e \<Rightarrow> 'r \<Rightarrow> int \<Rightarrow> (int \<times> 'r \<times> 'w) result" where
  "call_5 L put_a put_b put_c put_d put_e get_r w proc a b c d e r tmo =
     (let m = marshall_new (lib_ck L) (lib_mem L);
          m = put_a m a;
          m = put_b m b;
          m = put_c m c;
          m = put_d m d;
          m = put_e m e
      in call_m L get_r w proc m r tmo)"

definition call_6 ::
    "'w rpc_lib \<Rightarrow> 'a put \<Rightarrow> 'b put \<Rightarrow> 'c put \<Rightarrow> 'd put \<Rightarrow> 'e put \<Rightarrow> 'f put \<Rightarrow> 'r get \<Rightarrow>
     'w \<Rightarrow> u32 \<Rightarrow> 'a \<Rightarrow> 'b \<Rightarrow> 'c \<Rightarrow> 'd \<Rightarrow> 'e \<Rightarrow> 'f \<Rightarrow> 'r \<Rightarrow> int \<Rightarrow> (int \<times> 'r \<times> 'w) result" where
  "call_6 L put_a put_b put_c put_d put_e put_f get_r w proc a b c d e f r tmo =
     (let m = marshall_new (lib_ck L) (lib_mem L);
          m = put_a m a;
          m = put_b m b;
          m = put_c m c;
          m = put_d m d;
          m = put_e m e;
          m = put_f m f
      in call_m L get_r w proc m r tmo)"

definition call_7 ::
    "'w rpc_lib \<Rightarrow> 'a put \<Rightarrow> 'b put \<Rightarrow> 'c put \<Rightarrow> 'd put \<Rightarrow> 'e put \<Rightarrow> 'f put \<Rightarrow> 'g put \<Rightarrow> 'r get \<Rightarrow>
     'w \<Rightarrow> u32 \<Rightarrow> 'a \<Rightarrow> 'b \<Rightarrow> 'c \<Rightarrow> 'd \<Rightarrow> 'e \<Rightarrow> 'f \<Rightarrow> 'g \<Rightarrow> 'r \<Rightarrow> int \<Rightarrow> (int \<times> 'r \<times> 'w) result" where
  "call_7 L put_a put_b put_c put_d put_e put_f put_g get_r w proc a b c d e f g r tmo =
     (let m = marshall_new (lib_ck L) (lib_mem L);
          m = put_a m a;
          m = put_b m b;
          m = put_c m c;
          m = put_d m d;
          m = put_e m e;
          m = put_f m f;
          m = put_g m g
      in call_m L get_r w proc m r tmo)"

section \<open>The server: the handlers that \<open>rpcs::reg\<close> makes\<close>

text \<open>
  The \<open>fn\<close> of the local class \<open>h1\<close>; \<open>za\<close>, \<open>zb\<close>, ... are the values of the
  argument variables before they are read and \<open>r\<close> that of the reply variable.
\<close>

definition handler_1 ::
    "'w rpc_lib \<Rightarrow> 'a get \<Rightarrow> 'r put \<Rightarrow>
     'a \<Rightarrow> 'r \<Rightarrow>
     ('w \<Rightarrow> 'a \<Rightarrow> 'r \<Rightarrow> (int \<times> 'r \<times> 'w) result) \<Rightarrow> 'w handler" where
  "handler_1 L get_a put_r za r meth w args ret =
     (let (a, args) = get_a args za
      in if \<not> lib_okdone L args then Inr (unmarshal_args_failure, args, ret, w)
         else andThen (meth w a r) (\<lambda>(b, r, w).
                let ret = put_r ret r in Inr (b, args, ret, w)))"

definition handler_2 ::
    "'w rpc_lib \<Rightarrow> 'a get \<Rightarrow> 'b get \<Rightarrow> 'r put \<Rightarrow>
     'a \<Rightarrow> 'b \<Rightarrow> 'r \<Rightarrow>
     ('w \<Rightarrow> 'a \<Rightarrow> 'b \<Rightarrow> 'r \<Rightarrow> (int \<times> 'r \<times> 'w) result) \<Rightarrow> 'w handler" where
  "handler_2 L get_a get_b put_r za zb r meth w args ret =
     (let (a, args) = get_a args za;
          (b, args) = get_b args zb
      in if \<not> lib_okdone L args then Inr (unmarshal_args_failure, args, ret, w)
         else andThen (meth w a b r) (\<lambda>(b, r, w).
                let ret = put_r ret r in Inr (b, args, ret, w)))"

definition handler_3 ::
    "'w rpc_lib \<Rightarrow> 'a get \<Rightarrow> 'b get \<Rightarrow> 'c get \<Rightarrow> 'r put \<Rightarrow>
     'a \<Rightarrow> 'b \<Rightarrow> 'c \<Rightarrow> 'r \<Rightarrow>
     ('w \<Rightarrow> 'a \<Rightarrow> 'b \<Rightarrow> 'c \<Rightarrow> 'r \<Rightarrow> (int \<times> 'r \<times> 'w) result) \<Rightarrow> 'w handler" where
  "handler_3 L get_a get_b get_c put_r za zb zc r meth w args ret =
     (let (a, args) = get_a args za;
          (b, args) = get_b args zb;
          (c, args) = get_c args zc
      in if \<not> lib_okdone L args then Inr (unmarshal_args_failure, args, ret, w)
         else andThen (meth w a b c r) (\<lambda>(b, r, w).
                let ret = put_r ret r in Inr (b, args, ret, w)))"

definition handler_4 ::
    "'w rpc_lib \<Rightarrow> 'a get \<Rightarrow> 'b get \<Rightarrow> 'c get \<Rightarrow> 'd get \<Rightarrow> 'r put \<Rightarrow>
     'a \<Rightarrow> 'b \<Rightarrow> 'c \<Rightarrow> 'd \<Rightarrow> 'r \<Rightarrow>
     ('w \<Rightarrow> 'a \<Rightarrow> 'b \<Rightarrow> 'c \<Rightarrow> 'd \<Rightarrow> 'r \<Rightarrow> (int \<times> 'r \<times> 'w) result) \<Rightarrow> 'w handler" where
  "handler_4 L get_a get_b get_c get_d put_r za zb zc zd r meth w args ret =
     (let (a, args) = get_a args za;
          (b, args) = get_b args zb;
          (c, args) = get_c args zc;
          (d, args) = get_d args zd
      in if \<not> lib_okdone L args then Inr (unmarshal_args_failure, args, ret, w)
         else andThen (meth w a b c d r) (\<lambda>(b, r, w).
                let ret = put_r ret r in Inr (b, args, ret, w)))"

definition handler_5 ::
    "'w rpc_lib \<Rightarrow> 'a get \<Rightarrow> 'b get \<Rightarrow> 'c get \<Rightarrow> 'd get \<Rightarrow> 'e get \<Rightarrow> 'r put \<Rightarrow>
     'a \<Rightarrow> 'b \<Rightarrow> 'c \<Rightarrow> 'd \<Rightarrow> 'e \<Rightarrow> 'r \<Rightarrow>
     ('w \<Rightarrow> 'a \<Rightarrow> 'b \<Rightarrow> 'c \<Rightarrow> 'd \<Rightarrow> 'e \<Rightarrow> 'r \<Rightarrow> (int \<times> 'r \<times> 'w) result) \<Rightarrow> 'w handler" where
  "handler_5 L get_a get_b get_c get_d get_e put_r za zb zc zd ze r meth w args ret =
     (let (a, args) = get_a args za;
          (b, args) = get_b args zb;
          (c, args) = get_c args zc;
          (d, args) = get_d args zd;
          (e, args) = get_e args ze
      in if \<not> lib_okdone L args then Inr (unmarshal_args_failure, args, ret, w)
         else andThen (meth w a b c d e r) (\<lambda>(b, r, w).
                let ret = put_r ret r in Inr (b, args, ret, w)))"

definition handler_6 ::
    "'w rpc_lib \<Rightarrow> 'a get \<Rightarrow> 'b get \<Rightarrow> 'c get \<Rightarrow> 'd get \<Rightarrow> 'e get \<Rightarrow> 'f get \<Rightarrow> 'r put \<Rightarrow>
     'a \<Rightarrow> 'b \<Rightarrow> 'c \<Rightarrow> 'd \<Rightarrow> 'e \<Rightarrow> 'f \<Rightarrow> 'r \<Rightarrow>
     ('w \<Rightarrow> 'a \<Rightarrow> 'b \<Rightarrow> 'c \<Rightarrow> 'd \<Rightarrow> 'e \<Rightarrow> 'f \<Rightarrow> 'r \<Rightarrow> (int \<times> 'r \<times> 'w) result) \<Rightarrow> 'w handler" where
  "handler_6 L get_a get_b get_c get_d get_e get_f put_r za zb zc zd ze zf r meth w args ret =
     (let (a, args) = get_a args za;
          (b, args) = get_b args zb;
          (c, args) = get_c args zc;
          (d, args) = get_d args zd;
          (e, args) = get_e args ze;
          (f, args) = get_f args zf
      in if \<not> lib_okdone L args then Inr (unmarshal_args_failure, args, ret, w)
         else andThen (meth w a b c d e f r) (\<lambda>(b, r, w).
                let ret = put_r ret r in Inr (b, args, ret, w)))"

definition handler_7 ::
    "'w rpc_lib \<Rightarrow> 'a get \<Rightarrow> 'b get \<Rightarrow> 'c get \<Rightarrow> 'd get \<Rightarrow> 'e get \<Rightarrow> 'f get \<Rightarrow> 'g get \<Rightarrow> 'r put \<Rightarrow>
     'a \<Rightarrow> 'b \<Rightarrow> 'c \<Rightarrow> 'd \<Rightarrow> 'e \<Rightarrow> 'f \<Rightarrow> 'g \<Rightarrow> 'r \<Rightarrow>
     ('w \<Rightarrow> 'a \<Rightarrow> 'b \<Rightarrow> 'c \<Rightarrow> 'd \<Rightarrow> 'e \<Rightarrow> 'f \<Rightarrow> 'g \<Rightarrow> 'r \<Rightarrow> (int \<times> 'r \<times> 'w) result) \<Rightarrow> 'w handler" where
  "handler_7 L get_a get_b get_c get_d get_e get_f get_g put_r za zb zc zd ze zf zg r meth w args ret =
     (let (a, args) = get_a args za;
          (b, args) = get_b args zb;
          (c, args) = get_c args zc;
          (d, args) = get_d args zd;
          (e, args) = get_e args ze;
          (f, args) = get_f args zf;
          (g, args) = get_g args zg
      in if \<not> lib_okdone L args then Inr (unmarshal_args_failure, args, ret, w)
         else andThen (meth w a b c d e f g r) (\<lambda>(b, r, w).
                let ret = put_r ret r in Inr (b, args, ret, w)))"

section \<open>Several arguments are one tuple\<close>

text \<open>
  The stubs for several arguments are the stub for one argument at the type of
  tuples, with the operators run in sequence.
\<close>

named_theorems tupled "stubs for several arguments as stubs for one"

lemma call_2_tuple [tupled]:
  "call_2 L put_a put_b get_r w proc a b r tmo =
   call_1 L (put_pair put_a put_b)
     get_r w proc (a, b) r tmo"
  by (simp add: call_2_def call_1_def put_pair_def)

lemma call_3_tuple [tupled]:
  "call_3 L put_a put_b put_c get_r w proc a b c r tmo =
   call_1 L (put_pair put_a (put_pair put_b put_c))
     get_r w proc (a, b, c) r tmo"
  by (simp add: call_3_def call_1_def put_pair_def)

lemma call_4_tuple [tupled]:
  "call_4 L put_a put_b put_c put_d get_r w proc a b c d r tmo =
   call_1 L (put_pair put_a (put_pair put_b (put_pair put_c put_d)))
     get_r w proc (a, b, c, d) r tmo"
  by (simp add: call_4_def call_1_def put_pair_def)

lemma call_5_tuple [tupled]:
  "call_5 L put_a put_b put_c put_d put_e get_r w proc a b c d e r tmo =
   call_1 L (put_pair put_a (put_pair put_b (put_pair put_c (put_pair put_d put_e))))
     get_r w proc (a, b, c, d, e) r tmo"
  by (simp add: call_5_def call_1_def put_pair_def)

lemma call_6_tuple [tupled]:
  "call_6 L put_a put_b put_c put_d put_e put_f get_r w proc a b c d e f r tmo =
   call_1 L (put_pair put_a (put_pair put_b (put_pair put_c (put_pair put_d (put_pair put_e put_f)))))
     get_r w proc (a, b, c, d, e, f) r tmo"
  by (simp add: call_6_def call_1_def put_pair_def)

lemma call_7_tuple [tupled]:
  "call_7 L put_a put_b put_c put_d put_e put_f put_g get_r w proc a b c d e f g r tmo =
   call_1 L (put_pair put_a (put_pair put_b (put_pair put_c (put_pair put_d (put_pair put_e (put_pair put_f put_g))))))
     get_r w proc (a, b, c, d, e, f, g) r tmo"
  by (simp add: call_7_def call_1_def put_pair_def)

lemma handler_2_tuple [tupled]:
  "handler_2 L get_a get_b put_r za zb r meth =
   handler_1 L (get_pair get_a get_b)
     put_r (za, zb) r (\<lambda>w (a, b). meth w a b)"
  by (simp add: fun_eq_iff handler_2_def handler_1_def get_pair_def Let_def split: prod.split)

lemma handler_3_tuple [tupled]:
  "handler_3 L get_a get_b get_c put_r za zb zc r meth =
   handler_1 L (get_pair get_a (get_pair get_b get_c))
     put_r (za, zb, zc) r (\<lambda>w (a, b, c). meth w a b c)"
  by (simp add: fun_eq_iff handler_3_def handler_1_def get_pair_def Let_def split: prod.split)

lemma handler_4_tuple [tupled]:
  "handler_4 L get_a get_b get_c get_d put_r za zb zc zd r meth =
   handler_1 L (get_pair get_a (get_pair get_b (get_pair get_c get_d)))
     put_r (za, zb, zc, zd) r (\<lambda>w (a, b, c, d). meth w a b c d)"
  by (simp add: fun_eq_iff handler_4_def handler_1_def get_pair_def Let_def split: prod.split)

lemma handler_5_tuple [tupled]:
  "handler_5 L get_a get_b get_c get_d get_e put_r za zb zc zd ze r meth =
   handler_1 L (get_pair get_a (get_pair get_b (get_pair get_c (get_pair get_d get_e))))
     put_r (za, zb, zc, zd, ze) r (\<lambda>w (a, b, c, d, e). meth w a b c d e)"
  by (simp add: fun_eq_iff handler_5_def handler_1_def get_pair_def Let_def split: prod.split)

lemma handler_6_tuple [tupled]:
  "handler_6 L get_a get_b get_c get_d get_e get_f put_r za zb zc zd ze zf r meth =
   handler_1 L (get_pair get_a (get_pair get_b (get_pair get_c (get_pair get_d (get_pair get_e get_f)))))
     put_r (za, zb, zc, zd, ze, zf) r (\<lambda>w (a, b, c, d, e, f). meth w a b c d e f)"
  by (simp add: fun_eq_iff handler_6_def handler_1_def get_pair_def Let_def split: prod.split)

lemma handler_7_tuple [tupled]:
  "handler_7 L get_a get_b get_c get_d get_e get_f get_g put_r za zb zc zd ze zf zg r meth =
   handler_1 L (get_pair get_a (get_pair get_b (get_pair get_c (get_pair get_d (get_pair get_e (get_pair get_f get_g))))))
     put_r (za, zb, zc, zd, ze, zf, zg) r (\<lambda>w (a, b, c, d, e, f, g). meth w a b c d e f g)"
  by (simp add: fun_eq_iff handler_7_def handler_1_def get_pair_def Let_def split: prod.split)

end
