(* ===== verification/Rpc_Spec.thy ===== *)
theory Rpc_Spec
  imports Rpc
begin

text \<open>
  What the transport promises and what the stubs make of it: a call either fails
  with a negative code, having run the method once or not at all, or returns what
  the method returned.
\<close>

section \<open>The promise of the transport\<close>

text \<open>A buffer that has just been filled with the content \<open>c\<close>.\<close>

definition holds :: "bool \<Rightarrow> byte list \<Rightarrow> unmarshall \<Rightarrow> bool" where
  "holds ck c u \<longleftrightarrow> upcoming c u \<and> u_ind u = RPC_HEADER_SZ ck \<and> u_sz u = RPC_HEADER_SZ ck + length c"

lemma holds_done: "holds ck c u \<Longrightarrow> u_ok (skip (length c) u) \<and> u_ind (skip (length c) u) = u_sz (skip (length c) u)"
  by (simp add: holds_def upcoming_def)

lemma take_content_holds:
  assumes "RPC_HEADER_SZ ck + length s \<le> INT_MAX"
  shows "\<exists>u'. take_content ck mem u s = Inr u' \<and> holds ck s u'"
proof -
  have "sint (word_of_nat (length s + RPC_HEADER_SZ ck) :: u32) = int (length s + RPC_HEADER_SZ ck)"
    using assms by (intro sint_of_nat_u32) (simp add: INT_MAX_def)
  then show ?thesis
    by (simp add: take_content_def holds_def upcoming_def nat_int_add)
qed

definition okdone_spec :: "'w rpc_lib \<Rightarrow> bool" where
  "okdone_spec L \<longleftrightarrow> (\<forall>u. lib_okdone L u \<longleftrightarrow> u_ok u \<and> u_ind u = u_sz u)"

definition at_most_once :: "'w rpc_lib \<Rightarrow> (u32 \<rightharpoonup> 'w handler) \<Rightarrow> bool" where
  "at_most_once L procs \<longleftrightarrow>
     (\<forall>w proc h req u tmo rc u' w'.
        procs proc = Some h \<longrightarrow> m_wf (lib_ck L) req \<longrightarrow> lib_call1 L w proc req u tmo = (rc, u', w') \<longrightarrow>
        rc < 0 \<and> w' = w \<or>
        (\<exists>args mem. holds (lib_ck L) (get_content (lib_ck L) req) args \<and>
           (case h w args (marshall_new (lib_ck L) mem) of
              Inl _ \<Rightarrow> rc < 0
            | Inr (b, _, ret, w1) \<Rightarrow>
                w' = w1 \<and> (rc < 0 \<or>
                  rc = b \<and> (m_wf (lib_ck L) ret \<longrightarrow> holds (lib_ck L) (get_content (lib_ck L) ret) u')))))"

lemma at_most_onceE:
  assumes "at_most_once L procs" "procs proc = Some h" "m_wf (lib_ck L) req"
    and "lib_call1 L w proc req u tmo = (rc, u', w')"
  obtains "rc < 0" "w' = w"
  | args mem e where "holds (lib_ck L) (get_content (lib_ck L) req) args"
      "h w args (marshall_new (lib_ck L) mem) = Inl e" "rc < 0"
  | args mem b args' ret where "holds (lib_ck L) (get_content (lib_ck L) req) args"
      "h w args (marshall_new (lib_ck L) mem) = Inr (b, args', ret, w')"
      "rc < 0 \<or> rc = b \<and> (m_wf (lib_ck L) ret \<longrightarrow> holds (lib_ck L) (get_content (lib_ck L) ret) u')"
proof -
  have "rc < 0 \<and> w' = w \<or>
      (\<exists>args mem. holds (lib_ck L) (get_content (lib_ck L) req) args \<and>
         (case h w args (marshall_new (lib_ck L) mem) of
            Inl _ \<Rightarrow> rc < 0
          | Inr (b, _, ret, w1) \<Rightarrow>
              w' = w1 \<and> (rc < 0 \<or>
                rc = b \<and> (m_wf (lib_ck L) ret \<longrightarrow> holds (lib_ck L) (get_content (lib_ck L) ret) u'))))"
    using assms(1) [unfolded at_most_once_def, rule_format, OF assms(2-4)] .
  then show thesis
  proof (elim disjE exE conjE)
    fix args mem
    assume a: "holds (lib_ck L) (get_content (lib_ck L) req) args"
      and c: "case h w args (marshall_new (lib_ck L) mem) of
            Inl _ \<Rightarrow> rc < 0
          | Inr (b, _, ret, w1) \<Rightarrow>
              w' = w1 \<and> (rc < 0 \<or>
                rc = b \<and> (m_wf (lib_ck L) ret \<longrightarrow> holds (lib_ck L) (get_content (lib_ck L) ret) u'))"
    then show thesis
      by (cases "h w args (marshall_new (lib_ck L) mem)") (auto intro: that)
  qed (rule that)
qed

lemma marshall_new_wf [simp]: "m_wf ck (marshall_new ck mem)" "get_content ck (marshall_new ck mem) = []"
  using header_layout(7) [of ck]
  by (simp_all add: m_wf_def marshall_new_def get_content_def INT_MAX_def DEFAULT_RPC_SZ_def)

lemma marshall_new_ind [simp]: "m_ind (marshall_new ck mem) = RPC_HEADER_SZ ck"
  by (simp add: marshall_new_def)

section \<open>What a call comes to\<close>

text \<open>
  The outcome of a call on a method that would return the code \<open>b\<close>, the reply \<open>r'\<close> and
  the state \<open>w1\<close>.
\<close>

definition rpc_outcome :: "'w \<Rightarrow> 'r \<Rightarrow> int \<Rightarrow> 'r \<Rightarrow> 'w \<Rightarrow> (int \<times> 'r \<times> 'w) result \<Rightarrow> bool" where
  "rpc_outcome w r b r' w1 res \<longleftrightarrow>
     (\<exists>rc w'. res = Inr (rc, r, w') \<and> rc < 0 \<and> (w' = w \<or> w' = w1)) \<or> 0 \<le> b \<and> res = Inr (b, r', w1)"

text \<open>The size of a message with this content.\<close>

definition msg_fits :: "bool \<Rightarrow> byte list \<Rightarrow> bool" where
  "msg_fits ck c \<longleftrightarrow> RPC_HEADER_SZ ck + length c \<le> INT_MAX"

lemma stub_call:
  assumes L: "at_most_once L procs" "okdone_spec L"
    and h: "procs proc = Some (handler_1 L ga pr za r0 meth)"
    and a: "codec va ea pa ga za" and r: "codec vr er pr gr r"
    and ok: "va a" "vr r'" "msg_fits (lib_ck L) (ea a)" "msg_fits (lib_ck L) (er r')"
    and meth: "meth w a r0 = Inr (b, r', w1)"
  shows "rpc_outcome w r b r' w1 (call_1 L pa gr w proc a r tmo)"
proof -
  let ?ck = "lib_ck L" and ?m = "pa (marshall_new (lib_ck L) (lib_mem L)) a"
  have m: "m_wf ?ck ?m" "get_content ?ck ?m = ea a"
    using codec.put_content [OF a ok(1), of ?ck "marshall_new ?ck (lib_mem L)"] ok(3)
    by (simp_all add: msg_fits_def)
  obtain rc u w' where c: "lib_call1 L w proc ?m unmarshall_new tmo = (rc, u, w')"
    by (metis prod_cases3)
  have run: "handler_1 L ga pr za r0 meth w args (marshall_new ?ck mem) =
      Inr (b, skip (length (ea a)) args, pr (marshall_new ?ck mem) r', w1)" if "holds ?ck (ea a) args" for args mem
  proof -
    have "ga args za = (a, skip (length (ea a)) args)"
      using that ok(1) by (intro codec.get_law [OF a]) (simp_all add: holds_def)
    then show ?thesis
      using L(2) holds_done [OF that] by (simp add: handler_1_def okdone_spec_def meth)
  qed
  have ret: "m_wf ?ck (pr (marshall_new ?ck mem) r')" "get_content ?ck (pr (marshall_new ?ck mem) r') = er r'" for mem
    using codec.put_content [OF r ok(2), of ?ck "marshall_new ?ck mem"] ok(4) by (simp_all add: msg_fits_def)
  have fin: "call_1 L pa gr w proc a r tmo = Inr (rc, r', w')" if "0 \<le> rc" "holds ?ck (er r') u"
  proof -
    have "gr u r = (r', skip (length (er r')) u)"
      using that ok(2) by (intro codec.get_law [OF r]) (simp_all add: holds_def)
    then show ?thesis
      using that L(2) holds_done [OF that(2)] by (simp add: call_1_def call_m_def c okdone_spec_def)
  qed
  have neg: "call_1 L pa gr w proc a r tmo = Inr (rc, r, w')" if "rc < 0"
    using that by (simp add: call_1_def call_m_def c)
  show ?thesis
  proof (rule at_most_onceE [OF L(1) h m(1) c])
    assume "rc < 0" "w' = w"
    then show ?thesis by (simp add: rpc_outcome_def neg)
  next
    fix args mem e
    assume "holds ?ck (get_content ?ck ?m) args"
      "handler_1 L ga pr za r0 meth w args (marshall_new ?ck mem) = Inl e"
    then show ?thesis by (simp add: m(2) run)
  next
    fix args mem b0 args' ret
    assume args: "holds ?ck (get_content ?ck ?m) args"
      and h: "handler_1 L ga pr za r0 meth w args (marshall_new ?ck mem) = Inr (b0, args', ret, w')"
      and rc: "rc < 0 \<or> rc = b0 \<and> (m_wf ?ck ret \<longrightarrow> holds ?ck (get_content ?ck ret) u)"
    from h args have "b0 = b" "ret = pr (marshall_new ?ck mem) r'" "w' = w1"
      by (simp_all add: m(2) run)
    with rc ret show ?thesis
      by (cases "rc < 0") (auto simp: rpc_outcome_def neg fin)
  qed
qed

end
