(* ===== verification/Headers.thy ===== *)
theory Headers
  imports Rpc_Spec
begin

text \<open>
  The headers are written into the space in front of the content: the content, the
  head position and the first bytes of the message stay as they are.
\<close>

section \<open>Writing inside the header\<close>

text \<open>What is appended at a position inside the header stays there.\<close>

lemma overwrite_header:
  assumes a: "appended bs (m\<lparr>m_ind := i\<rparr>) m1" and m: "m_wf ck m"
    and i: "i + length bs \<le> RPC_HEADER_SZ ck"
  shows "m_wf ck (m1\<lparr>m_ind := m_ind m\<rparr>)"
    "get_content ck (m1\<lparr>m_ind := m_ind m\<rparr>) = get_content ck m"
    "take (length bs) (drop i (m_buf m1)) = bs"
    "take i (m_buf m1) = take i (m_buf m)"
proof -
  obtain junk where b: "m_buf m1 = take i (m_buf m) @ bs @ drop (i + length bs) (m_buf m) @ junk"
    using a by (auto simp: appended_def)
  have l: "length (m_buf m1) = length (m_buf m) + length junk"
    using m i by (simp add: b m_wf_def)
  then show "m_wf ck (m1\<lparr>m_ind := m_ind m\<rparr>)" using m by (simp add: m_wf_def)
  show "take (length bs) (drop i (m_buf m1)) = bs" "take i (m_buf m1) = take i (m_buf m)"
    using m i by (simp_all add: b m_wf_def)
  have "drop (RPC_HEADER_SZ ck) (m_buf m1) = drop (RPC_HEADER_SZ ck) (m_buf m) @ junk"
    using m i by (simp add: b m_wf_def)
  then show "get_content ck (m1\<lparr>m_ind := m_ind m\<rparr>) = get_content ck m"
    using m by (simp add: get_content_def m_wf_def)
qed

lemma header_room:
  assumes "m_wf ck m" "i \<le> RPC_HEADER_SZ ck"
  shows "m_ind (m\<lparr>m_ind := i\<rparr>) \<le> length (m_buf (m\<lparr>m_ind := i\<rparr>))"
  using assms by (simp add: m_wf_def)

text \<open>The message of a marshalled buffer, as the receiver sees it.\<close>

lemma received:
  assumes "m_wf ck m"
  shows "holds ck (get_content ck m) ((unmarshall_buf (m_buf m) (m_ind m))\<lparr>u_ind := RPC_HEADER_SZ ck\<rparr>)"
  using assms by (auto simp: holds_def upcoming_def unmarshall_buf_def get_content_def m_wf_def min_def)

text \<open>A reader at a position inside the header.\<close>

lemma upcoming_header:
  assumes "m_wf ck m" "take (length bs) (drop i (m_buf m)) = bs" "i + length bs \<le> RPC_HEADER_SZ ck"
  shows "upcoming bs ((unmarshall_buf (m_buf m) (m_ind m))\<lparr>u_ind := i\<rparr>)"
  using assms by (simp add: upcoming_def unmarshall_buf_def m_wf_def)

section \<open>The headers\<close>

definition int_codec :: "(u32 \<Rightarrow> byte list) \<Rightarrow> u32 put \<Rightarrow> u32 get \<Rightarrow> bool" where
  "int_codec e pack unpack \<longleftrightarrow> (\<forall>z. codec (\<lambda>_. True) e pack unpack z) \<and> (\<forall>w. length (e w) = 4)"

definition enc_req :: "(u32 \<Rightarrow> byte list) \<Rightarrow> req_header \<Rightarrow> byte list" where
  "enc_req e h = e (rq_xid h) @ e (rq_proc h) @ e (rq_clt_nonce h) @ e (rq_srv_nonce h) @ e (rq_xid_rep h)"

definition enc_reply :: "(u32 \<Rightarrow> byte list) \<Rightarrow> reply_header \<Rightarrow> byte list" where
  "enc_reply e h = e (rp_xid h) @ e (rp_ret h)"

lemma header_start_if:
  "(if ck then (m\<lparr>m_ind := sizeof_rpc_sz\<rparr>)\<lparr>m_ind := m_ind (m\<lparr>m_ind := sizeof_rpc_sz\<rparr>) + sizeof_rpc_checksum\<rparr>
    else m\<lparr>m_ind := sizeof_rpc_sz\<rparr>) = m\<lparr>m_ind := header_start ck\<rparr>"
  "(if ck then (u\<lparr>u_ind := sizeof_rpc_sz\<rparr>)\<lparr>u_ind := u_ind (u\<lparr>u_ind := sizeof_rpc_sz\<rparr>) + sizeof_rpc_checksum\<rparr>
    else u\<lparr>u_ind := sizeof_rpc_sz\<rparr>) = u\<lparr>u_ind := header_start ck\<rparr>"
  by (simp_all add: header_start_def)

lemma pack_req_appended:
  assumes c: "int_codec e pack unpack" and m: "m_wf ck m"
  obtains m1 where "pack_req_header ck pack m h = m1\<lparr>m_ind := m_ind m\<rparr>"
    "appended (enc_req e h) (m\<lparr>m_ind := header_start ck\<rparr>) m1"
    "header_start ck + length (enc_req e h) \<le> RPC_HEADER_SZ ck"
proof -
  have z: "codec (\<lambda>_. True) e pack unpack 0" and l: "length (e w) = 4" for w
    using c by (simp_all add: int_codec_def)
  note c5 = codec_pair [OF z codec_pair [OF z codec_pair [OF z codec_pair [OF z z]]]]
  let ?h = "(rq_xid h, rq_proc h, rq_clt_nonce h, rq_srv_nonce h, rq_xid_rep h)"
  let ?m = "m\<lparr>m_ind := header_start ck\<rparr>"
  have len: "header_start ck + length (enc_req e h) \<le> RPC_HEADER_SZ ck"
    using header_layout(5) [of ck] by (simp add: enc_req_def l sizeof_req_header_def)
  then have "appended (enc_req e h) ?m (pack (pack (pack (pack (pack ?m (rq_xid h)) (rq_proc h))
      (rq_clt_nonce h)) (rq_srv_nonce h)) (rq_xid_rep h))"
    using codec.put_law [OF c5, where v = ?h and m = ?m] m
    by (simp add: put_pair_def enc_req_def m_wf_def)
  then show thesis
    by (rule that [rotated]) (simp_all add: pack_req_header_def header_start_if [unfolded Let_def] Let_def len)
qed

lemma pack_reply_appended:
  assumes c: "int_codec e pack unpack" and m: "m_wf ck m"
  obtains m1 where "pack_reply_header ck pack m h = m1\<lparr>m_ind := m_ind m\<rparr>"
    "appended (enc_reply e h) (m\<lparr>m_ind := header_start ck\<rparr>) m1"
    "header_start ck + length (enc_reply e h) \<le> RPC_HEADER_SZ ck"
proof -
  have z: "codec (\<lambda>_. True) e pack unpack 0" and l: "length (e w) = 4" for w
    using c by (simp_all add: int_codec_def)
  note c2 = codec_pair [OF z z]
  let ?m = "m\<lparr>m_ind := header_start ck\<rparr>"
  have len: "header_start ck + length (enc_reply e h) \<le> RPC_HEADER_SZ ck"
    using header_layout(6) [of ck] by (simp add: enc_reply_def l sizeof_reply_header_def)
  then have "appended (enc_reply e h) ?m (pack (pack ?m (rp_xid h)) (rp_ret h))"
    using codec.put_law [OF c2, where v = "(rp_xid h, rp_ret h)" and m = ?m] m
    by (simp add: put_pair_def enc_reply_def m_wf_def)
  then show thesis
    by (rule that [rotated]) (simp_all add: pack_reply_header_def header_start_if [unfolded Let_def] Let_def len)
qed

lemma unpack_req:
  assumes c: "int_codec e pack unpack"
    and u: "upcoming (enc_req e h) (u\<lparr>u_ind := header_start ck\<rparr>)"
  shows "unpack_req_header ck unpack u h0 = (h, u\<lparr>u_ind := RPC_HEADER_SZ ck\<rparr>)"
proof -
  have z: "codec (\<lambda>_. True) e pack unpack x" for x using c by (simp add: int_codec_def)
  note c5 = codec_pair [OF z [of "rq_xid h0"] codec_pair [OF z [of "rq_proc h0"]
      codec_pair [OF z [of "rq_clt_nonce h0"] codec_pair [OF z [of "rq_srv_nonce h0"] z [of "rq_xid_rep h0"]]]]]
  let ?h = "(rq_xid h, rq_proc h, rq_clt_nonce h, rq_srv_nonce h, rq_xid_rep h)"
  show ?thesis
    using codec.get_law [OF c5, where v = ?h and u = "u\<lparr>u_ind := header_start ck\<rparr>"] u
    by (simp add: unpack_req_header_def header_start_if [unfolded Let_def] Let_def enc_req_def
        get_pair_def skip_def split: prod.splits)
qed

lemma unpack_reply:
  assumes c: "int_codec e pack unpack"
    and u: "upcoming (enc_reply e h) (u\<lparr>u_ind := header_start ck\<rparr>)"
  shows "unpack_reply_header ck unpack u h0 = (h, u\<lparr>u_ind := RPC_HEADER_SZ ck\<rparr>)"
proof -
  have z: "codec (\<lambda>_. True) e pack unpack x" for x using c by (simp add: int_codec_def)
  note c2 = codec_pair [OF z [of "rp_xid h0"] z [of "rp_ret h0"]]
  show ?thesis
    using codec.get_law [OF c2, where v = "(rp_xid h, rp_ret h)" and u = "u\<lparr>u_ind := header_start ck\<rparr>"] u
    by (simp add: unpack_reply_header_def header_start_if [unfolded Let_def] Let_def enc_reply_def
        get_pair_def skip_def split: prod.splits)
qed

end
