(* ===== verification/Extent_Wire.thy ===== *)
theory Extent_Wire
  imports Rpc_Spec Extent_Store
begin

text \<open>
  The extent server behind the RPC library: the operators for attributes of
  src/extent_protocol.h, the numbers of the procedures, and the registration of
  the four methods that src/extent_smain.cc serves.
\<close>

section \<open>The wire protocol\<close>

definition rpc_put :: u32 where "rpc_put = 0x6001"
definition rpc_get :: u32 where "rpc_get = rpc_put + 1"
definition rpc_getattr :: u32 where "rpc_getattr = rpc_get + 1"
definition rpc_remove :: u32 where "rpc_remove = rpc_getattr + 1"

text \<open>A status as the \<open>int\<close> it is.\<close>

fun status_code :: "status \<Rightarrow> int" where
  "status_code OK = 0"
| "status_code RPCERR = 1"
| "status_code NOENT = 2"
| "status_code IOERR = 3"
| "status_code EXIST = 4"

definition put_attr :: "u32 put \<Rightarrow> attr put" where
  "put_attr put m a =
     (let m = put m (a_type a);
          m = put m (a_atime a);
          m = put m (a_mtime a);
          m = put m (a_ctime a);
          m = put m (a_size a)
      in m)"

definition get_attr :: "u32 get \<Rightarrow> attr get" where
  "get_attr get u a =
     (let (type, u) = get u (a_type a);
          (atime, u) = get u (a_atime a);
          (mtime, u) = get u (a_mtime a);
          (ctime, u) = get u (a_ctime a);
          (sz, u) = get u (a_size a)
      in (\<lparr>a_type = type, a_atime = atime, a_mtime = mtime, a_ctime = ctime, a_size = sz\<rparr>, u))"

definition enc_attr :: "(u32 \<Rightarrow> byte list) \<Rightarrow> attr \<Rightarrow> byte list" where
  "enc_attr e a = e (a_type a) @ e (a_atime a) @ e (a_mtime a) @ e (a_ctime a) @ e (a_size a)"

lemma codec_attr [intro]:
  assumes "\<And>z. codec (\<lambda>_. True) e put get z"
  shows "codec (\<lambda>_. True) (enc_attr e) (put_attr put) (get_attr get) a0"
proof
  note c = codec_pair [OF assms [of "a_type a0"] codec_pair [OF assms [of "a_atime a0"]
      codec_pair [OF assms [of "a_mtime a0"] codec_pair [OF assms [of "a_ctime a0"] assms [of "a_size a0"]]]]]
  let ?t = "\<lambda>a. (a_type a, a_atime a, a_mtime a, a_ctime a, a_size a)"
  {
    fix v and m :: marshall
    assume "m_ind m \<le> length (m_buf m)" "m_ind m + length (enc_attr e v) \<le> INT_MAX"
    then show "appended (enc_attr e v) m (put_attr put m v)"
      using codec.put_law [OF c, where v = "?t v" and m = m]
      by (simp add: put_attr_def enc_attr_def put_pair_def)
  next
    fix v u
    assume "upcoming (enc_attr e v) u"
    then show "get_attr get u a0 = (v, skip (length (enc_attr e v)) u)"
      using codec.get_law [OF c, where v = "?t v" and u = u]
      by (simp add: get_attr_def enc_attr_def get_pair_def split: prod.splits)
  }
qed

interpretation attr_wire: codec "\<lambda>_. True" "enc_attr u32_bytes" "put_attr (put_bytes u32_bytes)"
    "get_attr (get_bytes dec_u32)" a0 for a0
  by (rule codec_attr [OF codec_u32])

section \<open>The server process\<close>

text \<open>The operators of the library for the types the methods use.\<close>

record wire =
  put_int :: "u32 put"
  get_int :: "u32 get"
  put_uint :: "u32 put"
  get_uint :: "u32 get"
  put_ull :: "u64 put"
  get_ull :: "u64 get"
  put_str :: "byte list put"
  get_str :: "byte list get"

text \<open>
  The methods with the signatures they are registered with: the last argument is
  the reply, which \<open>put\<close> and \<open>remove\<close> leave as it is.
\<close>

definition meth_get :: "extent_server \<Rightarrow> u64 \<Rightarrow> byte list \<Rightarrow> (int \<times> byte list \<times> extent_server) result" where
  "meth_get es eid buf = andThen (es_get es eid) (\<lambda>(st, d, es). Inr (status_code st, d, es))"

definition meth_getattr :: "extent_server \<Rightarrow> u64 \<Rightarrow> attr \<Rightarrow> (int \<times> attr \<times> extent_server) result" where
  "meth_getattr es eid a = andThen (es_getattr es eid) (\<lambda>(st, a). Inr (status_code st, a, es))"

definition meth_put ::
    "extent_server \<Rightarrow> u64 \<Rightarrow> byte list \<Rightarrow> u32 \<Rightarrow> (int \<times> u32 \<times> extent_server) result" where
  "meth_put es eid buf r = andThen (es_put es eid buf) (\<lambda>(st, es). Inr (status_code st, r, es))"

definition meth_remove :: "extent_server \<Rightarrow> u64 \<Rightarrow> u32 \<Rightarrow> (int \<times> u32 \<times> extent_server) result" where
  "meth_remove es eid r = andThen (es_remove es eid) (\<lambda>(st, es). Inr (status_code st, r, es))"

text \<open>
  \<open>main\<close> up to its endless sleep.  \<open>reg1\<close> is the library's insertion into the table
  of procedures; \<open>i0\<close>, \<open>l0\<close> and \<open>a0\<close> are the uninitialised variables of the handlers.
\<close>

definition smain_table ::
    "('srv \<Rightarrow> u32 \<Rightarrow> extent_server handler \<Rightarrow> 'srv) \<Rightarrow> extent_server rpc_lib \<Rightarrow> wire \<Rightarrow>
     u32 \<Rightarrow> u64 \<Rightarrow> attr \<Rightarrow> 'srv \<Rightarrow> 'srv" where
  "smain_table reg1 L W i0 l0 a0 server =
     (let server = reg1 server rpc_get (handler_1 L (get_ull W) (put_str W) l0 [] meth_get);
          server = reg1 server rpc_getattr
                     (handler_1 L (get_ull W) (put_attr (put_uint W)) l0 a0 meth_getattr);
          server = reg1 server rpc_put
                     (handler_2 L (get_ull W) (get_str W) (put_int W) l0 [] i0 meth_put);
          server = reg1 server rpc_remove (handler_1 L (get_ull W) (put_int W) l0 i0 meth_remove)
      in server)"

definition extent_smain ::
    "('srv \<Rightarrow> u32 \<Rightarrow> extent_server handler \<Rightarrow> 'srv) \<Rightarrow> extent_server rpc_lib \<Rightarrow> wire \<Rightarrow>
     u32 \<Rightarrow> u64 \<Rightarrow> attr \<Rightarrow> (int \<Rightarrow> int \<Rightarrow> 'srv) \<Rightarrow> (byte list \<Rightarrow> int) \<Rightarrow>
     byte list list \<Rightarrow> byte list option \<Rightarrow> u32 \<Rightarrow> env \<Rightarrow> ('srv \<times> extent_server) result" where
  "extent_smain reg1 L W i0 l0 a0 new_server c_atoi argv count_env static_inum e =
     (if length argv \<noteq> 2 then Inl Exited
      else let count = (case count_env of None \<Rightarrow> 0 | Some s \<Rightarrow> c_atoi s);
               server = new_server (c_atoi (argv ! 1)) count
           in andThen (extent_server_new static_inum e) (\<lambda>ls.
              Inr (smain_table reg1 L W i0 l0 a0 server, ls)))"

section \<open>Calls to the server\<close>

text \<open>What the library's operators promise.\<close>

record wire_enc =
  enc_i :: "u32 \<Rightarrow> byte list"
  enc_u :: "u32 \<Rightarrow> byte list"
  enc_l :: "u64 \<Rightarrow> byte list"
  enc_s :: "byte list \<Rightarrow> byte list"

definition str_ok :: "byte list \<Rightarrow> bool" where
  "str_ok s \<longleftrightarrow> length s < 2 ^ 31"

definition wire_spec :: "wire \<Rightarrow> wire_enc \<Rightarrow> bool" where
  "wire_spec W E \<longleftrightarrow>
     (\<forall>z. codec (\<lambda>_. True) (enc_i E) (put_int W) (get_int W) z) \<and>
     (\<forall>z. codec (\<lambda>_. True) (enc_u E) (put_uint W) (get_uint W) z) \<and>
     (\<forall>z. codec (\<lambda>_. True) (enc_l E) (put_ull W) (get_ull W) z) \<and>
     (\<forall>z. codec str_ok (enc_s E) (put_str W) (get_str W) z) \<and>
     (\<forall>n. length (enc_i E n) \<le> 8) \<and> (\<forall>n. length (enc_u E n) \<le> 8) \<and>
     (\<forall>n. length (enc_l E n) \<le> 8) \<and> (\<forall>s. length (enc_s E s) \<le> length s + 8)"

lemma wire_specD:
  assumes "wire_spec W E"
  shows "codec (\<lambda>_. True) (enc_i E) (put_int W) (get_int W) i"
    "codec (\<lambda>_. True) (enc_u E) (put_uint W) (get_uint W) i"
    "codec (\<lambda>_. True) (enc_l E) (put_ull W) (get_ull W) l"
    "codec str_ok (enc_s E) (put_str W) (get_str W) s"
    "length (enc_i E n) \<le> 8" "length (enc_u E n) \<le> 8" "length (enc_l E k) \<le> 8"
    "length (enc_s E s) \<le> length s + 8"
  using assms by (simp_all add: wire_spec_def)

definition table_spec ::
    "((u32 \<rightharpoonup> extent_server handler) \<Rightarrow> u32 \<Rightarrow> extent_server handler \<Rightarrow> (u32 \<rightharpoonup> extent_server handler)) \<Rightarrow> bool" where
  "table_spec reg1 \<longleftrightarrow> (\<forall>t p h. reg1 t p h = t(p \<mapsto> h))"

lemma smain_table_lookup:
  assumes "table_spec reg1"
  shows "smain_table reg1 L W i0 l0 a0 t rpc_get =
      Some (handler_1 L (get_ull W) (put_str W) l0 [] meth_get)"
    "smain_table reg1 L W i0 l0 a0 t rpc_getattr =
      Some (handler_1 L (get_ull W) (put_attr (put_uint W)) l0 a0 meth_getattr)"
    "smain_table reg1 L W i0 l0 a0 t rpc_put =
      Some (handler_1 L (get_pair (get_ull W) (get_str W)) (put_int W) (l0, []) i0
        (\<lambda>w (eid, buf). meth_put w eid buf))"
    "smain_table reg1 L W i0 l0 a0 t rpc_remove =
      Some (handler_1 L (get_ull W) (put_int W) l0 i0 meth_remove)"
  using assms
  by (simp_all add: table_spec_def smain_table_def tupled rpc_put_def rpc_get_def rpc_getattr_def
      rpc_remove_def)

text \<open>Every message of the protocol is far smaller than \<open>INT_MAX\<close>.\<close>

lemma header_small: "RPC_HEADER_SZ ck \<le> 32"
  by (cases ck) (simp_all add: header_layout)

lemma wire_fits:
  assumes E: "wire_spec W E" and s: "length s \<le> MAXFILE * BLOCK_SIZE"
  shows "str_ok s" "msg_fits ck (enc_i E n)" "msg_fits ck (enc_l E k)" "msg_fits ck (enc_s E s)"
    "msg_fits ck (enc_l E k @ enc_s E s)" "msg_fits ck (enc_attr (enc_u E) a)"
proof -
  note h = header_small [of ck] and e = wire_specD(5-8) [OF E]
  show "str_ok s" using s by (simp add: str_ok_def layout)
  show "msg_fits ck (enc_i E n)" "msg_fits ck (enc_l E k)"
    using h e(1) [of n] e(3) [of k] by (simp_all add: msg_fits_def INT_MAX_def)
  show "msg_fits ck (enc_s E s)" "msg_fits ck (enc_l E k @ enc_s E s)"
    using h e(3) [of k] e(4) [of s] s by (simp_all add: msg_fits_def INT_MAX_def layout)
  show "msg_fits ck (enc_attr (enc_u E) a)"
    using h e(2) [of "a_type a"] e(2) [of "a_atime a"] e(2) [of "a_mtime a"] e(2) [of "a_ctime a"]
      e(2) [of "a_size a"] by (simp add: msg_fits_def INT_MAX_def enc_attr_def)
qed

text \<open>The server on its own and as the client stub owns it.\<close>

abbreviation es_ok :: "extent_server \<Rightarrow> bool" where
  "es_ok es \<equiv> ec_ok \<lparr>ec_es = es\<rparr>"

abbreviation es_store :: "extent_server \<Rightarrow> store" where
  "es_store es \<equiv> ec_store \<lparr>ec_es = es\<rparr>"

lemma meth_get_ok:
  assumes "es_ok es" "st_files (es_store es) (extent_inum i) = Some (ty, d)"
  shows "\<exists>es'. meth_get es i buf = Inr (0, d, es') \<and> es_ok es' \<and> es_store es' = es_store es"
  using ec.get_ok [OF assms] by (auto simp: ec_get_def meth_get_def andThen_eq_Inr_iff)

lemma meth_getattr_ok:
  assumes "es_ok es" "st_files (es_store es) (extent_inum i) = Some (ty, d)"
  shows "\<exists>a. meth_getattr es i a0 = Inr (0, a, es) \<and> a_type a = scast ty \<and> a_size a = word_of_nat (length d)"
  using ec.attrs_ok [OF assms] by (auto simp: ec_getattr_def meth_getattr_def)

lemma meth_put_ok:
  assumes "es_ok es" "can_put (es_store es) (extent_inum i) d"
  shows "\<exists>es'. meth_put es i d r = Inr (0, r, es') \<and> es_ok es' \<and>
    es_store es' = store_put (es_store es) (extent_inum i) d"
  using ec.put_ok [OF assms] by (auto simp: ec_put_def meth_put_def andThen_eq_Inr_iff)

lemma meth_remove_ok:
  assumes "es_ok es" "st_files (es_store es) (extent_inum i) \<noteq> None"
  shows "\<exists>es'. meth_remove es i r = Inr (0, r, es') \<and> es_ok es' \<and>
    es_store es' = store_remove (es_store es) (extent_inum i)"
  using ec.remove_ok [OF assms] by (auto simp: ec_remove_def meth_remove_def andThen_eq_Inr_iff)

end
