(* ===== verification/Loopback.thy ===== *)
theory Loopback
  imports Headers Extent_Wire
begin

text \<open>
  A transport inside one process, as an instance of what the RPC library promises:
  \<open>call1\<close> runs the handler on a copy of the message and hands its reply back.
\<close>

definition loop_call1 ::
    "bool \<Rightarrow> (u32 \<rightharpoonup> 'w handler) \<Rightarrow> 'w \<Rightarrow> u32 \<Rightarrow> marshall \<Rightarrow> unmarshall \<Rightarrow> int \<Rightarrow> int \<times> unmarshall \<times> 'w" where
  "loop_call1 ck procs w proc req u tmo =
     (case procs proc of
        None \<Rightarrow> (timeout_failure, u, w)
      | Some h \<Rightarrow>
          (case unmarshall_content ck (\<lambda>_. 0) (get_content ck req) of
             Inl _ \<Rightarrow> (timeout_failure, u, w)
           | Inr args \<Rightarrow>
               (case h w args (marshall_new ck (\<lambda>_. 0)) of
                  Inl _ \<Rightarrow> (timeout_failure, u, w)
                | Inr (b, _, ret, w') \<Rightarrow>
                    (case take_content ck (\<lambda>_. 0) u (get_content ck ret) of
                       Inl _ \<Rightarrow> (timeout_failure, u, w')
                     | Inr u \<Rightarrow> (b, u, w')))))"

definition loop_okdone :: "unmarshall \<Rightarrow> bool" where
  "loop_okdone u \<longleftrightarrow> u_ok u \<and> u_ind u = u_sz u"

definition loop_lib :: "bool \<Rightarrow> (u32 \<rightharpoonup> 'w handler) \<Rightarrow> 'w rpc_lib" where
  "loop_lib ck procs =
     \<lparr>lib_ck = ck, lib_mem = (\<lambda>_. 0), lib_okdone = loop_okdone, lib_call1 = loop_call1 ck procs\<rparr>"

lemma loop_lib_simps [simp]:
  "lib_ck (loop_lib ck procs) = ck" "lib_okdone (loop_lib ck procs) = loop_okdone"
  "lib_call1 (loop_lib ck procs) = loop_call1 ck procs" "lib_mem (loop_lib ck procs) = (\<lambda>_. 0)"
  by (simp_all add: loop_lib_def)

lemma loop_okdone_spec: "okdone_spec (loop_lib ck procs)"
  by (simp add: okdone_spec_def loop_okdone_def)

lemma content_small: "m_wf ck m \<Longrightarrow> RPC_HEADER_SZ ck + length (get_content ck m) \<le> INT_MAX"
  by (auto simp: m_wf_def get_content_def min_def)

lemma loop_at_most_once: "at_most_once (loop_lib ck procs) procs"
  unfolding at_most_once_def
proof (intro allI impI)
  fix w proc h req u tmo rc u' w'
  assume h: "procs proc = Some h" and req: "m_wf (lib_ck (loop_lib ck procs)) req"
    and c: "lib_call1 (loop_lib ck procs) w proc req u tmo = (rc, u', w')"
  obtain args where args: "unmarshall_content ck (\<lambda>_. 0) (get_content ck req) = Inr args"
      "holds ck (get_content ck req) args"
    using take_content_holds [OF content_small, of ck req "\<lambda>_. 0" unmarshall_new] req
    by (auto simp: unmarshall_content_def)
  show "rc < 0 \<and> w' = w \<or>
      (\<exists>args mem. holds (lib_ck (loop_lib ck procs)) (get_content (lib_ck (loop_lib ck procs)) req) args \<and>
         (case h w args (marshall_new (lib_ck (loop_lib ck procs)) mem) of
            Inl _ \<Rightarrow> rc < 0
          | Inr (b, _, ret, w1) \<Rightarrow>
              w' = w1 \<and> (rc < 0 \<or> rc = b \<and> (m_wf (lib_ck (loop_lib ck procs)) ret \<longrightarrow>
                holds (lib_ck (loop_lib ck procs)) (get_content (lib_ck (loop_lib ck procs)) ret) u'))))"
  proof (cases "h w args (marshall_new ck (\<lambda>_. 0))")
    case (Inl e)
    with c show ?thesis by (simp add: loop_call1_def h args timeout_failure_def)
  next
    case (Inr p)
    then obtain b a' ret w1 where p: "h w args (marshall_new ck (\<lambda>_. 0)) = Inr (b, a', ret, w1)"
      by (metis prod_cases4)
    have "w' = w1 \<and> (rc < 0 \<or> rc = b \<and> (m_wf ck ret \<longrightarrow> holds ck (get_content ck ret) u'))"
    proof (cases "take_content ck (\<lambda>_. 0) u (get_content ck ret)")
      case (Inl e)
      with c show ?thesis by (simp add: loop_call1_def h args p timeout_failure_def)
    next
      case (Inr v)
      moreover have "holds ck (get_content ck ret) v" if "m_wf ck ret"
        using take_content_holds [OF content_small [OF that], of "\<lambda>_. 0" u] Inr by simp
      ultimately show ?thesis using c by (auto simp: loop_call1_def h args p)
    qed
    with p args(2) show ?thesis
      by (intro disjI2 exI [of _ args] exI [of _ "\<lambda>_. 0"]) simp
  qed
qed

text \<open>The handlers depend on the library through \<open>okdone\<close> only.\<close>

lemma handler_1_lib:
  "lib_okdone L = lib_okdone L' \<Longrightarrow> handler_1 L g p z r meth = handler_1 L' g p z r meth"
  by (simp add: handler_1_def fun_eq_iff)

text \<open>The plain byte codec for the operators of the library.\<close>

definition loop_wire :: wire where
  "loop_wire = \<lparr>put_int = put_bytes u32_bytes, get_int = get_bytes dec_u32,
     put_uint = put_bytes u32_bytes, get_uint = get_bytes dec_u32,
     put_ull = put_bytes enc_u64, get_ull = get_bytes dec_u64,
     put_str = put_bytes enc_string, get_str = get_bytes dec_string\<rparr>"

definition loop_enc :: wire_enc where
  "loop_enc = \<lparr>enc_i = u32_bytes, enc_u = u32_bytes, enc_l = enc_u64, enc_s = enc_string\<rparr>"

lemma loop_int_codec: "int_codec u32_bytes (put_bytes u32_bytes) (get_bytes dec_u32)"
  by (simp add: int_codec_def codec_u32)

lemma loop_wire_spec: "wire_spec loop_wire loop_enc"
proof -
  have "codec str_ok enc_string (put_bytes enc_string) (get_bytes dec_string) z" for z
    by (rule codec_bytes) (simp add: dec_string_def enc_string_def unat_u32_of_nat str_ok_def)
  then show ?thesis
    by (simp add: wire_spec_def loop_wire_def loop_enc_def codec_u32 codec_u64 enc_u64_def enc_string_def)
qed

text \<open>The extent server behind the loop.\<close>

definition map_reg1 :: "(u32 \<rightharpoonup> 'w handler) \<Rightarrow> u32 \<Rightarrow> 'w handler \<Rightarrow> (u32 \<rightharpoonup> 'w handler)" where
  "map_reg1 t p h = t(p \<mapsto> h)"

definition loop_table :: "u32 \<rightharpoonup> extent_server handler" where
  "loop_table = smain_table map_reg1 (loop_lib False Map.empty) loop_wire 0 0 zero_attr Map.empty"

definition loop_net :: "extent_server rpc_lib" where
  "loop_net = loop_lib False loop_table"

lemma smain_table_lib:
  assumes "lib_okdone L = lib_okdone L'"
  shows "smain_table reg1 L W i0 l0 a0 t = smain_table reg1 L' W i0 l0 a0 t"
  unfolding smain_table_def tupled handler_1_lib [OF assms] ..

lemma loop_table_eq: "loop_table = smain_table map_reg1 loop_net loop_wire 0 0 zero_attr Map.empty"
  unfolding loop_table_def by (rule smain_table_lib) (simp add: loop_net_def)

lemma loop_net:
  "at_most_once loop_net loop_table" "okdone_spec loop_net" "table_spec map_reg1" "lib_ck loop_net = False"
  by (simp_all add: loop_net_def loop_at_most_once loop_okdone_spec table_spec_def map_reg1_def)

end
