(* ===== verification/Demo.thy ===== *)
theory Demo
  imports Fs_Refine
begin

text \<open>
  Concrete states for the witnesses: a new file system, and the same file system
  after a file \<open>a\<close> has been created in its root directory.
\<close>

definition demo_env :: env where
  "demo_env = \<lparr>env_clock = (\<lambda>n. word_of_nat n), env_junk = (\<lambda>_ _. 0), env_tick = 0\<rparr>"

definition demo_lib :: fuse_lib where
  "demo_lib = \<lparr>SET_ATTR_SIZE = 8, SET_ATTR_ATIME = 16, SET_ATTR_MTIME = 32,
     fuse_dirent_size = (\<lambda>n. 24 + n), fuse_add_dirent = (\<lambda>name ino off. replicate 24 0 @ name)\<rparr>"

definition demo_store :: store where
  "demo_store = \<lparr>st_files = [1 \<mapsto> (DIR, [])], st_last = 1, st_room = 24576\<rparr>"

definition demo_name :: "byte list" where
  "demo_name = [97]"

definition demo_store_a :: store where
  "demo_store_a = \<lparr>st_files = [1 \<mapsto> (DIR, [97, 47, 50, 47]), 2 \<mapsto> (REG, [])], st_last = 2, st_room = 24575\<rparr>"

lemma demo_inum [simp]: "extent_inum 1 = 1" "extent_inum 2 = 2"
  by (simp_all add: extent_inum_def)

lemma demo_symlink_type [simp]: "symlink_type 3"
  by (simp add: symlink_type_def)

lemma blocks_small [simp]: "d \<noteq> [] \<Longrightarrow> length d \<le> 512 \<Longrightarrow> file_blocks d = 1"
proof -
  assume "d \<noteq> []" "length d \<le> 512"
  then have "nblk (int (length d)) = 1"
    by (cases d) (auto simp: nblk_def layout intro!: div_pos_geq)
  then show "file_blocks d = 1" by (simp add: file_blocks_def blocks_needed_def layout)
qed

lemma demo_entry: "entry_bytes demo_name (next_inum demo_store) = [97, 47, 50, 47]"
  by (simp add: entry_bytes_def demo_name_def next_inum_def demo_store_def filename_def dec.simps)

lemma demo_fits: "link_fits demo_store demo_store 1 demo_name"
proof -
  have "can_put demo_store 1 [97, 47, 50, 47]"
    by (simp add: can_put_def demo_store_def layout)
  moreover have "contents demo_store 1 = []" by (simp add: contents_def demo_store_def)
  ultimately show ?thesis
    by (simp add: link_fits_def demo_entry)
      (simp add: name_ok_def has_type_def can_create_def demo_store_def demo_name_def layout)
qed

lemma demo_entries: "entries demo_store 1 = []"
  by (rule entries_eq) (simp add: dir_at_def demo_store_def)

lemma demo_link: "fs_link T_FILE demo_store 1 demo_name = demo_store_a"
proof -
  have "dir_find demo_name [] = None" by (simp add: dir_find_def)
  then have "fs_link T_FILE demo_store 1 demo_name =
      store_put (store_create demo_store T_FILE) 1 [97, 47, 50, 47]"
    by (simp add: fs_link_def demo_entries demo_entry)
  also have "\<dots> = demo_store_a"
    by (rule store_eqI) (auto simp: store_put_def store_create_def demo_store_def demo_store_a_def fun_eq_iff)
  finally show ?thesis .
qed

lemma demo_new:
  obtains y where "yfs_client_new 0 demo_env = Inr y" "fs_ok y" "y_store y = demo_store"
    "reachable L tsym demo_env y"
  using new_fs_ok [of demo_env] reachable.start unfolding demo_store_def by metis

lemma demo_created:
  obtains y rep y' where "yfs_client_new 0 demo_env = Inr y"
    "dispatch demo_lib 3 y (ReqCreate 1 demo_name) = Inr (rep, y')"
    "fs_ok y'" "y_store y' = demo_store_a" "reachable demo_lib 3 demo_env y'"
proof -
  obtain y where y: "yfs_client_new 0 demo_env = Inr y" "fs_ok y" "y_store y = demo_store"
      "reachable demo_lib 3 demo_env y"
    by (rule demo_new)
  have adm: "admissible demo_lib 3 (y_store y) (ReqCreate 1 demo_name)"
    using link_make_fits [OF demo_fits] by (simp add: y(3))
  from dispatch_implements [OF y(2) demo_symlink_type this] obtain rep y' where
    y': "dispatch demo_lib 3 y (ReqCreate 1 demo_name) = Inr (rep, y')" "fs_ok y'"
      "y_store y' = fs_apply demo_lib 3 (y_store y) (ReqCreate 1 demo_name)"
    unfolding implements_def by blast
  have "y_store y' = demo_store_a" using y'(3) by (simp add: y(3) demo_link)
  moreover have "reachable demo_lib 3 demo_env y'"
    by (rule reachable.serve [OF y(4) adm y'(1)])
  ultimately show thesis using that y(1) y'(1,2) by blast
qed

lemma demo_dir: "dir_at demo_store 1 []"
  by (simp add: dir_at_def demo_store_def)

lemma demo_dir_a: "dir_at demo_store_a 1 [\<lparr>d_name = demo_name, d_inum = 2\<rparr>]"
  by (simp add: dir_at_def demo_store_a_def entry_bytes_def filename_def dec.simps demo_name_def
      entry_ok_def name_ok_def)

lemma demo_files_a [simp]:
  "st_files demo_store_a 2 = Some (REG, [])" "contents demo_store_a 2 = []"
  "has_type demo_store_a 2 REG"
  by (simp_all add: demo_store_a_def contents_def has_type_def)

lemma demo_put_a:
  assumes "d \<noteq> []" "length d \<le> 512"
  shows "can_put demo_store_a 2 d"
  using assms by (simp add: can_put_def demo_store_a_def layout)

end
