(* ===== verification/Rpc_Arity.thy ===== *)
theory Rpc_Arity
  imports Rpc_Spec
begin

text \<open>
  Calls with any number of arguments of handlers for any number of arguments: the eight
  stubs of the client and the seven handlers of the server as sequences of operators,
  and what a handler sees of a message with too many or too few values.
\<close>

section \<open>The stubs and the handlers by the number of their arguments\<close>

text \<open>The call with \<open>j\<close> arguments is number \<open>j\<close>; the handler for \<open>k + 1\<close> arguments is number \<open>k\<close>.\<close>

definition stub_calls ::
    "'w rpc_lib \<Rightarrow> 'a put \<Rightarrow> 'b put \<Rightarrow> 'c put \<Rightarrow> 'd put \<Rightarrow> 'e put \<Rightarrow> 'f put \<Rightarrow> 'g put \<Rightarrow> 'r get \<Rightarrow> 'w \<Rightarrow> u32 \<Rightarrow>
     'a \<Rightarrow> 'b \<Rightarrow> 'c \<Rightarrow> 'd \<Rightarrow> 'e \<Rightarrow> 'f \<Rightarrow> 'g \<Rightarrow> 'r \<Rightarrow> int \<Rightarrow> (int \<times> 'r \<times> 'w) result list" where
  "stub_calls L pa pb pc pd pe pf pg gr w proc a b c d e f g r tmo =
     [call_0 L gr w proc r tmo,
      call_1 L pa gr w proc a r tmo,
      call_2 L pa pb gr w proc a b r tmo,
      call_3 L pa pb pc gr w proc a b c r tmo,
      call_4 L pa pb pc pd gr w proc a b c d r tmo,
      call_5 L pa pb pc pd pe gr w proc a b c d e r tmo,
      call_6 L pa pb pc pd pe pf gr w proc a b c d e f r tmo,
      call_7 L pa pb pc pd pe pf pg gr w proc a b c d e f g r tmo]"

definition stub_handlers where
  "stub_handlers L ga gb gc gd ge gf gg pr za zb zc zd ze zf zg r0 m1 m2 m3 m4 m5 m6 m7 =
     [handler_1 L ga pr za r0 m1,
      handler_2 L ga gb pr za zb r0 m2,
      handler_3 L ga gb gc pr za zb zc r0 m3,
      handler_4 L ga gb gc gd pr za zb zc zd r0 m4,
      handler_5 L ga gb gc gd ge pr za zb zc zd ze r0 m5,
      handler_6 L ga gb gc gd ge gf pr za zb zc zd ze zf r0 m6,
      handler_7 L ga gb gc gd ge gf gg pr za zb zc zd ze zf zg r0 m7]"

text \<open>Their operators \<open><<\<close> and \<open>>>\<close> in sequence.\<close>

definition stub_puts where
  "stub_puts pa pb pc pd pe pf pg a b c d e f g =
     [\<lambda>m. pa m a, \<lambda>m. pb m b, \<lambda>m. pc m c, \<lambda>m. pd m d, \<lambda>m. pe m e, \<lambda>m. pf m f, \<lambda>m. (pg m g :: marshall)]"

definition stub_gets where
  "stub_gets ga gb gc gd ge gf gg za zb zc zd ze zf zg =
     [\<lambda>u. snd (ga u za), \<lambda>u. snd (gb u zb), \<lambda>u. snd (gc u zc), \<lambda>u. snd (gd u zd), \<lambda>u. snd (ge u ze),
      \<lambda>u. snd (gf u zf), \<lambda>u. (snd (gg u zg) :: unmarshall)]"

lemma stub_calls_nth:
  assumes "j < 8"
  shows "stub_calls L pa pb pc pd pe pf pg gr w proc a b c d e f g r tmo ! j =
    call_m L gr w proc (fold id (take j (stub_puts pa pb pc pd pe pf pg a b c d e f g))
      (marshall_new (lib_ck L) (lib_mem L))) r tmo"
proof -
  have "j = 0 \<or> j = 1 \<or> j = 2 \<or> j = 3 \<or> j = 4 \<or> j = 5 \<or> j = 6 \<or> j = 7" using assms by arith
  then show ?thesis
    by (elim disjE) (simp_all add: stub_calls_def stub_puts_def call_0_def call_1_def call_2_def call_3_def
        call_4_def call_5_def call_6_def call_7_def)
qed

lemma stub_handlers_nth:
  assumes "k < 7"
    and "\<not> lib_okdone L (fold id (take (Suc k) (stub_gets ga gb gc gd ge gf gg za zb zc zd ze zf zg)) args)"
  shows "\<exists>args'. (stub_handlers L ga gb gc gd ge gf gg pr za zb zc zd ze zf zg r0 m1 m2 m3 m4 m5 m6 m7 ! k) w args ret =
    Inr (unmarshal_args_failure, args', ret, w)"
proof -
  have "k = 0 \<or> k = 1 \<or> k = 2 \<or> k = 3 \<or> k = 4 \<or> k = 5 \<or> k = 6" using assms(1) by arith
  then show ?thesis
    using assms(2)
    by (elim disjE) (simp_all add: stub_handlers_def stub_gets_def handler_1_def handler_2_def handler_3_def
        handler_4_def handler_5_def handler_6_def handler_7_def split_beta)
qed

section \<open>Sequences of operators\<close>

definition writes_as :: "bool \<Rightarrow> (marshall \<Rightarrow> marshall) \<Rightarrow> byte list \<Rightarrow> bool" where
  "writes_as ck p e \<longleftrightarrow> (\<forall>m. m_wf ck m \<longrightarrow> m_ind m + length e \<le> INT_MAX \<longrightarrow>
     m_wf ck (p m) \<and> get_content ck (p m) = get_content ck m @ e \<and> m_ind (p m) = m_ind m + length e)"

definition reads_as :: "(unmarshall \<Rightarrow> unmarshall) \<Rightarrow> byte list \<Rightarrow> bool" where
  "reads_as f e \<longleftrightarrow> (\<forall>u. upcoming e u \<longrightarrow> f u = skip (length e) u)"

text \<open>Reading at the end of a message fails, and a message that has failed stays so.\<close>

definition stops :: "(unmarshall \<Rightarrow> unmarshall) \<Rightarrow> bool" where
  "stops f \<longleftrightarrow> (\<forall>u. u_ind u = u_sz u \<or> \<not> u_ok u \<longrightarrow> \<not> u_ok (f u))"

definition fails_at_end :: "'c get \<Rightarrow> 'c \<Rightarrow> bool" where
  "fails_at_end get z \<longleftrightarrow> (\<forall>u. u_ind u = u_sz u \<or> \<not> u_ok u \<longrightarrow> \<not> u_ok (snd (get u z)))"

lemma writes_all:
  "list_all2 (writes_as ck) ps es \<Longrightarrow> m_wf ck m \<Longrightarrow> m_ind m + length (concat es) \<le> INT_MAX \<Longrightarrow>
   m_wf ck (fold id ps m) \<and> get_content ck (fold id ps m) = get_content ck m @ concat es"
proof (induction arbitrary: m rule: list_all2_induct)
  case (Cons p ps e es)
  then have "m_wf ck (p m)" "get_content ck (p m) = get_content ck m @ e" "m_ind (p m) = m_ind m + length e"
    by (auto simp: writes_as_def)
  then show ?case using Cons.IH [of "p m"] Cons.prems(2) by (simp add: add.assoc)
qed simp

lemma reads_all:
  "list_all2 reads_as fs es \<Longrightarrow> upcoming (concat es) u \<Longrightarrow> fold id fs u = skip (length (concat es)) u"
proof (induction arbitrary: u rule: list_all2_induct)
  case (Cons f fs e es)
  then have "f u = skip (length e) u" "upcoming (concat es) (skip (length e) u)"
    by (auto simp: reads_as_def message)
  then show ?case using Cons.IH [of "skip (length e) u"] by simp
qed simp

lemma stops_all: "list_all stops fs \<Longrightarrow> \<not> u_ok u \<Longrightarrow> \<not> u_ok (fold id fs u)"
  by (induction fs arbitrary: u) (auto simp: stops_def)

lemma stops_at_end: "list_all stops fs \<Longrightarrow> fs \<noteq> [] \<Longrightarrow> u_ind u = u_sz u \<Longrightarrow> \<not> u_ok (fold id fs u)"
  using stops_all [of "tl fs" "hd fs u"] by (cases fs) (simp_all add: stops_def)

text \<open>A message with \<open>j\<close> of the values, read by a handler that wants \<open>n\<close>.\<close>

lemma wrong_number:
  assumes h: "holds ck (concat (take j es)) args" and r: "list_all2 reads_as fs es"
    and ne: "\<forall>e \<in> set es. e \<noteq> []" and j: "j \<le> length es" "n \<le> length es" "j \<noteq> n"
    and s: "j < n \<Longrightarrow> list_all stops fs" and u: "u = fold id (take n fs) args"
  shows "\<not> (u_ok u \<and> u_ind u = u_sz u)"
proof (cases "n < j")
  case True
  let ?a = "concat (take n es)" and ?b = "concat (take (j - n) (drop n es))"
  have e: "concat (take j es) = ?a @ ?b"
    using True take_add [of n "j - n" es] by simp
  have "take (j - n) (drop n es) \<noteq> []" "set (take (j - n) (drop n es)) \<subseteq> set es"
    using True j by (auto dest!: in_set_takeD in_set_dropD)
  then have b: "?b \<noteq> []" using ne by (cases "take (j - n) (drop n es)") auto
  have "upcoming ?a args" using h by (simp add: holds_def e message)
  then have "u = skip (length ?a) args"
    unfolding u by (intro reads_all list_all2_takeI r)
  then show ?thesis using h b by (simp add: holds_def e)
next
  case False
  then have jn: "j < n" using j(3) by simp
  have "upcoming (concat (take j es)) args" using h by (simp add: holds_def)
  then have "fold id (take j fs) args = skip (length (concat (take j es))) args"
    by (intro reads_all list_all2_takeI r)
  moreover have "take n fs = take j fs @ take (n - j) (drop j fs)"
    using jn take_add [of j "n - j" fs] by simp
  ultimately have "u = fold id (take (n - j) (drop j fs)) (skip (length (concat (take j es))) args)"
    by (simp add: u)
  moreover have "list_all stops (take (n - j) (drop j fs))"
    using s [OF jn] by (auto simp: list_all_iff dest!: in_set_takeD in_set_dropD)
  moreover have "take (n - j) (drop j fs) \<noteq> []"
    using jn j(2) list_all2_lengthD [OF r] by simp
  ultimately show ?thesis using stops_at_end holds_done [OF h] by blast
qed

section \<open>The call\<close>

text \<open>A call whose message the handler refuses.\<close>

lemma stub_refused:
  assumes L: "at_most_once L procs" and h: "procs proc = Some h" and m: "m_wf (lib_ck L) req"
    and run: "\<And>args ret. holds (lib_ck L) (get_content (lib_ck L) req) args \<Longrightarrow>
      \<exists>args'. h w args ret = Inr (unmarshal_args_failure, args', ret, w)"
  shows "\<exists>rc. call_m L gr w proc req r tmo = Inr (rc, r, w) \<and> rc < 0"
proof -
  obtain rc u w' where c: "lib_call1 L w proc req unmarshall_new tmo = (rc, u, w')"
    by (metis prod_cases3)
  have "rc < 0 \<and> w' = w"
  proof (rule at_most_onceE [OF L h m c])
    fix args mem e
    assume "holds (lib_ck L) (get_content (lib_ck L) req) args" "h w args (marshall_new (lib_ck L) mem) = Inl e"
    then show ?thesis using run [of args "marshall_new (lib_ck L) mem"] by simp
  next
    fix args mem b args' ret
    assume "holds (lib_ck L) (get_content (lib_ck L) req) args"
      "h w args (marshall_new (lib_ck L) mem) = Inr (b, args', ret, w')"
      "rc < 0 \<or> rc = b \<and> (m_wf (lib_ck L) ret \<longrightarrow> holds (lib_ck L) (get_content (lib_ck L) ret) u)"
    then show ?thesis
      using run [of args "marshall_new (lib_ck L) mem"] by (auto simp: unmarshal_args_failure_def)
  qed simp
  then show ?thesis by (simp add: call_m_def c)
qed

lemma codec_writes: "codec v e p g z \<Longrightarrow> v x \<Longrightarrow> writes_as ck (\<lambda>m. p m x) (e x)"
  by (simp add: writes_as_def codec.put_content)

lemma codec_reads: "codec v e p g z \<Longrightarrow> v x \<Longrightarrow> reads_as (\<lambda>u. snd (g u z)) (e x)"
  by (simp add: reads_as_def codec.get_law)

lemma fails_stops: "fails_at_end g z \<Longrightarrow> stops (\<lambda>u. snd (g u z))"
  by (simp add: fails_at_end_def stops_def)

end
