(* ===== verification/Wire_Properties.thy ===== *)
theory Wire_Properties
  imports Loopback Demo Rpc_Arity
begin

text \<open>
  The properties of the message buffers and of the call stubs, and of the extent
  server behind them.
\<close>

section \<open>Messages\<close>

text \<open>
  C27. A header packed into a message comes out of the receiver's end as it went in,
  for requests and for replies and with or without checksums; the content behind
  the header, the position of the head and the bytes left for the size and the
  checksum stay as they were.
\<close>

theorem header_roundtrip:
  assumes "int_codec e pack unpack" "m_wf ck m"
  shows "(\<exists>m1 b sz u. pack_req_header ck pack m h = m1 \<and> m_wf ck m1 \<and> m_ind m1 = m_ind m \<and>
      fst (take_buf m1) = (b, sz) \<and> take (header_start ck) b = take (header_start ck) (m_buf m) \<and>
      unpack_req_header ck unpack (unmarshall_buf b sz) h0 = (h, u) \<and> holds ck (get_content ck m) u) \<and>
    (\<exists>m1 b sz u. pack_reply_header ck pack m rh = m1 \<and> m_wf ck m1 \<and> m_ind m1 = m_ind m \<and>
      fst (take_buf m1) = (b, sz) \<and> take (header_start ck) b = take (header_start ck) (m_buf m) \<and>
      unpack_reply_header ck unpack (unmarshall_buf b sz) rh0 = (rh, u) \<and> holds ck (get_content ck m) u)"
proof
  obtain m1 where p: "pack_req_header ck pack m h = m1\<lparr>m_ind := m_ind m\<rparr>"
      "appended (enc_req e h) (m\<lparr>m_ind := header_start ck\<rparr>) m1"
      "header_start ck + length (enc_req e h) \<le> RPC_HEADER_SZ ck"
    by (rule pack_req_appended [OF assms])
  note o = overwrite_header [OF p(2) assms(2) p(3)]
  have "upcoming (enc_req e h) ((unmarshall_buf (m_buf m1) (m_ind m))\<lparr>u_ind := header_start ck\<rparr>)"
    using upcoming_header [OF o(1), of "enc_req e h" "header_start ck"] o(3) p(3) by simp
  note u = unpack_req [OF assms(1) this, of h0]
  show "\<exists>m1 b sz u. pack_req_header ck pack m h = m1 \<and> m_wf ck m1 \<and> m_ind m1 = m_ind m \<and>
      fst (take_buf m1) = (b, sz) \<and> take (header_start ck) b = take (header_start ck) (m_buf m) \<and>
      unpack_req_header ck unpack (unmarshall_buf b sz) h0 = (h, u) \<and> holds ck (get_content ck m) u"
    using o u received [OF o(1)] by (simp add: p(1) take_buf_def)
next
  obtain m1 where p: "pack_reply_header ck pack m rh = m1\<lparr>m_ind := m_ind m\<rparr>"
      "appended (enc_reply e rh) (m\<lparr>m_ind := header_start ck\<rparr>) m1"
      "header_start ck + length (enc_reply e rh) \<le> RPC_HEADER_SZ ck"
    by (rule pack_reply_appended [OF assms])
  note o = overwrite_header [OF p(2) assms(2) p(3)]
  have "upcoming (enc_reply e rh) ((unmarshall_buf (m_buf m1) (m_ind m))\<lparr>u_ind := header_start ck\<rparr>)"
    using upcoming_header [OF o(1), of "enc_reply e rh" "header_start ck"] o(3) p(3) by simp
  note u = unpack_reply [OF assms(1) this, of rh0]
  show "\<exists>m1 b sz u. pack_reply_header ck pack m rh = m1 \<and> m_wf ck m1 \<and> m_ind m1 = m_ind m \<and>
      fst (take_buf m1) = (b, sz) \<and> take (header_start ck) b = take (header_start ck) (m_buf m) \<and>
      unpack_reply_header ck unpack (unmarshall_buf b sz) rh0 = (rh, u) \<and> holds ck (get_content ck m) u"
    using o u received [OF o(1)] by (simp add: p(1) take_buf_def)
qed

theorem header_roundtrip_witness:
  "\<exists>m1 b sz u. pack_reply_header True (put_bytes u32_bytes) (marshall_new True (\<lambda>_. 0))
      \<lparr>rp_xid = 7, rp_ret = 3\<rparr> = m1 \<and> fst (take_buf m1) = (b, sz) \<and>
    unpack_reply_header True (get_bytes dec_u32) (unmarshall_buf b sz) \<lparr>rp_xid = 0, rp_ret = 0\<rparr> =
      (\<lparr>rp_xid = 7, rp_ret = 3\<rparr>, u)"
  using header_roundtrip [OF loop_int_codec marshall_new_wf(1) [of True "\<lambda>_. 0"], of undefined undefined
      "\<lparr>rp_xid = 7, rp_ret = 3\<rparr>" "\<lparr>rp_xid = 0, rp_ret = 0\<rparr>"]
  by blast

text \<open>
  C28. A vector or a map written to an empty message is read back on the other side,
  and the message is then used up.  A map replaces what the variable held before; a
  vector is appended to it.
\<close>

theorem containers_roundtrip:
  assumes "\<And>z. codec (\<lambda>_. True) e4 put4 get4 z"
    and "\<And>z. codec va ea pa ga z" "\<And>z. codec vb eb pb gb z"
    and "vector_ok va v" "map_ok va vb d"
    and "msg_fits ck (enc_vector e4 ea v)" "msg_fits ck (enc_vector e4 (\<lambda>x. ea (fst x) @ eb (snd x)) d)"
  shows "(\<exists>u u1. unmarshall_content ck mem (get_content ck (put_vector put4 pa (marshall_new ck mem') v)) = Inr u \<and>
      get_vector get4 n0 ga za u v0 = (v0 @ v, u1) \<and> u_ok u1 \<and> u_ind u1 = u_sz u1) \<and>
    (\<exists>u u1. unmarshall_content ck mem (get_content ck (put_map put4 pa pb (marshall_new ck mem') d)) = Inr u \<and>
      get_map get4 n0 ga za gb zb u d0 = (d, u1) \<and> u_ok u1 \<and> u_ind u1 = u_sz u1)"
proof
  let ?m = "marshall_new ck mem'"
  have c: "get_content ck (put_vector put4 pa ?m v) = enc_vector e4 ea v"
    using codec.put_content(2) [OF codec_vector [OF assms(1,2)], where v = v and m = ?m and ck = ck] assms(4,6)
    by (simp add: msg_fits_def)
  obtain u where u: "unmarshall_content ck mem (enc_vector e4 ea v) = Inr u" "holds ck (enc_vector e4 ea v) u"
    using take_content_holds assms(6) unfolding unmarshall_content_def msg_fits_def by blast
  have up: "upcoming (e4 (word_of_nat (length v))) u"
    "upcoming (concat (map ea v)) (skip (length (e4 (word_of_nat (length v)))) u)"
    using u(2) by (simp_all add: holds_def enc_vector_def message)
  have "get_vector get4 n0 ga za u v0 = (v0 @ v, skip (length (enc_vector e4 ea v)) u)"
    using codec.get_law [OF assms(1) _ up(1)] assms(4)
      get_elems_concat [of va ea ga za v, OF codec.get_law [OF assms(2)] _ up(2)]
    by (simp add: get_vector_def enc_vector_def vector_ok_def unat_u32_of_nat)
  then show "\<exists>u u1. unmarshall_content ck mem (get_content ck (put_vector put4 pa ?m v)) = Inr u \<and>
      get_vector get4 n0 ga za u v0 = (v0 @ v, u1) \<and> u_ok u1 \<and> u_ind u1 = u_sz u1"
    using u holds_done [OF u(2)] by (auto simp: c)
next
  let ?m = "marshall_new ck mem'" and ?e = "enc_vector e4 (\<lambda>x. ea (fst x) @ eb (snd x)) d"
  note cm = codec_map [OF assms(1-3), of n0 za zb d0]
  have c: "get_content ck (put_map put4 pa pb ?m d) = ?e"
    using codec.put_content(2) [OF cm assms(5), where m = ?m and ck = ck] assms(7) by (simp add: msg_fits_def)
  obtain u where u: "unmarshall_content ck mem ?e = Inr u" "holds ck ?e u"
    using take_content_holds assms(7) unfolding unmarshall_content_def msg_fits_def by blast
  have "get_map get4 n0 ga za gb zb u d0 = (d, skip (length ?e) u)"
    using u(2) by (intro codec.get_law [OF cm assms(5)]) (simp add: holds_def)
  then show "\<exists>u u1. unmarshall_content ck mem (get_content ck (put_map put4 pa pb ?m d)) = Inr u \<and>
      get_map get4 n0 ga za gb zb u d0 = (d, u1) \<and> u_ok u1 \<and> u_ind u1 = u_sz u1"
    using u holds_done [OF u(2)] by (auto simp: c)
qed

theorem containers_roundtrip_witness:
  "(\<exists>u u1. unmarshall_content False (\<lambda>_. 0) (get_content False
      (put_vector (put_bytes u32_bytes) (put_bytes u32_bytes) (marshall_new False (\<lambda>_. 0)) [1, 2])) = Inr u \<and>
      get_vector (get_bytes dec_u32) 0 (get_bytes dec_u32) (\<lambda>_. 0) u [9] = ([9, 1, 2], u1)) \<and>
    (\<exists>u u1. unmarshall_content False (\<lambda>_. 0) (get_content False
      (put_map (put_bytes u32_bytes) (put_bytes u32_bytes) (put_bytes enc_string) (marshall_new False (\<lambda>_. 0))
        [(3, [97]), (5, [])])) = Inr u \<and>
      get_map (get_bytes dec_u32) 0 (get_bytes dec_u32) (\<lambda>_. 0) (get_bytes dec_string) (\<lambda>_. []) u [(4, [])] =
        ([(3, [97]), (5, [])], u1))"
proof -
  have "vector_ok (\<lambda>_. True) [1, 2 :: u32]"
    "map_ok (\<lambda>_. True) (\<lambda>s. length s < 2 ^ 32) [(3 :: u32, [97 :: byte]), (5, [])]"
    "msg_fits False (enc_vector u32_bytes u32_bytes [1, 2])"
    "msg_fits False (enc_vector u32_bytes (\<lambda>x. u32_bytes (fst x) @ enc_string (snd x))
       [(3 :: u32, [97 :: byte]), (5, [])])"
    by (simp_all add: vector_ok_def map_ok_def msg_fits_def enc_vector_def enc_string_def INT_MAX_def
        header_layout)
  from containers_roundtrip [OF codec_u32 codec_u32 codec_string this,
      of "\<lambda>_. 0" "\<lambda>_. 0" 0 "\<lambda>_. 0" "[9]" "\<lambda>_. []" "[(4, [])]"]
  show ?thesis by auto
qed

section \<open>Calls\<close>

text \<open>
  C25. A call with seven arguments hands them to the method in their order and the
  reply back to the caller: it returns the code and the reply of the method on the
  state the method left, or a negative code with the caller's variable untouched and
  the method run once or not at all.
\<close>

theorem rpc_seven_arguments:
  assumes "at_most_once L procs" "okdone_spec L"
    and "procs proc = Some (handler_7 L ga gb gc gd ge gf gg pr za zb zc zd ze zf zg r0 meth)"
    and "codec va ea pa ga za" "codec vb eb pb gb zb" "codec vc ec pc gc zc" "codec vd ed pd gd zd"
    and "codec ve ee pe ge ze" "codec vf ef pf gf zf" "codec vg eg pg gg zg" "codec vr er pr gr r"
    and "va a" "vb b" "vc c" "vd d" "ve e" "vf f" "vg g" "vr r'"
    and "msg_fits (lib_ck L) (ea a @ eb b @ ec c @ ed d @ ee e @ ef f @ eg g)" "msg_fits (lib_ck L) (er r')"
    and "meth w a b c d e f g r0 = Inr (rc, r', w1)"
  shows "rpc_outcome w r rc r' w1 (call_7 L pa pb pc pd pe pf pg gr w proc a b c d e f g r tmo)"
  unfolding tupled
  by (rule stub_call [OF assms(1,2) assms(3) [unfolded tupled]
        codec_pair [OF assms(4) codec_pair [OF assms(5) codec_pair [OF assms(6) codec_pair [OF assms(7)
          codec_pair [OF assms(8) codec_pair [OF assms(9,10)]]]]]] assms(11)])
    (use assms(12-) in simp_all)

definition sum7 :: "nat \<Rightarrow> u32 \<Rightarrow> u32 \<Rightarrow> u32 \<Rightarrow> u32 \<Rightarrow> u32 \<Rightarrow> u32 \<Rightarrow> u32 \<Rightarrow> u32 \<Rightarrow> (int \<times> u32 \<times> nat) result" where
  "sum7 w a b c d e f g r = Inr (0, a - b + c - d + e - f + g, Suc w)"

definition sum7_handler :: "nat handler" where
  "sum7_handler =
     handler_7 (loop_lib False Map.empty) (get_bytes dec_u32) (get_bytes dec_u32) (get_bytes dec_u32)
       (get_bytes dec_u32) (get_bytes dec_u32) (get_bytes dec_u32) (get_bytes dec_u32) (put_bytes u32_bytes)
       0 0 0 0 0 0 0 0 sum7"

lemma sum7_handler_lib:
  "lib_okdone L = loop_okdone \<Longrightarrow>
   sum7_handler = handler_7 L (get_bytes dec_u32) (get_bytes dec_u32) (get_bytes dec_u32)
       (get_bytes dec_u32) (get_bytes dec_u32) (get_bytes dec_u32) (get_bytes dec_u32) (put_bytes u32_bytes)
       0 0 0 0 0 0 0 0 sum7"
  unfolding sum7_handler_def tupled by (rule handler_1_lib) simp

theorem rpc_seven_arguments_witness:
  "rpc_outcome 4 9 0 12 5
     (call_7 (loop_lib False [1 \<mapsto> sum7_handler]) (put_bytes u32_bytes) (put_bytes u32_bytes)
       (put_bytes u32_bytes) (put_bytes u32_bytes) (put_bytes u32_bytes) (put_bytes u32_bytes)
       (put_bytes u32_bytes) (get_bytes dec_u32) 4 1 10 9 8 7 6 5 9 9 0)"
proof -
  let ?L = "loop_lib False [1 \<mapsto> sum7_handler]"
  have h: "[1 \<mapsto> sum7_handler] 1 =
      Some (handler_7 ?L (get_bytes dec_u32) (get_bytes dec_u32) (get_bytes dec_u32)
       (get_bytes dec_u32) (get_bytes dec_u32) (get_bytes dec_u32) (get_bytes dec_u32) (put_bytes u32_bytes)
       0 0 0 0 0 0 0 0 sum7)"
    unfolding fun_upd_same by (rule arg_cong [of _ _ Some], rule sum7_handler_lib) simp
  show ?thesis
    by (rule rpc_seven_arguments [OF loop_at_most_once loop_okdone_spec h codec_u32 codec_u32 codec_u32
          codec_u32 codec_u32 codec_u32 codec_u32 codec_u32 TrueI TrueI TrueI TrueI TrueI TrueI TrueI TrueI])
      (simp_all add: msg_fits_def INT_MAX_def header_layout sum7_def)
qed

text \<open>
  C26. Arguments of the wrong number never reach a method.  For every handler, for one to
  seven arguments, and every stub with another number of arguments, none to seven, of
  which those that the two have in common are of the same types: the call returns a negative code and leaves
  the state of the server and the caller's variable as they were.  It is relied on that no
  value is written as an empty sequence of bytes and, where there are too few arguments,
  that reading at the end of a message fails.
\<close>

theorem rpc_wrong_arity:
  assumes "at_most_once L procs" "okdone_spec L" "k < 7" "j < 8" "j \<noteq> k + 1"
    and "procs proc = Some (stub_handlers L ga gb gc gd ge gf gg pr za zb zc zd ze zf zg r0 m1 m2 m3 m4 m5 m6 m7 ! k)"
    and "codec va ea pa ga za" "codec vb eb pb gb zb" "codec vc ec pc gc zc" "codec vd ed pd gd zd"
    and "codec ve ee pe ge ze" "codec vf ef pf gf zf" "codec vg eg pg gg zg"
    and "va a" "vb b" "vc c" "vd d" "ve e" "vf f" "vg g"
    and "[] \<notin> {ea a, eb b, ec c, ed d, ee e, ef f, eg g}"
    and "msg_fits (lib_ck L) (ea a @ eb b @ ec c @ ed d @ ee e @ ef f @ eg g)"
    and "j \<le> k \<Longrightarrow> fails_at_end ga za \<and> fails_at_end gb zb \<and> fails_at_end gc zc \<and> fails_at_end gd zd \<and>
      fails_at_end ge ze \<and> fails_at_end gf zf \<and> fails_at_end gg zg"
  shows "\<exists>rc. stub_calls L pa pb pc pd pe pf pg gr w proc a b c d e f g r tmo ! j = Inr (rc, r, w) \<and> rc < 0"
proof -
  let ?ck = "lib_ck L" and ?new = "marshall_new (lib_ck L) (lib_mem L)"
  let ?es = "[ea a, eb b, ec c, ed d, ee e, ef f, eg g]"
  let ?ps = "stub_puts pa pb pc pd pe pf pg a b c d e f g"
  let ?fs = "stub_gets ga gb gc gd ge gf gg za zb zc zd ze zf zg"
  have "list_all2 (writes_as ?ck) ?ps ?es"
    using assms(7-20) unfolding stub_puts_def by (simp add: codec_writes)
  then have "list_all2 (writes_as ?ck) (take j ?ps) (take j ?es)" by (rule list_all2_takeI)
  moreover have "length (concat (take j ?es)) \<le> length (concat ?es)"
    by (metis append_take_drop_id concat_append length_append le_add1)
  ultimately have req: "m_wf ?ck (fold id (take j ?ps) ?new)"
      "get_content ?ck (fold id (take j ?ps) ?new) = concat (take j ?es)"
    using writes_all [of ?ck "take j ?ps" "take j ?es" ?new] assms(22) by (simp_all add: msg_fits_def)
  have reads: "list_all2 reads_as ?fs ?es"
    using assms(7-20) unfolding stub_gets_def by (simp add: codec_reads)
  have stops: "list_all stops ?fs" if "j < Suc k"
    using assms(23) that by (simp add: stub_gets_def fails_stops)
  show ?thesis
    unfolding stub_calls_nth [OF assms(4)]
  proof (rule stub_refused [OF assms(1,6) req(1)], unfold req(2))
    fix args ret
    assume "holds ?ck (concat (take j ?es)) args"
    then have "\<not> lib_okdone L (fold id (take (Suc k) ?fs) args)"
      using wrong_number [OF _ reads _ _ _ _ stops refl] assms(2-5,21) by (force simp: okdone_spec_def)
    then show "\<exists>args'. (stub_handlers L ga gb gc gd ge gf gg pr za zb zc zd ze zf zg r0 m1 m2 m3 m4 m5 m6 m7 ! k) w args ret =
        Inr (unmarshal_args_failure, args', ret, w)"
      by (rule stub_handlers_nth [OF assms(3)])
  qed
qed

text \<open>A method of three arguments, called with seven and with one.\<close>

abbreviation g32 :: "u32 get" where "g32 \<equiv> get_bytes dec_u32"
abbreviation p32 :: "u32 put" where "p32 \<equiv> put_bytes u32_bytes"

definition three_handler :: "nat rpc_lib \<Rightarrow> nat handler" where
  "three_handler L = stub_handlers L g32 g32 g32 g32 g32 g32 g32 p32 0 0 0 0 0 0 0 0
       (\<lambda>w a r. Inr (0, a, Suc w)) (\<lambda>w a b r. Inr (0, b, Suc w)) (\<lambda>w a b c r. Inr (0, a + b * c, Suc w))
       (\<lambda>w a b c d r. Inr (0, d, Suc w)) (\<lambda>w a b c d e r. Inr (0, e, Suc w))
       (\<lambda>w a b c d e f r. Inr (0, f, Suc w)) sum7 ! 2"

lemma three_handler_lib: "lib_okdone L = lib_okdone L' \<Longrightarrow> three_handler L = three_handler L'"
  unfolding three_handler_def stub_handlers_def by (simp add: handler_3_tuple handler_1_lib [of L L'])

definition three_procs :: "u32 \<rightharpoonup> nat handler" where
  "three_procs = [3 \<mapsto> three_handler (loop_lib False Map.empty)]"

definition three_lib :: "nat rpc_lib" where
  "three_lib = loop_lib False three_procs"

theorem rpc_wrong_arity_witness:
  "(\<exists>rc. call_7 three_lib p32 p32 p32 p32 p32 p32 p32 g32 4 3 10 20 30 40 50 60 70 9 0 = Inr (rc, 9, 4) \<and> rc < 0) \<and>
   (\<exists>rc. call_1 three_lib p32 g32 4 3 10 9 0 = Inr (rc, 9, 4) \<and> rc < 0)"
proof -
  have P: "three_procs 3 = Some (three_handler three_lib)"
    using three_handler_lib [of "loop_lib False Map.empty" three_lib] by (simp add: three_procs_def three_lib_def)
  have ends: "fails_at_end g32 0" by (simp add: fails_at_end_def get_bytes_def dec_u32_def)
  have amo: "at_most_once three_lib three_procs" "okdone_spec three_lib"
    unfolding three_lib_def by (rule loop_at_most_once loop_okdone_spec)+
  note t = rpc_wrong_arity [where L = three_lib and ga = g32 and pa = p32 and za = 0 and va = "\<lambda>_. True" and ea = u32_bytes and a = 10
        and gb = g32 and pb = p32 and zb = 0 and vb = "\<lambda>_. True" and eb = u32_bytes and b = 20
        and gc = g32 and pc = p32 and zc = 0 and vc = "\<lambda>_. True" and ec = u32_bytes and c = 30
        and gd = g32 and pd = p32 and zd = 0 and vd = "\<lambda>_. True" and ed = u32_bytes and d = 40
        and ge = g32 and pe = p32 and ze = 0 and ve = "\<lambda>_. True" and ee = u32_bytes and e = 50
        and gf = g32 and pf = p32 and zf = 0 and vf = "\<lambda>_. True" and ef = u32_bytes and f = 60
        and gg = g32 and pg = p32 and zg = 0 and vg = "\<lambda>_. True" and eg = u32_bytes and g = 70
        and pr = p32 and gr = g32 and ?r0.0 = 0 and w = 4 and r = 9 and tmo = 0 and k = 2 and proc = 3 and
        ?m1.0 = "\<lambda>w a r. Inr (0, a, Suc w)" and ?m2.0 = "\<lambda>w a b r. Inr (0, b, Suc w)" and
        ?m3.0 = "\<lambda>w a b c r. Inr (0, a + b * c, Suc w)" and ?m4.0 = "\<lambda>w a b c d r. Inr (0, d, Suc w)" and
        ?m5.0 = "\<lambda>w a b c d e r. Inr (0, e, Suc w)" and ?m6.0 = "\<lambda>w a b c d e f r. Inr (0, f, Suc w)" and ?m7.0 = sum7,
      OF amo _ _ _ P [unfolded three_handler_def] codec_u32 codec_u32 codec_u32 codec_u32 codec_u32 codec_u32 codec_u32
        TrueI TrueI TrueI TrueI TrueI TrueI TrueI]
  have fits: "msg_fits (lib_ck three_lib) (u32_bytes 10 @ u32_bytes 20 @ u32_bytes 30 @ u32_bytes 40 @
      u32_bytes 50 @ u32_bytes 60 @ u32_bytes 70)"
    by (simp add: three_lib_def msg_fits_def INT_MAX_def header_layout u32_bytes_def)
  have ne: "u32_bytes x \<noteq> []" "[] \<noteq> u32_bytes x" for x by (simp_all add: u32_bytes_def)
  show ?thesis
  proof
    show "\<exists>rc. call_7 three_lib p32 p32 p32 p32 p32 p32 p32 g32 4 3 10 20 30 40 50 60 70 9 0 = Inr (rc, 9, 4) \<and> rc < 0"
      using t [of 7] fits ne by (simp add: stub_calls_def)
    show "\<exists>rc. call_1 three_lib p32 g32 4 3 10 9 0 = Inr (rc, 9, 4) \<and> rc < 0"
      using t [of 1] fits ne ends by (simp add: stub_calls_def)
  qed
qed

section \<open>The extent server over the wire\<close>

text \<open>
  C18. The extent server behind its four procedures is the store of files: on a
  server that holds a file, a call of get returns its contents, getattr its type and
  size, and put and remove change that file and no other; a call that fails in the
  transport returns a negative code, leaves the caller's variables alone and has
  run the operation at most once.
\<close>

theorem remote_extent:
  assumes "extent_smain reg1 L W i0 l0 a0 new_server c_atoi argv count_env n e = Inr (procs, ls)"
    and "table_spec reg1" "at_most_once L procs" "okdone_spec L" "wire_spec W E"
    and "es_ok es" "st_files (es_store es) (extent_inum i) = Some (ty, d)"
    and "can_put (es_store es) (extent_inum i) d'"
  shows "(\<exists>rc buf' es'. call_1 L (put_ull W) (get_str W) es rpc_get i buf tmo = Inr (rc, buf', es') \<and>
      es_ok es' \<and> es_store es' = es_store es \<and> (rc = 0 \<and> buf' = d \<or> rc < 0 \<and> buf' = buf)) \<and>
    (\<exists>rc a'. call_1 L (put_ull W) (get_attr (get_uint W)) es rpc_getattr i a tmo = Inr (rc, a', es) \<and>
      (rc = 0 \<and> a_type a' = scast ty \<and> a_size a' = word_of_nat (length d) \<or> rc < 0 \<and> a' = a)) \<and>
    (\<exists>rc r' es'. call_2 L (put_ull W) (put_str W) (get_int W) es rpc_put i d' r tmo = Inr (rc, r', es') \<and>
      es_ok es' \<and> (rc = 0 \<and> es_store es' = store_put (es_store es) (extent_inum i) d' \<or>
        rc < 0 \<and> r' = r \<and> es_store es' \<in> {es_store es, store_put (es_store es) (extent_inum i) d'})) \<and>
    (\<exists>rc r' es'. call_1 L (put_ull W) (get_int W) es rpc_remove i r tmo = Inr (rc, r', es') \<and>
      es_ok es' \<and> (rc = 0 \<and> es_store es' = store_remove (es_store es) (extent_inum i) \<or>
        rc < 0 \<and> r' = r \<and> es_store es' \<in> {es_store es, store_remove (es_store es) (extent_inum i)}))"
proof (intro conjI)
  obtain t where procs: "procs = smain_table reg1 L W i0 l0 a0 t"
    using assms(1) by (auto simp: extent_smain_def Let_def andThen_eq_Inr_iff split: if_splits)
  note T = smain_table_lookup [OF assms(2), of L W i0 l0 a0 t, folded procs]
    and W = wire_specD(1-4) [OF assms(5)]
  have d: "length d \<le> MAXFILE * BLOCK_SIZE" by (rule ec.bounded [OF assms(6,7)])
  have d': "length d' \<le> MAXFILE * BLOCK_SIZE"
    using assms(7,8) by (simp add: can_put_def)
  note fits = wire_fits [OF assms(5) d] and fits' = wire_fits [OF assms(5) d']
  have key: "st_files (es_store es) (extent_inum i) \<noteq> None" using assms(7) by simp
  show "\<exists>rc buf' es'. call_1 L (put_ull W) (get_str W) es rpc_get i buf tmo = Inr (rc, buf', es') \<and>
      es_ok es' \<and> es_store es' = es_store es \<and> (rc = 0 \<and> buf' = d \<or> rc < 0 \<and> buf' = buf)"
    using meth_get_ok [OF assms(6,7), of "[]"]
      stub_call [OF assms(3,4) T(1) W(3) W(4) [of buf] TrueI fits(1,3,4), where w = es and tmo = tmo] assms(6)
    by (fastforce simp: rpc_outcome_def)
  show "\<exists>rc a'. call_1 L (put_ull W) (get_attr (get_uint W)) es rpc_getattr i a tmo = Inr (rc, a', es) \<and>
      (rc = 0 \<and> a_type a' = scast ty \<and> a_size a' = word_of_nat (length d) \<or> rc < 0 \<and> a' = a)"
    using meth_getattr_ok [OF assms(6,7), of a0]
      stub_call [OF assms(3,4) T(2) W(3) codec_attr [OF W(2)] TrueI TrueI fits(3,6), where w = es and tmo = tmo and r = a]
    by (fastforce simp: rpc_outcome_def)
  show "\<exists>rc r' es'. call_2 L (put_ull W) (put_str W) (get_int W) es rpc_put i d' r tmo = Inr (rc, r', es') \<and>
      es_ok es' \<and> (rc = 0 \<and> es_store es' = store_put (es_store es) (extent_inum i) d' \<or>
        rc < 0 \<and> r' = r \<and> es_store es' \<in> {es_store es, store_put (es_store es) (extent_inum i) d'})"
    using meth_put_ok [OF assms(6,8), of i0]
      stub_call [OF assms(3,4) T(3) codec_pair [OF W(3) W(4)] W(1), where a = "(i, d')" and w = es and tmo = tmo and r = r] fits' assms(6)
    unfolding tupled by (fastforce simp: rpc_outcome_def)
  show "\<exists>rc r' es'. call_1 L (put_ull W) (get_int W) es rpc_remove i r tmo = Inr (rc, r', es') \<and>
      es_ok es' \<and> (rc = 0 \<and> es_store es' = store_remove (es_store es) (extent_inum i) \<or>
        rc < 0 \<and> r' = r \<and> es_store es' \<in> {es_store es, store_remove (es_store es) (extent_inum i)})"
    using meth_remove_ok [OF assms(6) key, of i0]
      stub_call [OF assms(3,4) T(4) W(3) W(1) TrueI TrueI fits(3,2), where w = es and tmo = tmo and r = r] assms(6)
    by (fastforce simp: rpc_outcome_def)
qed

theorem remote_extent_witness:
  "\<exists>ls. extent_smain map_reg1 loop_net loop_wire 0 0 zero_attr (\<lambda>_ _. Map.empty) (\<lambda>_. 0) [[], []] None 0 demo_env =
       Inr (loop_table, ls) \<and> es_store ls = demo_store \<and>
     (\<exists>rc buf es'. call_1 loop_net (put_ull loop_wire) (get_str loop_wire) ls rpc_get 1 [7] 0 =
       Inr (rc, buf, es') \<and> (rc = 0 \<and> buf = [] \<or> rc < 0 \<and> buf = [7]))"
proof -
  obtain y where y: "yfs_client_new 0 demo_env = Inr y" "fs_ok y" "y_store y = demo_store"
    using demo_new by metis
  define ls where "ls = ec_es (yfs_ec y)"
  have e: "\<lparr>ec_es = ls\<rparr> = yfs_ec y" by (simp add: ls_def)
  have new: "extent_server_new 0 demo_env = Inr ls"
    using y(1) by (auto simp: yfs_client_new_def extent_client_new_def andThen_eq_Inr_iff ls_def)
  have main: "extent_smain map_reg1 loop_net loop_wire 0 0 zero_attr (\<lambda>_ _. Map.empty) (\<lambda>_. 0) [[], []] None 0 demo_env =
       Inr (loop_table, ls)"
    by (simp add: extent_smain_def new loop_table_eq)
  have ls: "es_ok ls" "es_store ls = demo_store"
    using y(2,3) by (simp_all add: e fs_ok_def y_ok_def y_store_def)
  have "st_files (es_store ls) (extent_inum 1) = Some (DIR, [])"
    "can_put (es_store ls) (extent_inum 1) []"
    by (simp_all add: ls demo_store_def can_put_def)
  from remote_extent [OF main loop_net(3,1,2) loop_wire_spec ls(1) this, of "[7]" 0] main ls(2)
  show ?thesis by blast
qed

end
