(* ===== verification/Fifo.thy ===== *)
theory Fifo
  imports Prelude "HOL-Library.Multiset"
begin

text \<open>
  The blocking queue of src/rpc/fifo.h.  Every operation holds the mutex of the
  queue from its first statement to its return (\<open>ScopedLock\<close> of src/rpc/slock.h),
  except while it waits on a condition variable; so a run is a sequence of segments,
  each from an acquisition of the mutex to its release.  A segment starts at the
  test of the \<open>while (1)\<close> loop, at the first acquisition and after every wait.

  The state keeps one entry for every call that was made, and two ghost lists: the
  elements enqueued and the elements dequeued so far.  The pthread functions are
  the platform's: they succeed, a signal wakes at least one waiter of its condition
  variable if there is one, and a waiter can also wake for no reason.
\<close>

section \<open>The queue\<close>

record 'a fifo =
  f_q :: "'a list"
  f_max :: nat

definition fifo_new :: "int \<Rightarrow> 'a fifo" where
  "fifo_new limit = \<lparr>f_q = [], f_max = unat (word_of_int limit :: u32)\<rparr>"

text \<open>\<open>size\<close> returns a \<open>bool\<close>: the length is converted, so it tells only whether the
  queue has an element.\<close>

definition fifo_size :: "'a fifo \<Rightarrow> bool" where
  "fifo_size f = (length (f_q f) \<noteq> 0)"

datatype cond = NonEmpty | HasSpace

text \<open>How a segment ends: with the return of the call and the condition variables it
  signalled, or with a wait.\<close>

datatype ('r) segment = Returns 'r "cond list" | Waits cond

definition enq_segment :: "'a fifo \<Rightarrow> 'a \<Rightarrow> bool \<Rightarrow> 'a fifo \<times> bool segment" where
  "enq_segment f e blocking =
     (if f_max f = 0 \<or> length (f_q f) < f_max f
      then (f\<lparr>f_q := f_q f @ [e]\<rparr>, Returns True [NonEmpty])
      else if blocking then (f, Waits HasSpace)
      else (f, Returns False []))"

definition deq_segment :: "'a fifo \<Rightarrow> 'a fifo \<times> 'a segment" where
  "deq_segment f =
     (case f_q f of
        [] \<Rightarrow> (f, Waits NonEmpty)
      | x # q \<Rightarrow>
          (let f = f\<lparr>f_q := q\<rparr>
           in (f, Returns x (if f_max f \<noteq> 0 \<and> length (f_q f) < f_max f then [HasSpace] else []))))"

section \<open>Calls and steps\<close>

datatype 'a op = Enq 'a bool | Deq

text \<open>\<open>Ready\<close>: waiting for the mutex, to start or go on with the loop.\<close>

datatype 'a call = Ready "'a op" | Blocked "'a op" | EnqDone bool | DeqDone 'a

record 'a monitor =
  fifo :: "'a fifo"
  calls :: "'a call list"
  pushed :: "'a list"
  popped :: "'a list"

fun goes_for :: "'a op \<Rightarrow> cond" where
  "goes_for (Enq e b) = HasSpace"
| "goes_for Deq = NonEmpty"

fun waits_on :: "'a call \<Rightarrow> cond option" where
  "waits_on (Blocked p) = Some (goes_for p)"
| "waits_on _ = None"

fun ready_for :: "'a call \<Rightarrow> cond option" where
  "ready_for (Ready p) = Some (goes_for p)"
| "ready_for _ = None"

fun wake :: "'a call \<Rightarrow> 'a call" where
  "wake (Blocked p) = Ready p"
| "wake c = c"

text \<open>A signal wakes some of the waiters, and none only if there is none.\<close>

definition signalled :: "cond \<Rightarrow> 'a call list \<Rightarrow> 'a call list \<Rightarrow> bool" where
  "signalled c cs cs' \<longleftrightarrow>
     list_all2 (\<lambda>x y. y = x \<or> waits_on x = Some c \<and> y = wake x) cs cs' \<and>
     (cs' = cs \<longrightarrow> (\<forall>x\<in>set cs. waits_on x \<noteq> Some c))"

text \<open>The steps: a segment of a call that has got the mutex, the arrival of a new call,
  and a wake-up without a signal.\<close>

inductive work :: "'a monitor \<Rightarrow> 'a monitor \<Rightarrow> bool" where
  enq_done: "i < length (calls s) \<Longrightarrow> calls s ! i = Ready (Enq e b) \<Longrightarrow>
     enq_segment (fifo s) e b = (f, Returns True [c]) \<Longrightarrow>
     signalled c ((calls s)[i := EnqDone True]) cs \<Longrightarrow>
     work s (s\<lparr>fifo := f, calls := cs, pushed := pushed s @ [e]\<rparr>)"
| enq_full: "i < length (calls s) \<Longrightarrow> calls s ! i = Ready (Enq e b) \<Longrightarrow>
     enq_segment (fifo s) e b = (f, Returns False []) \<Longrightarrow>
     work s (s\<lparr>fifo := f, calls := (calls s)[i := EnqDone False]\<rparr>)"
| enq_wait: "i < length (calls s) \<Longrightarrow> calls s ! i = Ready (Enq e b) \<Longrightarrow>
     enq_segment (fifo s) e b = (f, Waits c) \<Longrightarrow>
     work s (s\<lparr>fifo := f, calls := (calls s)[i := Blocked (Enq e b)]\<rparr>)"
| deq_signal: "i < length (calls s) \<Longrightarrow> calls s ! i = Ready Deq \<Longrightarrow>
     deq_segment (fifo s) = (f, Returns x [c]) \<Longrightarrow>
     signalled c ((calls s)[i := DeqDone x]) cs \<Longrightarrow>
     work s (s\<lparr>fifo := f, calls := cs, popped := popped s @ [x]\<rparr>)"
| deq_silent: "i < length (calls s) \<Longrightarrow> calls s ! i = Ready Deq \<Longrightarrow>
     deq_segment (fifo s) = (f, Returns x []) \<Longrightarrow>
     work s (s\<lparr>fifo := f, calls := (calls s)[i := DeqDone x], popped := popped s @ [x]\<rparr>)"
| deq_wait: "i < length (calls s) \<Longrightarrow> calls s ! i = Ready Deq \<Longrightarrow>
     deq_segment (fifo s) = (f, Waits c) \<Longrightarrow>
     work s (s\<lparr>fifo := f, calls := (calls s)[i := Blocked Deq]\<rparr>)"

inductive step :: "'a monitor \<Rightarrow> 'a monitor \<Rightarrow> bool" where
  segment: "work s s' \<Longrightarrow> step s s'"
| arrive: "step s (s\<lparr>calls := calls s @ [Ready p]\<rparr>)"
| spurious: "i < length (calls s) \<Longrightarrow> calls s ! i = Blocked p \<Longrightarrow>
     step s (s\<lparr>calls := (calls s)[i := Ready p]\<rparr>)"

definition monitor_new :: "int \<Rightarrow> 'a op list \<Rightarrow> 'a monitor" where
  "monitor_new limit ops =
     \<lparr>fifo = fifo_new limit, calls = map Ready ops, pushed = [], popped = []\<rparr>"

inductive fifo_reachable :: "int \<Rightarrow> 'a monitor \<Rightarrow> bool" for limit where
  start: "fifo_reachable limit (monitor_new limit ops)"
| next_step: "fifo_reachable limit s \<Longrightarrow> step s s' \<Longrightarrow> fifo_reachable limit s'"

inductive_cases workE: "work s s'"
inductive_cases stepE: "step s s'"

section \<open>Counting calls\<close>

definition count_of :: "('a call \<Rightarrow> bool) \<Rightarrow> 'a call list \<Rightarrow> nat" where
  "count_of P cs = size (filter_mset P (mset cs))"

abbreviation readies :: "cond \<Rightarrow> 'a call list \<Rightarrow> nat" where
  "readies c \<equiv> count_of (\<lambda>x. ready_for x = Some c)"

abbreviation waiters :: "cond \<Rightarrow> 'a call list \<Rightarrow> nat" where
  "waiters c \<equiv> count_of (\<lambda>x. waits_on x = Some c)"

fun result :: "'a call \<Rightarrow> 'a multiset" where
  "result (DeqDone x) = {#x#}"
| "result _ = {#}"

definition results :: "'a call list \<Rightarrow> 'a multiset" where
  "results cs = (\<Sum>x\<in>#mset cs. result x)"

lemma count_of_simps [simp]:
  "count_of P [] = 0" "count_of P (x # cs) = (if P x then Suc (count_of P cs) else count_of P cs)"
  "count_of P (cs @ ds) = count_of P cs + count_of P ds"
  by (simp_all add: count_of_def)

lemma results_simps [simp]:
  "results [] = {#}" "results (x # cs) = result x + results cs" "results (cs @ ds) = results cs + results ds"
  by (simp_all add: results_def)

lemma count_of_0: "count_of P cs = 0 \<longleftrightarrow> (\<forall>x\<in>set cs. \<not> P x)"
  by (induction cs) simp_all

text \<open>Replacing one call: the others stay.\<close>

definition others :: "nat \<Rightarrow> 'a call list \<Rightarrow> 'a call list" where
  "others i cs = take i cs @ drop (Suc i) cs"

lemma call_at:
  assumes "i < length cs"
  shows "count_of P cs = count_of P (cs ! i # others i cs)"
    "count_of P (cs[i := x]) = count_of P (x # others i cs)"
    "results cs = results (cs ! i # others i cs)" "results (cs[i := x]) = results (x # others i cs)"
proof -
  have m: "mset cs = mset (cs ! i # others i cs)" "mset (cs[i := x]) = mset (x # others i cs)"
    using assms id_take_nth_drop [OF assms] upd_conv_take_nth_drop [OF assms, of x]
    unfolding others_def by (metis mset.simps(2) mset_append union_mset_add_mset_right)+
  show "count_of P cs = count_of P (cs ! i # others i cs)"
    "count_of P (cs[i := x]) = count_of P (x # others i cs)"
    unfolding count_of_def m by (rule refl)+
  show "results cs = results (cs ! i # others i cs)" "results (cs[i := x]) = results (x # others i cs)"
    unfolding results_def m by (rule refl)+
qed

text \<open>A signal turns waiters into ready calls and does nothing else.\<close>

lemma wakes_counts:
  assumes "list_all2 (\<lambda>x y. y = x \<or> waits_on x = Some c \<and> y = wake x) cs cs'"
  shows "readies c cs' + waiters c cs' = readies c cs + waiters c cs \<and>
    waiters c cs' \<le> waiters c cs \<and> (cs' \<noteq> cs \<longrightarrow> waiters c cs' < waiters c cs) \<and>
    (\<forall>d. d \<noteq> c \<longrightarrow> readies d cs' = readies d cs \<and> waiters d cs' = waiters d cs) \<and>
    results cs' = results cs \<and> (\<forall>b. count_of (\<lambda>x. x = EnqDone b) cs' = count_of (\<lambda>x. x = EnqDone b) cs)"
  using assms
proof (induction rule: list_all2_induct)
  case (Cons x xs y ys)
  from Cons.hyps(1) consider "y = x" | p where "x = Blocked p" "goes_for p = c" "y = Ready p"
    by (cases x) auto
  then show ?case by cases (use Cons.IH in auto)
qed simp

lemma signalledD:
  assumes "signalled c cs cs'"
  shows "readies c cs' + waiters c cs' = readies c cs + waiters c cs"
    "waiters c cs' < waiters c cs \<or> waiters c cs = 0 \<and> waiters c cs' = 0"
    "d \<noteq> c \<Longrightarrow> readies d cs' = readies d cs" "d \<noteq> c \<Longrightarrow> waiters d cs' = waiters d cs"
    "results cs' = results cs" "count_of (\<lambda>x. x = EnqDone b) cs' = count_of (\<lambda>x. x = EnqDone b) cs"
    "length cs' = length cs"
  using assms wakes_counts [of c cs cs']
  by (auto simp: signalled_def count_of_0 dest: list_all2_lengthD)

lemma signalled_all: "\<exists>cs'. signalled c cs cs'"
proof
  let ?f = "\<lambda>x. if waits_on x = Some c then wake x else x"
  have "map ?f cs = cs \<longrightarrow> (\<forall>x\<in>set cs. waits_on x \<noteq> Some c)"
    by (induction cs) (auto elim!: waits_on.elims)
  then show "signalled c cs (map ?f cs)"
    by (simp add: signalled_def list_all2_map2 list.rel_refl_strong)
qed

section \<open>The invariant\<close>

text \<open>
  The queue holds what went in and has not come out, in that order, and keeps its
  bound.  No wake-up is lost: while a \<open>deq\<close> waits, there are at least as many calls of
  \<open>deq\<close> on their way to the mutex as elements in the queue; while an \<open>enq\<close> waits, at
  least as many calls of \<open>enq\<close> as free places.
\<close>

definition fifo_ok :: "int \<Rightarrow> 'a monitor \<Rightarrow> bool" where
  "fifo_ok limit s \<longleftrightarrow>
     f_max (fifo s) = unat (word_of_int limit :: u32) \<and>
     (f_max (fifo s) \<noteq> 0 \<longrightarrow> length (f_q (fifo s)) \<le> f_max (fifo s)) \<and>
     pushed s = popped s @ f_q (fifo s) \<and>
     results (calls s) = mset (popped s) \<and>
     count_of (\<lambda>x. x = EnqDone True) (calls s) = length (pushed s) \<and>
     (waiters NonEmpty (calls s) \<noteq> 0 \<longrightarrow> length (f_q (fifo s)) \<le> readies NonEmpty (calls s)) \<and>
     (waiters HasSpace (calls s) \<noteq> 0 \<longrightarrow>
        f_max (fifo s) \<noteq> 0 \<and> f_max (fifo s) \<le> length (f_q (fifo s)) + readies HasSpace (calls s))"

lemma enq_segment_simps:
  "enq_segment f e b = (f', Returns True cs) \<longleftrightarrow>
     (f_max f = 0 \<or> length (f_q f) < f_max f) \<and> f' = f\<lparr>f_q := f_q f @ [e]\<rparr> \<and> cs = [NonEmpty]"
  "enq_segment f e b = (f', Returns False cs) \<longleftrightarrow>
     f_max f \<noteq> 0 \<and> f_max f \<le> length (f_q f) \<and> \<not> b \<and> f' = f \<and> cs = []"
  "enq_segment f e b = (f', Waits c) \<longleftrightarrow>
     f_max f \<noteq> 0 \<and> f_max f \<le> length (f_q f) \<and> b \<and> f' = f \<and> c = HasSpace"
  by (auto simp: enq_segment_def)

lemma deq_segment_simps:
  "deq_segment f = (f', Returns x cs) \<longleftrightarrow>
     (\<exists>q. f_q f = x # q \<and> f' = f\<lparr>f_q := q\<rparr> \<and>
        cs = (if f_max f \<noteq> 0 \<and> length q < f_max f then [HasSpace] else []))"
  "deq_segment f = (f', Waits c) \<longleftrightarrow> f_q f = [] \<and> f' = f \<and> c = NonEmpty"
  by (auto simp: deq_segment_def Let_def split: list.split)

lemma fifo_ok_work:
  assumes "work s s'" "fifo_ok limit s"
  shows "fifo_ok limit s'"
  using assms(1)
proof (cases rule: work.cases)
  case (enq_done i e b f c cs)
  note ds = call_at [OF enq_done(2)]
  note sig = signalledD [OF enq_done(5)]
  have c: "c = NonEmpty" using enq_done(4) by (simp add: enq_segment_simps)
  show ?thesis
    using assms(2) enq_done(3,4) sig(1,2) sig(3,4) [of HasSpace] sig(5,6)
    by (auto simp: fifo_ok_def enq_done(1) ds enq_segment_simps c)
next
  case (deq_signal i f x c cs)
  note ds = call_at [OF deq_signal(2)]
  note sig = signalledD [OF deq_signal(5)]
  have c: "c = HasSpace" using deq_signal(4) by (auto simp: deq_segment_simps split: if_splits)
  show ?thesis
    using assms(2) deq_signal(3,4) sig(1,2) sig(3,4) [of NonEmpty] sig(5,6)
    by (auto simp: fifo_ok_def deq_signal(1) ds deq_segment_simps c)
next
  case (enq_full i e b f)
  note ds = call_at [OF enq_full(2)]
  show ?thesis
    using assms(2) enq_full(3,4) by (auto simp: fifo_ok_def enq_full(1) ds enq_segment_simps)
next
  case (enq_wait i e b f c)
  note ds = call_at [OF enq_wait(2)]
  show ?thesis
    using assms(2) enq_wait(3,4) by (auto simp: fifo_ok_def enq_wait(1) ds enq_segment_simps)
next
  case (deq_silent i f x)
  note ds = call_at [OF deq_silent(2)]
  show ?thesis
    using assms(2) deq_silent(3,4) by (auto simp: fifo_ok_def deq_silent(1) ds deq_segment_simps split: if_splits)
next
  case (deq_wait i f c)
  note ds = call_at [OF deq_wait(2)]
  show ?thesis
    using assms(2) deq_wait(3,4) by (auto simp: fifo_ok_def deq_wait(1) ds deq_segment_simps)
qed

end
