(* ===== verification/Fifo_Properties.thy ===== *)
theory Fifo_Properties
  imports Fifo
begin

text \<open>
  The blocking queue keeps its order and its bound under every interleaving of its
  callers; a set of calls comes to rest after boundedly many segments, and when it
  rests nobody waits in vain.
\<close>

section \<open>Reachable states\<close>

lemma fifo_ok_new: "fifo_ok limit (monitor_new limit ops)"
proof -
  have "results (map Ready ops) = {#}" "count_of (\<lambda>x. x = EnqDone True) (map Ready ops) = 0"
    "waiters c (map Ready ops) = 0" for c
    by (induction ops) simp_all
  then show ?thesis by (simp add: fifo_ok_def monitor_new_def fifo_new_def)
qed

lemma fifo_ok_step:
  assumes "step s s'" "fifo_ok limit s"
  shows "fifo_ok limit s'"
  using assms(1)
proof (cases rule: step.cases)
  case segment
  then show ?thesis using assms(2) by (rule fifo_ok_work)
next
  case (arrive p)
  show ?thesis using assms(2) by (auto simp: fifo_ok_def arrive)
next
  case (spurious i p)
  note ds = call_at [OF spurious(2)]
  show ?thesis
    using assms(2) by (cases p) (auto simp: fifo_ok_def spurious(1) ds spurious(3))
qed

lemma fifo_reachable_ok: "fifo_reachable limit s \<Longrightarrow> fifo_ok limit s"
  by (induction rule: fifo_reachable.induct) (auto intro: fifo_ok_new fifo_ok_step)

text \<open>A queue for one element, one call of enq and one of deq.\<close>

definition fifo_demo0 :: "nat monitor" where
  "fifo_demo0 = monitor_new 1 [Enq 5 True, Deq]"

definition fifo_demo1 :: "nat monitor" where
  "fifo_demo1 = \<lparr>fifo = \<lparr>f_q = [5], f_max = 1\<rparr>, calls = [EnqDone True, Ready Deq],
     pushed = [5], popped = []\<rparr>"

definition fifo_demo2 :: "nat monitor" where
  "fifo_demo2 = \<lparr>fifo = \<lparr>f_q = [], f_max = 1\<rparr>, calls = [EnqDone True, DeqDone 5],
     pushed = [5], popped = [5]\<rparr>"

lemma fifo_demo_work: "work fifo_demo0 fifo_demo1" "work fifo_demo1 fifo_demo2"
proof -
  have "work fifo_demo0 (fifo_demo0\<lparr>fifo := \<lparr>f_q = [5], f_max = 1\<rparr>, calls := [EnqDone True, Ready Deq],
      pushed := pushed fifo_demo0 @ [5]\<rparr>)"
    by (rule enq_done [of 0 _ _ True _ NonEmpty])
      (simp_all add: fifo_demo0_def monitor_new_def fifo_new_def enq_segment_def signalled_def)
  then show "work fifo_demo0 fifo_demo1"
    by (simp add: fifo_demo0_def fifo_demo1_def monitor_new_def)
  have "work fifo_demo1 (fifo_demo1\<lparr>fifo := \<lparr>f_q = [], f_max = 1\<rparr>, calls := [EnqDone True, DeqDone 5],
      popped := popped fifo_demo1 @ [5]\<rparr>)"
    by (rule deq_signal [of 1 _ _ _ HasSpace])
      (simp_all add: fifo_demo1_def deq_segment_def signalled_def)
  then show "work fifo_demo1 fifo_demo2"
    by (simp add: fifo_demo1_def fifo_demo2_def)
qed

lemma fifo_demo_reachable: "fifo_reachable 1 fifo_demo1" "fifo_reachable 1 fifo_demo2"
proof -
  have "fifo_reachable 1 fifo_demo0" unfolding fifo_demo0_def by (rule start)
  from next_step [OF this segment [OF fifo_demo_work(1)]]
  show "fifo_reachable 1 fifo_demo1" .
  from next_step [OF this segment [OF fifo_demo_work(2)]]
  show "fifo_reachable 1 fifo_demo2" .
qed

text \<open>
  C19. Whatever calls are made on a queue and however their threads interleave, the
  elements come out in the order in which they went in and none is lost or made up:
  what was enqueued is what was dequeued followed by what is in the queue.  A bounded
  queue never holds more than its bound.  The dequeued elements are the ones the
  calls of deq returned, and there are as many enqueued elements as calls of enq that
  returned true.
\<close>

theorem fifo_order_and_bound:
  assumes "fifo_reachable limit s"
  shows "pushed s = popped s @ f_q (fifo s) \<and>
    (unat (word_of_int limit :: u32) \<noteq> 0 \<longrightarrow> length (f_q (fifo s)) \<le> unat (word_of_int limit :: u32)) \<and>
    results (calls s) = mset (popped s) \<and>
    count_of (\<lambda>x. x = EnqDone True) (calls s) = length (pushed s)"
  using fifo_reachable_ok [OF assms] by (auto simp: fifo_ok_def)

theorem fifo_order_and_bound_witness:
  "fifo_reachable 1 fifo_demo1 \<and> pushed fifo_demo1 = popped fifo_demo1 @ [5] \<and>
   length (f_q (fifo fifo_demo1)) \<le> 1"
  using fifo_order_and_bound [OF fifo_demo_reachable(1)] fifo_demo_reachable(1)
  by (simp add: fifo_demo1_def)

section \<open>Calls come to rest\<close>

lemma cond_cases: "(c :: cond) = NonEmpty \<or> c = HasSpace"
  by (cases c) simp_all

definition ready_calls :: "'a call list \<Rightarrow> nat" where
  "ready_calls cs = readies NonEmpty cs + readies HasSpace cs"

definition pending :: "'a call list \<Rightarrow> nat" where
  "pending cs = ready_calls cs + waiters NonEmpty cs + waiters HasSpace cs"

lemma pending_le: "pending cs \<le> length cs"
proof (induction cs)
  case (Cons x cs)
  then show ?case
    by (cases x) (auto simp: pending_def ready_calls_def split: if_splits intro: cond_cases)
qed (simp add: pending_def ready_calls_def)

lemma signalled_pending: "signalled c cs cs' \<Longrightarrow> pending cs' = pending cs"
  using signalledD(1) [of c cs cs'] signalledD(3,4) [of c cs cs'] cond_cases [of c]
  by (auto simp: pending_def ready_calls_def)

text \<open>A segment lets a call return, or makes a ready one wait.\<close>

lemma work_progress:
  assumes "work s s'"
  shows "length (calls s') = length (calls s) \<and>
    (pending (calls s') < pending (calls s) \<or>
     pending (calls s') = pending (calls s) \<and> ready_calls (calls s') < ready_calls (calls s))"
  using assms
proof (cases rule: work.cases)
  case (enq_done i e b f c cs)
  note ds = call_at(1,2) [OF enq_done(2)]
  have "pending ((calls s)[i := EnqDone True]) < pending (calls s)"
    by (simp add: pending_def ready_calls_def ds enq_done(3))
  then show ?thesis
    using signalled_pending [OF enq_done(5)] signalledD(7) [OF enq_done(5)] by (simp add: enq_done(1))
next
  case (deq_signal i f x c cs)
  note ds = call_at(1,2) [OF deq_signal(2)]
  have "pending ((calls s)[i := DeqDone x]) < pending (calls s)"
    by (simp add: pending_def ready_calls_def ds deq_signal(3))
  then show ?thesis
    using signalled_pending [OF deq_signal(5)] signalledD(7) [OF deq_signal(5)] by (simp add: deq_signal(1))
next
  case (enq_full i e b f)
  then show ?thesis by (simp add: pending_def ready_calls_def call_at(1,2) [OF enq_full(2)])
next
  case (enq_wait i e b f c)
  then show ?thesis by (simp add: pending_def ready_calls_def call_at(1,2) [OF enq_wait(2)])
next
  case (deq_silent i f x)
  then show ?thesis by (simp add: pending_def ready_calls_def call_at(1,2) [OF deq_silent(2)])
next
  case (deq_wait i f c)
  then show ?thesis by (simp add: pending_def ready_calls_def call_at(1,2) [OF deq_wait(2)])
qed

definition weight :: "'a call list \<Rightarrow> nat" where
  "weight cs = pending cs * Suc (length cs) + ready_calls cs"

lemma work_weight:
  assumes "work s s'"
  shows "weight (calls s') < weight (calls s) \<and> length (calls s') = length (calls s)"
proof -
  let ?n = "length (calls s)" and ?p = "pending (calls s)" and ?p' = "pending (calls s')"
  note w = work_progress [OF assms]
  have r: "ready_calls (calls s') \<le> ?n"
    using pending_le [of "calls s'"] w by (simp add: pending_def)
  show ?thesis
  proof (cases "?p' < ?p")
    case True
    then have "Suc ?p' * Suc ?n \<le> ?p * Suc ?n" by (intro mult_le_mono1) simp
    with r w show ?thesis by (simp add: weight_def)
  qed (use w in \<open>simp add: weight_def\<close>)
qed

lemma run_weight:
  "(work ^^ n) s s' \<Longrightarrow> n + weight (calls s') \<le> weight (calls s)"
proof (induction n arbitrary: s')
  case (Suc n)
  then obtain s1 where "(work ^^ n) s s1" "work s1 s'" by auto
  then show ?case using Suc.IH work_weight by fastforce
qed simp

text \<open>
  C21. The loops of enq and deq end: the calls present in a state go through at most
  as many segments as the square of their number plus twice their number, until each
  has returned or waits for a signal that only a further call can give.
\<close>

theorem fifo_calls_come_to_rest:
  assumes "(work ^^ n) s s'"
  shows "n \<le> length (calls s) * (length (calls s) + 2)"
proof -
  have "ready_calls (calls s) \<le> length (calls s)"
    using pending_le [of "calls s"] by (simp add: pending_def)
  moreover have "pending (calls s) * Suc (length (calls s)) \<le> length (calls s) * Suc (length (calls s))"
    by (intro mult_le_mono1 pending_le)
  ultimately have "weight (calls s) \<le> length (calls s) * (length (calls s) + 2)"
    by (simp add: weight_def algebra_simps)
  with run_weight [OF assms] show ?thesis by simp
qed

theorem fifo_calls_come_to_rest_witness:
  "(work ^^ 2) fifo_demo0 fifo_demo2 \<and> 2 \<le> length (calls fifo_demo0) * (length (calls fifo_demo0) + 2)"
proof -
  have "(work ^^ 2) fifo_demo0 fifo_demo2"
    unfolding numeral_2_eq_2 using fifo_demo_work by auto
  with fifo_calls_come_to_rest [OF this] show ?thesis by blast
qed

section \<open>Nobody waits in vain\<close>

lemma ready_can_work:
  assumes "Ready p \<in> set (calls s)"
  shows "\<exists>s'. work s s'"
proof -
  obtain i where i: "i < length (calls s)" "calls s ! i = Ready p"
    using assms by (auto simp: in_set_conv_nth)
  show ?thesis
  proof (cases p)
    case (Enq e b)
    note r = i(1) i(2) [unfolded Enq]
    consider "f_max (fifo s) = 0 \<or> length (f_q (fifo s)) < f_max (fifo s)"
      | "\<not> (f_max (fifo s) = 0 \<or> length (f_q (fifo s)) < f_max (fifo s))" b
      | "\<not> (f_max (fifo s) = 0 \<or> length (f_q (fifo s)) < f_max (fifo s))" "\<not> b"
      by blast
    then show ?thesis
    proof cases
      case 1
      obtain cs where "signalled NonEmpty ((calls s)[i := EnqDone True]) cs" using signalled_all by blast
      from enq_done [OF r _ this] 1 show ?thesis by (auto simp: enq_segment_def)
    next
      case 2
      then show ?thesis using enq_wait [OF r] by (auto simp: enq_segment_def)
    next
      case 3
      then show ?thesis using enq_full [OF r] by (auto simp: enq_segment_def)
    qed
  next
    case Deq
    note r = i(1) i(2) [unfolded Deq]
    show ?thesis
    proof (cases "f_q (fifo s)")
      case Nil
      then show ?thesis using deq_wait [OF r] by (auto simp: deq_segment_def)
    next
      case (Cons x q)
      obtain cs where "signalled HasSpace ((calls s)[i := DeqDone x]) cs" using signalled_all by blast
      from deq_signal [OF r _ this] deq_silent [OF r] show ?thesis
        by (cases "f_max (fifo s) \<noteq> 0 \<and> length q < f_max (fifo s)") (auto simp: deq_segment_def Cons Let_def)
    qed
  qed
qed

fun returned :: "'a call \<Rightarrow> bool" where
  "returned (Ready p) = False"
| "returned (Blocked p) = False"
| "returned (EnqDone b) = True"
| "returned (DeqDone x) = True"

fun for_deq :: "'a call \<Rightarrow> bool" where
  "for_deq (Ready p) = (p = Deq)"
| "for_deq (Blocked p) = (p = Deq)"
| "for_deq (EnqDone b) = False"
| "for_deq (DeqDone x) = True"

lemma goes_for_iff [simp]:
  "goes_for p = NonEmpty \<longleftrightarrow> p = Deq" "goes_for p = HasSpace \<longleftrightarrow> p \<noteq> Deq"
  by (cases p; simp)+

lemma calls_by_kind:
  "count_of for_deq cs = readies NonEmpty cs + waiters NonEmpty cs + size (results cs)"
  "count_of (\<lambda>x. \<not> for_deq x) cs = readies HasSpace cs + waiters HasSpace cs +
     count_of (\<lambda>x. x = EnqDone True) cs + count_of (\<lambda>x. x = EnqDone False) cs"
proof (induction cs)
  case (Cons x cs)
  case 1
  then show ?case using Cons.IH by (cases x rule: for_deq.cases) simp_all
  case 2
  then show ?case using Cons.IH by (cases x rule: for_deq.cases) simp_all
qed simp_all

text \<open>
  C20. No wake-up is lost.  When no call can go on, a call that has not returned is a deq
  on an empty queue or an enq on a full one; and if as many elements were to be taken
  as to be put and none was refused, every call has returned and the queue is empty.
\<close>

theorem nobody_waits_in_vain:
  assumes "fifo_reachable limit s" "\<nexists>s'. work s s'"
  shows "(\<forall>x\<in>set (calls s). returned x \<or>
      x = Blocked Deq \<and> f_q (fifo s) = [] \<or>
      (\<exists>e b. x = Blocked (Enq e b)) \<and> f_max (fifo s) \<noteq> 0 \<and> length (f_q (fifo s)) = f_max (fifo s)) \<and>
    (EnqDone False \<notin> set (calls s) \<and>
       count_of for_deq (calls s) = count_of (\<lambda>x. \<not> for_deq x) (calls s) \<longrightarrow>
     (\<forall>x\<in>set (calls s). returned x) \<and> f_q (fifo s) = [])"
proof -
  have ok: "fifo_ok limit s" by (rule fifo_reachable_ok [OF assms(1)])
  have none: "Ready p \<notin> set (calls s)" for p
    using ready_can_work assms(2) by blast
  have r0: "readies c (calls s) = 0" for c
    unfolding count_of_0
  proof
    fix x assume "x \<in> set (calls s)"
    with none show "ready_for x \<noteq> Some c" by (cases x) auto
  qed
  have deq: "f_q (fifo s) = []" if "waiters NonEmpty (calls s) \<noteq> 0"
    using ok that by (simp add: fifo_ok_def r0)
  have enq: "f_max (fifo s) \<noteq> 0 \<and> length (f_q (fifo s)) = f_max (fifo s)"
    if "waiters HasSpace (calls s) \<noteq> 0"
    using ok that by (auto simp: fifo_ok_def r0)
  have w: "waiters (goes_for p) (calls s) \<noteq> 0" if "Blocked p \<in> set (calls s)" for p
    using that unfolding count_of_0 by force
  have each: "returned x \<or> x = Blocked Deq \<and> f_q (fifo s) = [] \<or>
      (\<exists>e b. x = Blocked (Enq e b)) \<and> f_max (fifo s) \<noteq> 0 \<and> length (f_q (fifo s)) = f_max (fifo s)"
    if x: "x \<in> set (calls s)" for x
  proof (cases x)
    case (Blocked p)
    then show ?thesis using w [of p] x deq enq by (cases p) auto
  qed (use none x in auto)
  have len: "length (pushed s) = size (results (calls s)) + length (f_q (fifo s))"
    "count_of (\<lambda>x. x = EnqDone True) (calls s) = length (pushed s)"
    using ok by (simp_all add: fifo_ok_def)
  have "(\<forall>x\<in>set (calls s). returned x) \<and> f_q (fifo s) = []"
    if "EnqDone False \<notin> set (calls s)"
      and eq: "count_of for_deq (calls s) = count_of (\<lambda>x. \<not> for_deq x) (calls s)"
  proof -
    have f0: "count_of (\<lambda>x. x = EnqDone False) (calls s) = 0" using that(1) by (auto simp: count_of_0)
    have "waiters NonEmpty (calls s) = waiters HasSpace (calls s) + length (f_q (fifo s))"
      using eq len f0 by (simp add: calls_by_kind r0)
    then have z: "waiters NonEmpty (calls s) = 0" "waiters HasSpace (calls s) = 0" "f_q (fifo s) = []"
      using deq enq by fastforce+
    have "returned x" if "x \<in> set (calls s)" for x
      using each [OF that] z(1,2) w that by (metis goes_for.simps)
    with z(3) show ?thesis by blast
  qed
  with each show ?thesis by blast
qed

theorem nobody_waits_in_vain_witness:
  "(\<nexists>s'. work fifo_demo2 s') \<and> list_all returned (calls fifo_demo2) \<and> f_q (fifo fifo_demo2) = []"
proof -
  have "\<not> work fifo_demo2 s'" for s'
  proof
    assume "work fifo_demo2 s'"
    then show False
      by (rule workE) (auto simp: fifo_demo2_def less_Suc_eq nth_Cons split: nat.splits)
  qed
  then have "\<nexists>s'. work fifo_demo2 s'" by blast
  with nobody_waits_in_vain [OF fifo_demo_reachable(2) this] show ?thesis
    by (simp add: fifo_demo2_def)
qed

end
