(* ===== verification/Tester.thy ===== *)
theory Tester
  imports Yfs_Files
begin

text \<open>
  The test program src/part1_tester.cc, which drives the extent client.  The numbers
  that \<open>rand\<close> returns are a stream that the program reads one by one; what the
  program prints is left out, its score is kept.  A test returns 0 or the number of
  the check that failed.
\<close>

section \<open>State and environment\<close>

definition FILE_NUM :: nat where "FILE_NUM = 50"
definition LARGE_FILE_SIZE :: nat where "LARGE_FILE_SIZE = 512 * 64"

record tester =
  t_ec :: extent_client
  t_rand :: nat
  total_score :: int

definition next_rand :: "(nat \<Rightarrow> nat) \<Rightarrow> tester \<Rightarrow> nat \<times> tester" where
  "next_rand rnd t = (rnd (t_rand t), t\<lparr>t_rand := Suc (t_rand t)\<rparr>)"

section \<open>\<open>test_create_and_getattr\<close>\<close>

text \<open>The two branches of the loop differ in the type only.\<close>

definition create_check :: "u32 \<Rightarrow> tester \<Rightarrow> (int \<times> tester) result" where
  "create_check type t =
     andThen (ec_create (t_ec t) type) (\<lambda>(_, eid, ec).
       let t = t\<lparr>t_ec := ec\<rparr>
       in if (ucast eid :: u32) = 0 then Inr (1, t)
          else andThen (ec_getattr (t_ec t) eid) (\<lambda>(st, a).
            if st \<noteq> OK then Inr (2, t)
            else if a_type a \<noteq> type then Inr (3, t)
            else Inr (0, t)))"

fun create_loop :: "(nat \<Rightarrow> nat) \<Rightarrow> nat \<Rightarrow> tester \<Rightarrow> (int \<times> tester) result" where
  "create_loop rnd 0 t = Inr (0, t)"
| "create_loop rnd (Suc n) t =
     (let (r, t) = next_rand rnd t; rnum = r mod 10
      in andThen (if rnum < 3 then create_check T_DIR t else create_check T_FILE t) (\<lambda>(code, t).
           if code \<noteq> 0 then Inr (code, t) else create_loop rnd n t))"

definition test_create_and_getattr :: "(nat \<Rightarrow> nat) \<Rightarrow> tester \<Rightarrow> (int \<times> tester) result" where
  "test_create_and_getattr rnd t =
     andThen (create_loop rnd FILE_NUM t) (\<lambda>(code, t).
       if code \<noteq> 0 then Inr (code, t)
       else Inr (0, t\<lparr>total_score := total_score t + 40\<rparr>))"

section \<open>\<open>test_indirect\<close>\<close>

fun fill_random :: "(nat \<Rightarrow> nat) \<Rightarrow> nat \<Rightarrow> tester \<Rightarrow> byte list \<times> tester" where
  "fill_random rnd 0 t = ([], t)"
| "fill_random rnd (Suc n) t =
     (let (r, t) = next_rand rnd t; rnum = r mod 26; (bs, t) = fill_random rnd n t
      in (word_of_nat (97 + rnum) # bs, t))"

text \<open>
  \<open>std::string buf(temp)\<close> reads up to the first zero byte.  The buffer holds none, so
  the constructor reads on in the memory behind it, which is an argument.
\<close>

definition string_of :: "byte list \<Rightarrow> byte list \<Rightarrow> byte list result" where
  "string_of temp beyond =
     (if 0 \<in> set (temp @ beyond) then Inr (takeWhile (\<lambda>b. b \<noteq> 0) (temp @ beyond)) else Inl HeapOverflow)"

definition test_indirect ::
    "(nat \<Rightarrow> nat) \<Rightarrow> byte list \<Rightarrow> byte list \<Rightarrow> tester \<Rightarrow> (int \<times> tester) result" where
  "test_indirect rnd beyond1 beyond2 t =
     andThen (ec_create (t_ec t) T_FILE) (\<lambda>(_, id1, ec).
     let t = t\<lparr>t_ec := ec\<rparr>; (temp1, t) = fill_random rnd LARGE_FILE_SIZE t in
     andThen (string_of temp1 beyond1) (\<lambda>buf.
     andThen (ec_put (t_ec t) id1 buf) (\<lambda>(st, ec).
     let t = t\<lparr>t_ec := ec\<rparr> in
     if st \<noteq> OK then Inr (1, t) else
     andThen (ec_create (t_ec t) T_FILE) (\<lambda>(_, id2, ec).
     let t = t\<lparr>t_ec := ec\<rparr>; (temp2, t) = fill_random rnd LARGE_FILE_SIZE t in
     andThen (string_of temp2 beyond2) (\<lambda>buf2.
     andThen (ec_put (t_ec t) id2 buf2) (\<lambda>(st, ec).
     let t = t\<lparr>t_ec := ec\<rparr> in
     if st \<noteq> OK then Inr (2, t) else
     andThen (ec_get (t_ec t) id1) (\<lambda>(st, buf_2, ec).
     let t = t\<lparr>t_ec := ec\<rparr> in
     if st \<noteq> OK then Inr (3, t)
     else if buf \<noteq> buf_2 then Inr (4, t) else
     andThen (ec_get (t_ec t) id2) (\<lambda>(st, buf2_2, ec).
     let t = t\<lparr>t_ec := ec\<rparr> in
     if st \<noteq> OK then Inr (5, t)
     else if buf2 \<noteq> buf2_2 then Inr (6, t)
     else Inr (0, t\<lparr>total_score := total_score t + 10\<rparr>)))))))))"

section \<open>\<open>test_put_and_get\<close>\<close>

text \<open>\<open>sprintf\<close> of \<open>%d\<close> into the ten bytes of \<open>temp\<close>.\<close>

definition print_int :: "int \<Rightarrow> byte list" where
  "print_int n = (if n < 0 then 45 # dec (nat (- n)) else dec (nat n))"

definition temp_string :: "int \<Rightarrow> byte list result" where
  "temp_string n = (if length (print_int n) < 10 then Inr (print_int n) else Inl HeapOverflow)"

fun put_loop ::
    "(nat \<Rightarrow> nat) \<Rightarrow> nat \<Rightarrow> nat \<Rightarrow> int list \<Rightarrow> tester \<Rightarrow> (int \<times> int list \<times> tester) result" where
  "put_loop rnd i 0 contents t = Inr (0, contents, t)"
| "put_loop rnd i (Suc n) contents t =
     (let eid = word_of_nat (i + 2)
      in andThen (ec_getattr (t_ec t) eid) (\<lambda>(st, a).
         if st \<noteq> OK then Inr (1, contents, t)
         else if a_type a = T_FILE then
           (let (r, t) = next_rand rnd t; rnum = r mod 10000
            in andThen (temp_string (int rnum)) (\<lambda>buf.
               andThen (ec_put (t_ec t) eid buf) (\<lambda>(st, ec).
               let t = t\<lparr>t_ec := ec\<rparr>
               in if st \<noteq> OK then Inr (2, contents, t)
                  else put_loop rnd (Suc i) n (contents[i := int rnum]) t)))
         else put_loop rnd (Suc i) n contents t))"

fun get_loop :: "nat \<Rightarrow> nat \<Rightarrow> int list \<Rightarrow> tester \<Rightarrow> (int \<times> tester) result" where
  "get_loop i 0 contents t = Inr (0, t)"
| "get_loop i (Suc n) contents t =
     (let eid = word_of_nat (i + 2)
      in andThen (ec_getattr (t_ec t) eid) (\<lambda>(st, a).
         if st \<noteq> OK then Inr (3, t)
         else if a_type a = T_FILE then
           andThen (ec_get (t_ec t) eid) (\<lambda>(st, buf, ec).
           let t = t\<lparr>t_ec := ec\<rparr>
           in if st \<noteq> OK then Inr (4, t)
              else andThen (temp_string (contents ! i)) (\<lambda>buf2.
                if buf \<noteq> buf2 then Inr (5, t) else get_loop (Suc i) n contents t))
         else get_loop (Suc i) n contents t))"

text \<open>The array of contents starts uninitialised; the result of \<open>test_indirect\<close> is dropped.\<close>

definition test_put_and_get ::
    "(nat \<Rightarrow> nat) \<Rightarrow> (nat \<Rightarrow> int) \<Rightarrow> byte list \<Rightarrow> byte list \<Rightarrow> tester \<Rightarrow> (int \<times> tester) result" where
  "test_put_and_get rnd junk beyond1 beyond2 t =
     andThen (put_loop rnd 0 FILE_NUM (map junk [0..<FILE_NUM]) t) (\<lambda>(code, contents, t).
       if code \<noteq> 0 then Inr (code, t)
       else andThen (get_loop 0 FILE_NUM contents t) (\<lambda>(code, t).
         if code \<noteq> 0 then Inr (code, t)
         else andThen (test_indirect rnd beyond1 beyond2 (t\<lparr>total_score := total_score t + 30\<rparr>)) (\<lambda>(_, t).
           Inr (0, t))))"

section \<open>\<open>test_remove\<close> and \<open>main\<close>\<close>

fun remove_loop :: "nat \<Rightarrow> nat \<Rightarrow> tester \<Rightarrow> (int \<times> tester) result" where
  "remove_loop i 0 t = Inr (0, t)"
| "remove_loop i (Suc n) t =
     (let eid = word_of_nat (i + 2)
      in andThen (ec_remove (t_ec t) eid) (\<lambda>(st, ec).
         let t = t\<lparr>t_ec := ec\<rparr>
         in if st \<noteq> OK then Inr (1, t)
            else andThen (ec_getattr (t_ec t) eid) (\<lambda>(_, a).
              if a_type a \<noteq> 0 then Inr (2, t) else remove_loop (Suc i) n t)))"

definition test_remove :: "tester \<Rightarrow> (int \<times> tester) result" where
  "test_remove t =
     andThen (remove_loop 0 FILE_NUM t) (\<lambda>(code, t).
       if code \<noteq> 0 then Inr (code, t)
       else Inr (0, t\<lparr>total_score := total_score t + 20\<rparr>))"

text \<open>The exit code and the score that is printed at the end.\<close>

definition part1_main ::
    "(nat \<Rightarrow> nat) \<Rightarrow> (nat \<Rightarrow> int) \<Rightarrow> byte list \<Rightarrow> byte list \<Rightarrow> nat \<Rightarrow> u32 \<Rightarrow> env \<Rightarrow> (int \<times> int) result" where
  "part1_main rnd junk beyond1 beyond2 argc static_inum e =
     (if argc \<noteq> 1 then Inr (1, 0)
      else andThen (extent_client_new static_inum e) (\<lambda>ec.
        andThen (test_create_and_getattr rnd \<lparr>t_ec = ec, t_rand = 0, total_score = 0\<rparr>) (\<lambda>(code, t).
          if code \<noteq> 0 then Inr (0, total_score t)
          else andThen (test_put_and_get rnd junk beyond1 beyond2 t) (\<lambda>(code, t).
            if code \<noteq> 0 then Inr (0, total_score t)
            else andThen (test_remove t) (\<lambda>(_, t). Inr (0, total_score t))))))"

end
