(* ===== verification/Tester_Properties.thy ===== *)
theory Tester_Properties
  imports Tester Demo
begin

text \<open>
  The test program reaches its full score, whatever numbers \<open>rand\<close> returns: each
  loop is followed on the abstract store through the contract of the extent layer.
\<close>

section \<open>The files of the test\<close>

abbreviation t_store :: "tester \<Rightarrow> store" where
  "t_store t \<equiv> ec_store (t_ec t)"

abbreviation t_ok :: "tester \<Rightarrow> bool" where
  "t_ok t \<equiv> ec_ok (t_ec t)"

text \<open>File \<open>j\<close> of the test is inode \<open>j + 2\<close>.\<close>

definition key :: "nat \<Rightarrow> u32" where
  "key j = word_of_nat (j + 2)"

lemma unat_key: "j < 1000 \<Longrightarrow> unat (key j) = j + 2"
  unfolding key_def by (rule unat_u32_of_nat) simp

lemma key_inj [simp]: "j < 1000 \<Longrightarrow> k < 1000 \<Longrightarrow> key j = key k \<longleftrightarrow> j = k"
  by (simp add: word_unat_eq_iff unat_key)

lemma extent_inum_key:
  assumes "j < 1000"
  shows "extent_inum (word_of_nat (j + 2)) = key j"
proof -
  have "unat (word_of_nat (j + 2) :: u64) = j + 2"
    using assms unfolding unat_of_nat by (intro mod_less) simp
  then have "unat (word_of_nat (j + 2) :: u64) = unat (ucast (key j) :: u64)"
    using assms by (simp add: unsigned_ucast_eq unat_key take_bit_nat_eq_self)
  then have "word_of_nat (j + 2) = (ucast (key j) :: u64)" by (simp only: word_unat_eq_iff)
  then show ?thesis using extent_inum_ucast [of "key j"] assms by (simp only: unat_key) simp
qed

definition has_files :: "(nat \<Rightarrow> u16) \<Rightarrow> (nat \<Rightarrow> byte list) \<Rightarrow> nat \<Rightarrow> store \<Rightarrow> bool" where
  "has_files T D n st \<longleftrightarrow>
     st_last st = word_of_nat (n + 1) \<and>
     (\<forall>j<n. (T j = DIR \<or> T j = REG) \<and> st_files st (key j) = Some (T j, D j))"

lemma has_filesD:
  assumes "has_files T D n st" "j < n"
  shows "st_files st (key j) = Some (T j, D j)" "T j = DIR \<or> T j = REG"
  using assms by (simp_all add: has_files_def)

text \<open>Few blocks for a short string, and no more than a file can have for any.\<close>

lemma blocks_bound:
  "length d \<le> 512 \<Longrightarrow> file_blocks d \<le> 1"
  "length d \<le> MAXFILE * BLOCK_SIZE \<Longrightarrow> file_blocks d \<le> 229"
proof -
  show "length d \<le> 512 \<Longrightarrow> file_blocks d \<le> 1"
    using blocks_small [of d] by (cases "d = []") simp_all
  assume "length d \<le> MAXFILE * BLOCK_SIZE"
  then have "\<not> 228 < nblk (int (length d))" by (simp add: nblk_less layout)
  then show "file_blocks d \<le> 229" by (simp add: file_blocks_def blocks_needed_def)
qed

section \<open>Creating\<close>

lemma create_check_ok:
  assumes "t_ok t" "has_files T (\<lambda>_. []) n (t_store t)" "n < 900" "ty = T_DIR \<or> ty = T_FILE"
  shows "\<exists>ec. create_check ty t = Inr (0, t\<lparr>t_ec := ec\<rparr>) \<and> ec_ok ec \<and>
    has_files (T(n := ucast ty)) (\<lambda>_. []) (Suc n) (ec_store ec) \<and>
    st_room (ec_store ec) = st_room (t_store t)"
proof -
  have last: "st_last (t_store t) = word_of_nat (n + 1)" using assms(2) by (simp add: has_files_def)
  then have next_key: "st_last (t_store t) + 1 = key n" by (simp add: key_def)
  have can: "can_create (t_store t)"
    using assms(3) by (simp add: can_create_def last unat_u32_of_nat layout del: of_nat_Suc of_nat_add)
  have nz: "(ucast ty :: u16) \<noteq> 0" using assms(4) by auto
  obtain ec where ec: "ec_create (t_ec t) ty = Inr (OK, ucast (key n), ec)" "ec_ok ec"
      "ec_store ec = store_create (t_store t) ty"
    using ec.create_ok [OF assms(1) can nz] next_key by auto
  have inum: "extent_inum (ucast (key n)) = key n"
    using ec.last_small(2) [OF can] by (simp add: next_key)
  have fl: "st_files (ec_store ec) (extent_inum (ucast (key n))) = Some (ucast ty, [])"
    by (simp add: ec(3) inum next_key)
  obtain a where a: "ec_getattr ec (ucast (key n)) = Inr (OK, a)" "a_type a = scast (ucast ty :: u16)"
    using ec.attrs_ok [OF ec(2) fl] by blast
  have ty: "scast (ucast ty :: u16) = ty" using assms(4) by auto
  have "key n \<noteq> 0"
    using unat_key [of n] assms(3) by auto
  moreover have "(ucast (ucast (key n) :: u64) :: u32) = key n"
    by (rule bit_word_eqI) (simp add: bit_simps)
  ultimately have "create_check ty t = Inr (0, t\<lparr>t_ec := ec\<rparr>)"
    by (simp add: create_check_def ec(1) a ty)
  moreover have "has_files (T(n := ucast ty)) (\<lambda>_. []) (Suc n) (ec_store ec)"
  proof -
    have "st_files (ec_store ec) = (st_files (t_store t))(key n \<mapsto> (ucast ty, []))"
      "st_last (ec_store ec) = word_of_nat (Suc n + 1)"
      unfolding ec(3) store_create_simps next_key by (simp_all add: key_def)
    then show ?thesis
      using assms(2,3,4) unfolding has_files_def by (auto simp: less_Suc_eq)
  qed
  ultimately show ?thesis using ec(2,3) by auto
qed

lemma create_loop_ok:
  assumes "t_ok t" "has_files T (\<lambda>_. []) m (t_store t)" "m + n < 900"
  shows "\<exists>ec k T'. create_loop rnd n t = Inr (0, t\<lparr>t_ec := ec, t_rand := k\<rparr>) \<and> ec_ok ec \<and>
    has_files T' (\<lambda>_. []) (m + n) (ec_store ec) \<and> st_room (ec_store ec) = st_room (t_store t)"
  using assms
proof (induction n arbitrary: m T t)
  case 0
  then show ?case by (intro exI [of _ "t_ec t"] exI [of _ "t_rand t"] exI [of _ T]) simp
next
  case (Suc n)
  let ?t = "t\<lparr>t_rand := Suc (t_rand t)\<rparr>"
  let ?ty = "if rnd (t_rand t) mod 10 < 3 then T_DIR else T_FILE"
  have "t_ok ?t" "has_files T (\<lambda>_. []) m (t_store ?t)" "m < 900" "?ty = T_DIR \<or> ?ty = T_FILE"
    using Suc.prems by simp_all
  then obtain ec where ec: "create_check ?ty ?t = Inr (0, ?t\<lparr>t_ec := ec\<rparr>)" "ec_ok ec"
      "has_files (T(m := ucast ?ty)) (\<lambda>_. []) (Suc m) (ec_store ec)"
      "st_room (ec_store ec) = st_room (t_store ?t)"
    using create_check_ok by blast
  then have "create_loop rnd (Suc n) t = create_loop rnd n (?t\<lparr>t_ec := ec\<rparr>)"
    by (simp add: next_rand_def split: if_splits)
  moreover obtain T2 where "has_files T2 (\<lambda>_. []) (Suc m) (ec_store ec)" using ec(3) by blast
  moreover obtain ec' k T' where "create_loop rnd n (?t\<lparr>t_ec := ec\<rparr>) = Inr (0, t\<lparr>t_ec := ec', t_rand := k\<rparr>)"
      "ec_ok ec'" "has_files T' (\<lambda>_. []) (m + Suc n) (ec_store ec')" "st_room (ec_store ec') = st_room (t_store t)"
    using Suc.IH [of "?t\<lparr>t_ec := ec\<rparr>" T2 "Suc m"] calculation(2) ec(2,4) Suc.prems(3) by auto
  ultimately show ?case
    by (intro exI [of _ ec'] exI [of _ k] exI [of _ T']) (simp del: create_loop.simps)
qed

section \<open>Putting and getting\<close>

lemma temp_string_ok:
  assumes "0 \<le> n" "n < 10000"
  shows "temp_string n = Inr (print_int n)" "length (print_int n) \<le> 512"
proof -
  have len: "length (dec k) \<le> 4" if "k < 10000" for k
    using that by (simp add: dec.simps [of k] dec.simps [of "k div 10"] dec.simps [of "k div 10 div 10"]
        dec.simps [of "k div 10 div 10 div 10"])
  have "length (print_int n) \<le> 4"
    using assms len [of "nat n"] by (simp add: print_int_def)
  then show "temp_string n = Inr (print_int n)" "length (print_int n) \<le> 512"
    by (simp_all add: temp_string_def)
qed

text \<open>The type of a file of the test, as getattr reports it.\<close>

lemma getattr_file:
  assumes "t_ok t" "has_files T D n (t_store t)" "j < n" "n < 900"
  shows "\<exists>a. ec_getattr (t_ec t) (word_of_nat (j + 2)) = Inr (OK, a) \<and> (a_type a = T_FILE \<longleftrightarrow> T j = REG)"
proof -
  have "st_files (t_store t) (extent_inum (word_of_nat (j + 2))) = Some (T j, D j)"
    using has_filesD(1) [OF assms(2,3)] extent_inum_key [of j] assms(3,4) by simp
  from ec.attrs_ok [OF assms(1) this] show ?thesis by auto
qed

text \<open>What the array holds for the files written so far.\<close>

definition written :: "(nat \<Rightarrow> u16) \<Rightarrow> (nat \<Rightarrow> byte list) \<Rightarrow> int list \<Rightarrow> nat \<Rightarrow> bool" where
  "written T D arr i \<longleftrightarrow>
     (\<forall>j<i. T j = REG \<longrightarrow> 0 \<le> arr ! j \<and> arr ! j < 10000 \<and> D j = print_int (arr ! j))"

lemma put_loop_ok:
  assumes "t_ok t" "has_files T D (i + n) (t_store t)" "i + n < 900" "length arr = i + n"
    and "\<forall>j\<ge>i. D j = []" "written T D arr i" "n \<le> st_room (t_store t)"
  shows "\<exists>ec k D' arr'. put_loop rnd i n arr t = Inr (0, arr', t\<lparr>t_ec := ec, t_rand := k\<rparr>) \<and>
    ec_ok ec \<and> has_files T D' (i + n) (ec_store ec) \<and> written T D' arr' (i + n) \<and>
    st_room (t_store t) \<le> st_room (ec_store ec) + n"
  using assms
proof (induction n arbitrary: i t D arr)
  case 0
  then show ?case
    by (intro exI [of _ "t_ec t"] exI [of _ "t_rand t"] exI [of _ D] exI [of _ arr]) simp
next
  case (Suc n)
  let ?id = "word_of_nat (i + 2) :: u64"
  obtain a where a: "ec_getattr (t_ec t) ?id = Inr (OK, a)" "a_type a = T_FILE \<longleftrightarrow> T i = REG"
    using getattr_file [OF Suc.prems(1,2), of i] Suc.prems(3) by auto
  show ?case
  proof (cases "T i = REG")
    case False
    have "put_loop rnd i (Suc n) arr t = put_loop rnd (Suc i) n arr t"
      using a False by (simp del: of_nat_add)
    moreover have "written T D arr (Suc i)"
      using Suc.prems(6) False by (auto simp: written_def less_Suc_eq)
    moreover obtain ec k D' arr' where "put_loop rnd (Suc i) n arr t = Inr (0, arr', t\<lparr>t_ec := ec, t_rand := k\<rparr>)"
        "ec_ok ec" "has_files T D' (i + Suc n) (ec_store ec)" "written T D' arr' (i + Suc n)"
        "st_room (t_store t) \<le> st_room (ec_store ec) + n"
      using Suc.IH [of t D "Suc i" arr] Suc.prems calculation(2) by auto
    ultimately show ?thesis
      by (intro exI [of _ ec] exI [of _ k] exI [of _ D'] exI [of _ arr']) (simp del: put_loop.simps)
  next
    case True
    let ?v = "int (rnd (t_rand t) mod 10000)"
    note v = temp_string_ok [of ?v]
    have k: "extent_inum ?id = key i" using extent_inum_key [of i] Suc.prems(3) by simp
    have fl: "st_files (t_store t) (key i) = Some (REG, [])"
      using has_filesD(1) [OF Suc.prems(2), of i] Suc.prems(5) True by simp
    have can: "can_put (t_store t) (key i) (print_int ?v)"
      using blocks_bound(1) [OF v(2)] v(2) Suc.prems(7) by (simp add: can_put_def fl layout)
    obtain ec where ec: "ec_put (t_ec t) ?id (print_int ?v) = Inr (OK, ec)" "ec_ok ec"
        "ec_store ec = store_put (t_store t) (key i) (print_int ?v)"
      using ec.put_ok [OF Suc.prems(1) can [folded k]] unfolding k by blast
    let ?t = "t\<lparr>t_rand := Suc (t_rand t), t_ec := ec\<rparr>" and ?D = "D(i := print_int ?v)"
      and ?c = "arr[i := ?v]"
    have "put_loop rnd i (Suc n) arr t = put_loop rnd (Suc i) n ?c ?t"
      using a True v(1) ec(1) by (simp add: next_rand_def del: of_nat_add of_nat_mod)
    moreover have "has_files T ?D (Suc i + n) (t_store ?t)"
      using Suc.prems(2,3) fl by (auto simp: has_files_def ec(3))
    moreover have "written T ?D ?c (Suc i)"
    proof -
      have "?c ! i = ?v" using Suc.prems(4) by simp
      then show ?thesis using Suc.prems(6) by (auto simp: written_def less_Suc_eq)
    qed
    moreover have room: "st_room (t_store t) \<le> st_room (t_store ?t) + 1"
      using blocks_bound(1) [OF v(2)] fl by (simp add: ec(3) store_put_room)
    moreover obtain ec k D' arr' where "put_loop rnd (Suc i) n ?c ?t = Inr (0, arr', ?t\<lparr>t_ec := ec, t_rand := k\<rparr>)"
        "ec_ok ec" "has_files T D' (i + Suc n) (ec_store ec)" "written T D' arr' (i + Suc n)"
        "st_room (t_store ?t) \<le> st_room (ec_store ec) + n"
    proof -
      obtain D2 where "has_files T D2 (Suc i + n) (t_store ?t)" "written T D2 ?c (Suc i)"
          "\<forall>j\<ge>Suc i. D2 j = []"
        using calculation(2,3) Suc.prems(5) by fastforce
      then show thesis
        using that Suc.IH [of ?t D2 "Suc i" ?c] Suc.prems calculation(4) ec(2) by auto
    qed
    ultimately show ?thesis
      by (intro exI [of _ ec] exI [of _ k] exI [of _ D'] exI [of _ arr']) (simp del: put_loop.simps)
  qed
qed

lemma get_loop_ok:
  assumes "t_ok t" "has_files T D (i + n) (t_store t)" "i + n < 900" "written T D arr (i + n)"
  shows "\<exists>ec. get_loop i n arr t = Inr (0, t\<lparr>t_ec := ec\<rparr>) \<and> ec_ok ec \<and> ec_store ec = t_store t"
  using assms
proof (induction n arbitrary: i t)
  case 0
  then show ?case by (intro exI [of _ "t_ec t"]) simp
next
  case (Suc n)
  let ?id = "word_of_nat (i + 2) :: u64"
  have k: "extent_inum ?id = key i" using extent_inum_key [of i] Suc.prems(3) by simp
  have fl: "st_files (t_store t) (extent_inum ?id) = Some (T i, D i)"
    unfolding k using has_filesD(1) [OF Suc.prems(2), of i] by simp
  obtain a where a: "ec_getattr (t_ec t) ?id = Inr (OK, a)" "a_type a = T_FILE \<longleftrightarrow> T i = REG"
    using getattr_file [OF Suc.prems(1,2), of i] Suc.prems(3) by auto
  show ?case
  proof (cases "T i = REG")
    case False
    have "get_loop i (Suc n) arr t = get_loop (Suc i) n arr t"
      using a False by (simp del: of_nat_add)
    then show ?thesis using Suc.IH [of t "Suc i"] Suc.prems by (simp del: get_loop.simps)
  next
    case True
    obtain ec where ec: "ec_get (t_ec t) ?id = Inr (OK, D i, ec)" "ec_ok ec" "ec_store ec = t_store t"
      using ec.get_ok [OF Suc.prems(1) fl] by blast
    have v: "0 \<le> arr ! i" "arr ! i < 10000" "D i = print_int (arr ! i)"
      using Suc.prems(4) True by (simp_all add: written_def)
    have "get_loop i (Suc n) arr t = get_loop (Suc i) n arr (t\<lparr>t_ec := ec\<rparr>)"
      using a True v(3) temp_string_ok(1) [OF v(1,2)] ec(1) by (simp del: of_nat_add)
    then show ?thesis
      using Suc.IH [of "t\<lparr>t_ec := ec\<rparr>" "Suc i"] Suc.prems ec(2,3) by (simp del: get_loop.simps)
  qed
qed

section \<open>Large files\<close>

lemma fill_random_eq:
  "\<exists>bs. length bs = n \<and> 0 \<notin> set bs \<and>
     (\<forall>t. t_rand t = k \<longrightarrow> fill_random rnd n t = (bs, t\<lparr>t_rand := k + n\<rparr>))"
proof (induction n arbitrary: k)
  case 0
  show ?case by (intro exI [of _ "[]"]) auto
next
  case (Suc n)
  let ?r = "rnd k mod 26"
  obtain bs where bs: "length bs = n" "0 \<notin> set bs"
      "\<And>t. t_rand t = Suc k \<Longrightarrow> fill_random rnd n t = (bs, t\<lparr>t_rand := Suc k + n\<rparr>)"
    using Suc.IH [of "Suc k"] by blast
  have "?r < 26" by simp
  then have "97 + ?r < 2 ^ LENGTH(8)" by simp
  then have "unat (word_of_nat (97 + ?r) :: byte) = 97 + ?r" unfolding unat_of_nat by (rule mod_less)
  then have "(word_of_nat (97 + ?r) :: byte) \<noteq> 0" by (metis add_is_0 unsigned_0 zero_neq_numeral)
  with bs show ?case
    by (intro exI [of _ "word_of_nat (97 + ?r) # bs"]) (simp add: next_rand_def del: of_nat_add)
qed

text \<open>The string read from a filled buffer and the memory behind it.\<close>

lemma string_of_filled:
  assumes "0 \<notin> set temp" "0 \<in> set beyond"
  shows "string_of temp beyond = Inr (temp @ c_str beyond)"
  using assms by (auto simp: string_of_def c_str_def takeWhile_append)

lemma test_indirect_ok:
  assumes "t_ok t" "has_files T D 50 (t_store t)" "458 \<le> st_room (t_store t)"
    and "0 \<in> set beyond1" "0 \<in> set beyond2"
    and "LARGE_FILE_SIZE + length (c_str beyond1) \<le> MAXFILE * BLOCK_SIZE"
    and "LARGE_FILE_SIZE + length (c_str beyond2) \<le> MAXFILE * BLOCK_SIZE"
  shows "\<exists>ec k. test_indirect rnd beyond1 beyond2 t =
      Inr (0, t\<lparr>t_ec := ec, t_rand := k, total_score := total_score t + 10\<rparr>) \<and>
    ec_ok ec \<and> (\<forall>j<50. st_files (ec_store ec) (key j) = Some (T j, D j))"
proof -
  let ?n = LARGE_FILE_SIZE and ?k = "t_rand t"
  obtain temp1 where f1: "length temp1 = ?n" "0 \<notin> set temp1"
      "\<And>t. t_rand t = ?k \<Longrightarrow> fill_random rnd ?n t = (temp1, t\<lparr>t_rand := ?k + ?n\<rparr>)"
    using fill_random_eq [of ?n ?k rnd] by blast
  obtain temp2 where f2: "length temp2 = ?n" "0 \<notin> set temp2"
      "\<And>t. t_rand t = ?k + ?n \<Longrightarrow> fill_random rnd ?n t = (temp2, t\<lparr>t_rand := ?k + ?n + ?n\<rparr>)"
    using fill_random_eq [of ?n "?k + ?n" rnd] by blast
  define buf1 buf2 where "buf1 = temp1 @ c_str beyond1" and "buf2 = temp2 @ c_str beyond2"
  have len: "length buf1 \<le> MAXFILE * BLOCK_SIZE" "length buf2 \<le> MAXFILE * BLOCK_SIZE"
    using assms(6,7) f1(1) f2(1) by (simp_all add: buf1_def buf2_def)
  have strs: "string_of temp1 beyond1 = Inr buf1" "string_of temp2 beyond2 = Inr buf2"
    using string_of_filled f1(2) f2(2) assms(4,5) by (simp_all add: buf1_def buf2_def)
  have nz: "(ucast T_FILE :: u16) \<noteq> 0" by simp
  have last: "st_last (t_store t) + 1 = key 50" using assms(2) by (simp add: has_files_def key_def)
  have can: "can_create (t_store t)" using assms(2) by (simp add: can_create_def has_files_def layout)
  have "file_blocks buf1 \<le> st_room (t_store t)" using blocks_bound(2) [OF len(1)] assms(3) by simp
  from ec.create_put [OF assms(1) can nz len(1) this, unfolded last]
  obtain ec1 ec2 id1 where 1: "ec_create (t_ec t) T_FILE = Inr (OK, id1, ec1)" "extent_inum id1 = key 50"
      "ec_put ec1 id1 buf1 = Inr (OK, ec2)" "ec_ok ec2"
      "st_files (ec_store ec2) = (st_files (t_store t))(key 50 \<mapsto> (REG, buf1))"
      "st_last (ec_store ec2) = key 50" "st_room (ec_store ec2) = st_room (t_store t) - file_blocks buf1"
    by auto
  have last: "st_last (ec_store ec2) + 1 = key 51" by (simp add: 1(6) key_def)
  have can: "can_create (ec_store ec2)" using 1(6) by (simp add: can_create_def unat_key layout)
  have "file_blocks buf2 \<le> st_room (ec_store ec2)"
    using blocks_bound(2) [OF len(1)] blocks_bound(2) [OF len(2)] assms(3) by (simp add: 1(7))
  from ec.create_put [OF 1(4) can nz len(2) this, unfolded last]
  obtain ec3 ec4 id2 where 2: "ec_create ec2 T_FILE = Inr (OK, id2, ec3)" "extent_inum id2 = key 51"
      "ec_put ec3 id2 buf2 = Inr (OK, ec4)" "ec_ok ec4"
      "st_files (ec_store ec4) = (st_files (ec_store ec2))(key 51 \<mapsto> (REG, buf2))"
    by auto
  have fl: "st_files (ec_store ec4) (extent_inum id1) = Some (REG, buf1)"
    "st_files (ec_store ec4) (extent_inum id2) = Some (REG, buf2)"
    by (simp_all add: 2(5,2) 1(5,2))
  obtain ec5 where 3: "ec_get ec4 id1 = Inr (OK, buf1, ec5)" "ec_ok ec5" "ec_store ec5 = ec_store ec4"
    using ec.get_ok [OF 2(4) fl(1)] by blast
  obtain ec6 where 4: "ec_get ec5 id2 = Inr (OK, buf2, ec6)" "ec_ok ec6" "ec_store ec6 = ec_store ec5"
    using ec.get_ok [OF 3(2) fl(2) [folded 3(3)]] by blast
  have "test_indirect rnd beyond1 beyond2 t =
      Inr (0, t\<lparr>t_ec := ec6, t_rand := ?k + ?n + ?n, total_score := total_score t + 10\<rparr>)"
    by (simp add: test_indirect_def 1(1,3) 2(1,3) 3(1) 4(1) f1(3) f2(3) strs)
  moreover have "\<forall>j<50. st_files (ec_store ec6) (key j) = Some (T j, D j)"
    using assms(2) by (simp add: 4(3) 3(3) 2(5) 1(5) has_files_def)
  ultimately show ?thesis using 4(2) by blast
qed

section \<open>Removing\<close>

lemma remove_loop_ok:
  assumes "t_ok t" "i + n < 900" "\<forall>j. i \<le> j \<and> j < i + n \<longrightarrow> st_files (t_store t) (key j) \<noteq> None"
  shows "\<exists>ec. remove_loop i n t = Inr (0, t\<lparr>t_ec := ec\<rparr>)"
  using assms
proof (induction n arbitrary: i t)
  case 0
  then show ?case by (intro exI [of _ "t_ec t"]) simp
next
  case (Suc n)
  let ?id = "word_of_nat (i + 2) :: u64"
  have k: "extent_inum ?id = key i" using extent_inum_key [of i] Suc.prems(2) by simp
  have fl: "st_files (t_store t) (extent_inum ?id) \<noteq> None" unfolding k using Suc.prems(3) by simp
  obtain ec where ec: "ec_remove (t_ec t) ?id = Inr (OK, ec)" "ec_ok ec"
      "ec_store ec = store_remove (t_store t) (key i)"
    using ec.remove_ok [OF Suc.prems(1) fl] unfolding k by blast
  have "st_files (ec_store ec) (extent_inum ?id) = None" unfolding k by (simp add: ec(3))
  then have "ec_getattr ec ?id = Inr (OK, zero_attr)" by (rule ec.attrs_none [OF ec(2)])
  then have "remove_loop i (Suc n) t = remove_loop (Suc i) n (t\<lparr>t_ec := ec\<rparr>)"
    using ec(1) by (simp add: zero_attr_def)
  moreover have "\<forall>j. Suc i \<le> j \<and> j < Suc i + n \<longrightarrow> st_files (ec_store ec) (key j) \<noteq> None"
    using Suc.prems(2,3) by (auto simp: ec(3))
  ultimately show ?case
    using Suc.IH [of "t\<lparr>t_ec := ec\<rparr>" "Suc i"] Suc.prems(2) ec(2) by (simp del: remove_loop.simps)
qed

section \<open>The score\<close>

text \<open>
  C17. The repository's own test passes: for every stream of random numbers and every
  clock, the test program run on a new file system creates its fifty files, reads
  back what it wrote in them and in two large files, removes them, and ends with the
  score 100, provided the memory behind its two unterminated buffers holds a zero
  byte before the largest size of a file is reached.
\<close>

theorem part1_full_score:
  assumes "0 \<in> set beyond1" "0 \<in> set beyond2"
    and "LARGE_FILE_SIZE + length (c_str beyond1) \<le> MAXFILE * BLOCK_SIZE"
    and "LARGE_FILE_SIZE + length (c_str beyond2) \<le> MAXFILE * BLOCK_SIZE"
  shows "part1_main rnd junk beyond1 beyond2 1 0 e = Inr (0, 100)"
proof -
  obtain ec where ec: "extent_client_new 0 e = Inr ec" "ec_ok ec"
      "ec_store ec = \<lparr>st_files = [1 \<mapsto> (DIR, [])], st_last = 1, st_room = 24576\<rparr>"
    by (rule ec_new_ok)
  let ?t = "\<lparr>t_ec = ec, t_rand = 0, total_score = 0\<rparr>"
  have "has_files (\<lambda>_. DIR) (\<lambda>_. []) 0 (t_store ?t)" by (simp add: has_files_def ec(3))
  with create_loop_ok [of ?t "\<lambda>_. DIR" 0 50 rnd] ec(2)
  obtain ec1 k1 T where 1: "create_loop rnd 50 ?t = Inr (0, ?t\<lparr>t_ec := ec1, t_rand := k1\<rparr>)" "ec_ok ec1"
      "has_files T (\<lambda>_. []) 50 (ec_store ec1)" "st_room (ec_store ec1) = 24576"
    by (auto simp: ec(3))
  let ?t1 = "\<lparr>t_ec = ec1, t_rand = k1, total_score = 40\<rparr>" and ?arr = "map junk [0..<50]"
  have "written T (\<lambda>_. []) ?arr 0" by (simp add: written_def)
  with put_loop_ok [of ?t1 T "\<lambda>_. []" 0 50 ?arr rnd] 1(2-4)
  obtain ec2 k2 D arr where 2: "put_loop rnd 0 50 ?arr ?t1 = Inr (0, arr, ?t1\<lparr>t_ec := ec2, t_rand := k2\<rparr>)"
      "ec_ok ec2" "has_files T D 50 (ec_store ec2)" "written T D arr 50" "24526 \<le> st_room (ec_store ec2)"
    by auto
  let ?t2 = "\<lparr>t_ec = ec2, t_rand = k2, total_score = 40\<rparr>"
  obtain ec3 where 3: "get_loop 0 50 arr ?t2 = Inr (0, ?t2\<lparr>t_ec := ec3\<rparr>)" "ec_ok ec3"
      "ec_store ec3 = ec_store ec2"
    using get_loop_ok [of ?t2 T D 0 50 arr] 2(2-4) by auto
  let ?t3 = "\<lparr>t_ec = ec3, t_rand = k2, total_score = 70\<rparr>"
  obtain ec4 k4 where 4: "test_indirect rnd beyond1 beyond2 ?t3 =
        Inr (0, ?t3\<lparr>t_ec := ec4, t_rand := k4, total_score := 80\<rparr>)" "ec_ok ec4"
      "\<forall>j<50. st_files (ec_store ec4) (key j) = Some (T j, D j)"
    using test_indirect_ok [of ?t3 T D beyond1 beyond2 rnd] assms 2(3,5) 3(2,3) by auto
  let ?t4 = "\<lparr>t_ec = ec4, t_rand = k4, total_score = 80\<rparr>"
  obtain ec5 where 5: "remove_loop 0 50 ?t4 = Inr (0, ?t4\<lparr>t_ec := ec5\<rparr>)"
    using remove_loop_ok [of ?t4 0 50] 4(2,3) by auto
  have "test_create_and_getattr rnd ?t = Inr (0, ?t1)"
    using 1(1) by (simp add: test_create_and_getattr_def FILE_NUM_def)
  moreover have "test_put_and_get rnd junk beyond1 beyond2 ?t1 = Inr (0, ?t4)"
    using 2(1) 3(1) 4(1) by (simp add: test_put_and_get_def FILE_NUM_def)
  moreover have "test_remove ?t4 = Inr (0, ?t4\<lparr>t_ec := ec5, total_score := 100\<rparr>)"
    using 5 by (simp add: test_remove_def FILE_NUM_def)
  ultimately show ?thesis by (simp add: part1_main_def ec(1))
qed

theorem part1_full_score_witness:
  "part1_main (\<lambda>k. 7 * k) (\<lambda>_. 0) [0] [65, 0] 1 0 demo_env = Inr (0, 100)"
  by (rule part1_full_score) (simp_all add: c_str_def LARGE_FILE_SIZE_def layout)

end
