(* ===== verification/Space.thy ===== *)
theory Space
  imports Fs_Refine
begin

text \<open>
  Accounting of disk space: the free data blocks and the blocks of all files
  together are always the 24576 data blocks of the disk.
\<close>

definition space_ok :: "store \<Rightarrow> bool" where
  "space_ok st \<longleftrightarrow> finite (dom (st_files st)) \<and>
     st_room st + (\<Sum>k \<in> dom (st_files st). file_blocks (contents st k)) = 24576"

lemma space_new: "space_ok \<lparr>st_files = [1 \<mapsto> (DIR, [])], st_last = 1, st_room = 24576\<rparr>"
  by (simp add: space_ok_def contents_def)

lemma sum_files_update:
  assumes "finite (dom F)" "k \<notin> dom F"
  shows "(\<Sum>j \<in> dom (F(k \<mapsto> f)). g ((F(k \<mapsto> f)) j)) = (g (Some f) :: nat) + (\<Sum>j \<in> dom F. g (F j))"
proof -
  have "(\<Sum>j \<in> dom F. g ((F(k \<mapsto> f)) j)) = (\<Sum>j \<in> dom F. g (F j))"
    using assms(2) by (intro sum.cong) auto
  then show ?thesis using assms by (simp add: sum.insert)
qed

definition size_of :: "(u16 \<times> byte list) option \<Rightarrow> nat" where
  "size_of f = (case f of None \<Rightarrow> 0 | Some (t, d) \<Rightarrow> file_blocks d)"

lemma contents_size: "file_blocks (contents st k) = size_of (st_files st k)"
  by (simp add: contents_def size_of_def split: option.split)

lemma sum_files_out:
  assumes "finite (dom F)" "F k = Some f"
  shows "(\<Sum>j \<in> dom F. size_of (F j)) =
    size_of (Some f) + (\<Sum>j \<in> dom (F(k := None)). size_of ((F(k := None)) j))"
proof -
  have "F = (F(k := None))(k \<mapsto> f)" using assms(2) by auto
  moreover have "finite (dom (F(k := None)))" using assms(1) by simp
  ultimately show ?thesis
    using sum_files_update [of "F(k := None)" k size_of f] by simp
qed

lemma space_iff:
  "space_ok st \<longleftrightarrow> finite (dom (st_files st)) \<and>
     st_room st + (\<Sum>k \<in> dom (st_files st). size_of (st_files st k)) = 24576"
  by (simp add: space_ok_def contents_size)

lemma space_create:
  assumes "space_ok st" "st_files st (st_last st + 1) = None"
  shows "space_ok (store_create st t)"
  using assms sum_files_update [of "st_files st" "st_last st + 1" size_of "(ucast t, [])"]
  by (simp add: space_iff size_of_def domIff)

lemma space_put:
  assumes "space_ok st" "can_put st k d"
  shows "space_ok (store_put st k d)"
proof -
  obtain t old where f: "st_files st k = Some (t, old)" "file_blocks d \<le> st_room st + file_blocks old"
    using assms(2) by (auto simp: can_put_def split: option.splits)
  have fin: "finite (dom (st_files st))" using assms(1) by (simp add: space_iff)
  let ?F = "st_files st"
  have out: "(\<Sum>j \<in> dom ?F. size_of (?F j)) =
      file_blocks old + (\<Sum>j \<in> dom (?F(k := None)). size_of ((?F(k := None)) j))"
    using sum_files_out [OF fin f(1)] by (simp add: size_of_def)
  have "(?F(k := None))(k \<mapsto> (t, d)) = ?F(k \<mapsto> (t, d))" by simp
  then have "(\<Sum>j \<in> dom (?F(k \<mapsto> (t, d))). size_of ((?F(k \<mapsto> (t, d))) j)) =
      file_blocks d + (\<Sum>j \<in> dom (?F(k := None)). size_of ((?F(k := None)) j))"
    using sum_files_update [of "?F(k := None)" k size_of "(t, d)"] fin by (simp add: size_of_def)
  then have "st_room (store_put st k d) +
      (\<Sum>j \<in> dom (st_files (store_put st k d)). size_of (st_files (store_put st k d) j)) = 24576"
    using assms(1) out f(2) unfolding space_iff store_put_files [OF f(1)] store_put_room [OF f(1)]
    by linarith
  then show ?thesis using fin unfolding space_iff by (simp add: store_put_files [OF f(1)])
qed

lemma space_remove:
  assumes "space_ok st"
  shows "space_ok (store_remove st k)"
proof (cases "st_files st k")
  case None
  then show ?thesis using assms by (simp add: store_remove_def)
next
  case (Some f)
  obtain t old where f: "f = (t, old)" by (cases f)
  have "st_room (store_remove st k) = st_room st + file_blocks old"
    using Some by (simp add: store_remove_def f)
  moreover have "finite (dom (st_files st))" using assms by (simp add: space_iff)
  ultimately show ?thesis
    using assms sum_files_out [of "st_files st" k f] Some unfolding space_iff by (simp add: f size_of_def)
qed

lemma space_apply:
  assumes fs: "fs_ok y" and sp: "space_ok (y_store y)" and adm: "admissible L tsym (y_store y) req"
  shows "space_ok (fs_apply L tsym (y_store y) req)"
proof -
  let ?st = "y_store y"
  have fresh: "st_files ?st (st_last ?st + 1) = None" if "can_create ?st"
    using fs_okD(3) [OF fs, of "st_last ?st + 1"] next_inum(3) [OF that]
    by (cases "st_files ?st (st_last ?st + 1)") (simp_all add: word_le_nat_alt)
  have print: "print_entries (entries ?st (extent_inum p) @ [\<lparr>d_name = name, d_inum = next_inum ?st\<rparr>]) =
      contents ?st (extent_inum p) @ entry_bytes name (next_inum ?st)" if "has_type ?st p DIR" for p name
    using fs_dir(2) [OF fs that] by simp
  have other: "extent_inum p \<noteq> st_last ?st + 1" if "has_type ?st p DIR" "can_create ?st" for p
    using fresh [OF that(2)] that(1) by (auto simp: has_type_def)
  have link: "space_ok (fs_link ty ?st (extent_inum p) name)" if fits: "make_fits ?st p name" for ty p name
  proof (cases "dir_find name (entries ?st (extent_inum p))")
    case None
    then have F: "has_type ?st p DIR" "can_create ?st"
        "can_put ?st (extent_inum p) (contents ?st (extent_inum p) @ entry_bytes name (next_inum ?st))"
      using fits by (simp_all add: make_fits_def link_fits_def)
    show ?thesis
      using space_put [OF space_create [OF sp fresh [OF F(2)]]] can_put_create [OF other [OF F(1,2)]] F(3) sp
      unfolding fs_link_def print [OF F(1)] by simp
  qed (use sp in \<open>simp add: fs_link_def\<close>)
  have sym: "space_ok (fs_symlink tsym ?st link (extent_inum p) name)"
    if a: "admissible L tsym ?st (ReqSymlink link p name)" for link p name
  proof -
    have F: "has_type ?st p DIR" "can_create ?st" "length link \<le> MAXFILE * BLOCK_SIZE"
        "file_blocks link \<le> st_room ?st"
        "can_put (store_put (store_create ?st tsym) (st_last ?st + 1) link) (extent_inum p)
           (contents ?st (extent_inum p) @ entry_bytes name (next_inum ?st))"
      using a by (simp_all add: link_fits_def)
    have "can_put (store_create ?st tsym) (st_last ?st + 1) link"
      using F(3,4) by (simp add: can_put_def)
    then show ?thesis
      unfolding fs_symlink_def print [OF F(1)]
      by (intro space_put space_create sp fresh F)
  qed
  have unl: "space_ok (fs_unlink ?st (extent_inum p) name)" if dirt: "has_type ?st p DIR" for p name
  proof (cases "dir_find name (entries ?st (extent_inum p))")
    case (Some e)
    let ?es = "entries ?st (extent_inum p)"
    have dir: "dir_at ?st (extent_inum p) ?es" using fs_dir(1) [OF fs dirt] .
    have "extent_inum p < ekey e"
      using tree_okD(5) [OF fs_okD(2) [OF fs]] dir dir_find_SomeD [OF Some] by (simp add: dir_at_in)
    moreover have "length (print_entries ?es) \<le> MAXFILE * BLOCK_SIZE"
      using ec.bounded [of "yfs_ec y" "extent_inum p"] fs_okD(1) [OF fs] dir
      by (auto simp: y_ok_def y_store_def dir_at_def)
    ultimately have "can_put (store_remove ?st (ekey e)) (extent_inum p) (print_entries (erase_first name ?es))"
      using dir by (intro can_put_remove [OF _ length_erase_first]) (auto simp: dir_at_def)
    then show ?thesis
      using space_put [OF space_remove [OF sp]] by (simp add: fs_unlink_def Some)
  qed (use sp in \<open>simp add: fs_unlink_def\<close>)
  show ?thesis
    using adm sp link sym unl space_put [OF sp] by (cases req) auto
qed

lemma reachable_space:
  assumes "reachable L tsym e y" "symlink_type tsym"
  shows "space_ok (y_store y)"
  using assms
proof induction
  case (start y)
  then show ?case using new_fs_ok [of e] space_new by (metis sum.inject(2))
next
  case (serve y req rep y')
  have fs: "fs_ok y" by (rule reachable_fs_ok [OF serve.hyps(1) serve.prems])
  have "y_store y' = fs_apply L tsym (y_store y) req"
    using dispatch_implements [OF fs serve.prems serve.hyps(2)] serve.hyps(3)
    by (auto simp: implements_def)
  then show ?case using space_apply [OF fs serve.IH [OF serve.prems] serve.hyps(2)] by simp
qed

end
