(* ===== verification/Block_Properties.thy ===== *)
theory Block_Properties
  imports Block_Manager
begin

text \<open>The properties of the block layer.\<close>

lemma find_first: "P m \<Longrightarrow> m < n \<Longrightarrow> find P [m..<n] = Some m"
  by (simp add: upt_conv_Cons)

lemma new_bits: "\<not> bit_set block_manager_new b"
  using BPB_8 by (simp add: bit_set_def block_manager_new_def disk_new_def buf_bit_def)

lemma new_used: "bm_used block_manager_new = {}"
  by (simp add: bm_used_def new_bits)

lemma first_clear_new: "first_clear block_manager_new 2 = Some 8192"
  unfolding first_clear_def by (subst find_first) (simp_all add: new_bits layout)

text \<open>
  C10. \<open>alloc_block\<close> is first fit: scanning the bitmap blocks bit by bit finds the
  lowest block number whose bit is clear, from the first number the bitmap
  blocks of the disk stand for, marks it and nothing else, and returns it; when
  every bit is set it returns -1 and changes nothing.
\<close>

theorem alloc_first_fit:
  assumes "bm_ok bm"
  shows "alloc_block bm =
    (case find (\<lambda>n. \<not> bit_set bm (word_of_nat n)) [2 * BPB..<10 * BPB] of
       None \<Rightarrow> Inr (- 1, bm)
     | Some n \<Rightarrow> Inr (word_of_nat n, bm_mark bm (word_of_nat n)))"
  using alloc_block_eq [OF assms] by (simp only: first_clear_def)

theorem alloc_first_fit_witness:
  "alloc_block block_manager_new = Inr (8192, bm_mark block_manager_new 8192)"
  using alloc_first_fit [OF bm_ok_new] first_clear_new by (simp add: first_clear_def)

section \<open>Returning a block\<close>

lemma or_and_not:
  assumes "\<not> bit (x :: byte) n"
  shows "(x OR push_bit n 1) AND NOT (push_bit n 1) = x"
proof (rule bit_word_eqI)
  fix m
  assume "m < LENGTH(8)"
  then show "bit ((x OR push_bit n 1) AND NOT (push_bit n 1)) m = bit x m"
    using assms by (cases "m = n") (auto simp: bit_simps simp del: push_bit_of_1)
qed

lemma clear_mark:
  assumes "bm_ok bm" "\<not> bit_set bm b"
  shows "bm_clear (bm_mark bm b) b = bm"
proof -
  let ?k = "b div word_of_nat BPB" and ?i = "unat b mod BPB"
  let ?buf = "blocks (bm_d bm) ?k"
  let ?new = "?buf[?i div 8 := ?buf ! (?i div 8) OR push_bit (?i mod 8) 1]"
  have len: "?i div 8 < length ?buf" using assms(1) by (simp add: BPB_8 bm_ok_def)
  have clear: "\<not> bit (?buf ! (?i div 8)) (?i mod 8)"
    using assms(2) by (simp add: bit_set_def buf_bit_def)
  have "?new[?i div 8 := ?new ! (?i div 8) AND NOT (push_bit (?i mod 8) 1)] = ?buf"
    using len by (simp add: or_and_not [OF clear] del: push_bit_of_1)
  then show ?thesis
    by (simp add: bm_clear_def bm_mark_def Let_def del: push_bit_of_1)
qed

text \<open>
  Returning the block that \<open>alloc_block\<close> has just handed out restores the
  block manager exactly: the bitmap, every block and the superblock.
\<close>

theorem free_undoes_alloc:
  assumes "bm_ok bm" "bm_used bm \<noteq> data_blocks" "alloc_block bm = Inr (b, bm')"
  shows "free_block bm' b = Inr bm"
proof -
  obtain n where n: "first_clear bm 2 = Some n" "word_of_nat n \<in> data_blocks - bm_used bm"
    using first_clear_data [OF assms(2)] .
  then have b: "b = word_of_nat n" "bm' = bm_mark bm b" "b \<in> data_blocks" "\<not> bit_set bm b"
    using assms(1,3) alloc_block_eq [OF assms(1)] by (auto simp: bm_used_def)
  have "unat b div BPB < 10"
    using data_block_bitmap [OF b(3)] by (simp add: bitmap_blocks_def)
  then have "unat b div BPB < BLOCK_NUM" by (simp add: layout)
  then show ?thesis
    using free_block_eq [of bm' b] clear_mark [OF assms(1) b(4)] assms(1) by (simp add: b(2))
qed

lemma new_not_full: "bm_used block_manager_new \<noteq> data_blocks"
proof -
  have "8192 \<in> data_blocks" by (simp add: data_blocks_def layout)
  then show ?thesis using new_used by auto
qed

lemma new_alloc: "alloc_block block_manager_new = Inr (8192, bm_mark block_manager_new 8192)"
  by (simp add: alloc_block_eq first_clear_new)

theorem free_undoes_alloc_witness:
  "free_block (bm_mark block_manager_new 8192) 8192 = Inr block_manager_new"
  by (rule free_undoes_alloc [OF bm_ok_new new_not_full new_alloc])

section \<open>Filling many blocks\<close>

text \<open>
  The loop that takes one block per chunk of data and fills it: with enough
  free data blocks it succeeds, the blocks it uses are distinct, were free and
  are now marked, hold the chunks in order, and no other block outside the
  bitmap has changed.
\<close>

theorem store_blocks:
  assumes "bm_ok bm" "length cs \<le> card (data_blocks - bm_used bm)"
    and "\<forall>c \<in> set cs. length c = BLOCK_SIZE"
  shows "\<exists>bs bm'. store_chunks alloc_block bm_write_block cs bm = Inr (bs, bm') \<and> bm_ok bm' \<and>
    distinct bs \<and> set bs \<subseteq> data_blocks - bm_used bm \<and> bm_used bm' = bm_used bm \<union> set bs \<and>
    map (bm_blk bm') bs = cs \<and>
    (\<forall>c. c \<notin> bitmap_blocks \<longrightarrow> c \<notin> set bs \<longrightarrow> bm_blk bm' c = bm_blk bm c)"
  by (rule bs.store_chunks_ok [OF assms])

lemma new_room: "0 < card (data_blocks - bm_used block_manager_new)"
proof -
  have "8192 \<in> data_blocks" by (simp add: data_blocks_def layout)
  then have "data_blocks \<noteq> {}" by blast
  then show ?thesis by (simp add: new_used card_gt_0_iff)
qed

theorem store_blocks_witness:
  "\<exists>bs bm'. store_chunks alloc_block bm_write_block [replicate BLOCK_SIZE 7] block_manager_new =
     Inr (bs, bm') \<and> map (bm_blk bm') bs = [replicate BLOCK_SIZE 7]"
  using store_blocks [OF bm_ok_new, of "[replicate BLOCK_SIZE 7]"] new_room by auto

section \<open>A full disk\<close>

text \<open>
  C35. The bitmap has more bits than the disk has blocks.  When every data block
  is in use, \<open>alloc_block\<close> still returns a number, one past the end of the disk
  or -1, and writing to it leaves the array of blocks.
\<close>

theorem alloc_beyond_disk:
  assumes "bm_ok bm" "bm_used bm = data_blocks" "alloc_block bm = Inr (b, bm')"
  shows "BLOCK_NUM \<le> unat b \<and> bm_write_block bm' b buf = Inl OutOfBounds"
proof -
  have "BLOCK_NUM \<le> unat b"
    using alloc_past_disk [OF assms(1,2)] assms(3) by auto
  then show ?thesis
    by (simp add: bm_write_block_def disk_write_block_def)
qed

definition full_bm :: block_manager where
  "full_bm = \<lparr>bm_d = \<lparr>blocks = (\<lambda>b. if unat b < 8 then replicate BLOCK_SIZE (- 1) else replicate BLOCK_SIZE 0)\<rparr>,
              bm_using_blocks = Map.empty, bm_sb = format_sb\<rparr>"

lemma full_bm_ok: "bm_ok full_bm" "bm_used full_bm = data_blocks"
proof -
  show ok: "bm_ok full_bm" by (simp add: bm_ok_def full_bm_def disk_ok_def)
  have "bit_set full_bm b" if "b \<in> data_blocks" for b
  proof -
    have "unat b < 8 * BPB" using that by (simp add: data_blocks_def layout)
    then have "unat b div BPB < 8" by (simp add: less_mult_imp_div_less)
    moreover have "unat b mod BPB mod 8 < 8" by simp
    ultimately show ?thesis
      using BPB_8 [of "unat b mod BPB"] by (simp add: bit_set_def full_bm_def buf_bit_def)
  qed
  then show "bm_used full_bm = data_blocks" by (auto simp: bm_used_def)
qed

theorem alloc_beyond_disk_witness:
  "\<exists>b bm'. alloc_block full_bm = Inr (b, bm') \<and> BLOCK_NUM \<le> unat b \<and>
     bm_write_block bm' b [] = Inl OutOfBounds"
proof -
  obtain b bm' where a: "alloc_block full_bm = Inr (b, bm')"
    using alloc_block_eq [OF full_bm_ok(1)] by (cases "first_clear full_bm 2") auto
  show ?thesis
    using alloc_beyond_disk [OF full_bm_ok a] a by blast
qed

end
