(* ===== verification/Inode_Properties.thy ===== *)
theory Inode_Properties
  imports Inode_Files
begin

text \<open>The properties of the inode layer.\<close>

definition tick_env :: env where
  "tick_env = \<lparr>env_clock = (\<lambda>n. word_of_nat n), env_junk = (\<lambda>_ _. 0), env_tick = 0\<rparr>"

lemma new_im:
  obtains im f where "inode_manager_new 0 tick_env = Inr im" "im_ok im" "im_inum im = 1"
    "room im = 24576" "files im = [1 \<mapsto> f]" "f_data f = []"
  using inode_manager_new_ok [of tick_env] by (metis afile.select_convs(5))

section \<open>Files\<close>

text \<open>
  C6. \<open>write_file\<close> on an existing inode: when the data fits a file and the disk,
  counting the blocks the old contents give back, it succeeds, keeps the
  invariant of the disk image, replaces the data of that file and sets its mtime
  and ctime to a value the clock had during the call, changes no other file, and
  the free blocks are those before plus the old file's minus the new one's.
\<close>

theorem write_file_functional:
  assumes "im_ok im" "files im i = Some f" "length buf \<le> MAXFILE * BLOCK_SIZE"
    and "file_blocks buf \<le> room im + file_blocks (f_data f)"
  shows "\<exists>im' now. write_file im i buf (int (length buf)) = Inr im' \<and> im_ok im' \<and>
    files im' = (files im)(i \<mapsto> f\<lparr>f_mtime := now, f_ctime := now, f_data := buf\<rparr>) \<and>
    room im' + file_blocks buf = room im + file_blocks (f_data f) \<and>
    im_inum im' = im_inum im \<and> clock_during im im' now"
  by (rule write_file_ok [OF assms])

lemma file_blocks_one: "d \<noteq> [] \<Longrightarrow> length d \<le> 512 \<Longrightarrow> file_blocks d = 1"
proof -
  assume "d \<noteq> []" "length d \<le> 512"
  then have "nblk (int (length d)) = 1"
    by (cases d) (auto simp: nblk_def layout intro!: div_pos_geq)
  then show "file_blocks d = 1" by (simp add: file_blocks_def blocks_needed_def layout)
qed

lemma file_blocks_none: "file_blocks [] = 0"
  by (simp add: file_blocks_def blocks_needed_def)

theorem write_file_functional_witness:
  "\<exists>im im' f. inode_manager_new 0 tick_env = Inr im \<and> write_file im 1 [1, 2, 3] 3 = Inr im' \<and>
     files im' 1 = Some f \<and> f_data f = [1, 2, 3] \<and> room im' = 24575"
proof -
  obtain im f where im: "inode_manager_new 0 tick_env = Inr im" "im_ok im" "im_inum im = 1"
    "room im = 24576" "files im = [1 \<mapsto> f]" "f_data f = []" by (rule new_im)
  have "files im 1 = Some f" by (simp add: im(5))
  from write_file_functional [OF im(2) this, of "[1, 2, 3]"] show ?thesis
    using im(1,4,6) by (auto simp: file_blocks_one file_blocks_none layout)
qed

text \<open>
  C7. \<open>read_file\<close> on an existing inode returns the size of the file and a buffer
  that starts with its data, keeps the invariant, and changes nothing but the
  access time of that file, which becomes a value the clock had during the call.
\<close>

theorem read_file_functional:
  assumes "im_ok im" "files im i = Some f"
  shows "\<exists>c im' now. read_file im i = Inr ((c, int (length (f_data f))), im') \<and>
    take (length (f_data f)) c = f_data f \<and> im_ok im' \<and>
    files im' = (files im)(i \<mapsto> f\<lparr>f_atime := now\<rparr>) \<and> room im' = room im \<and>
    im_inum im' = im_inum im \<and> clock_during im im' now"
  by (rule read_file_ok [OF assms])

theorem read_file_functional_witness:
  "\<exists>im c im'. inode_manager_new 0 tick_env = Inr im \<and> read_file im 1 = Inr ((c, 0), im') \<and> im_ok im'"
proof -
  obtain im f where im: "inode_manager_new 0 tick_env = Inr im" "im_ok im" "im_inum im = 1"
    "room im = 24576" "files im = [1 \<mapsto> f]" "f_data f = []" by (rule new_im)
  have "files im 1 = Some f" by (simp add: im(5))
  from read_file_functional [OF im(2) this] show ?thesis
    using im(1,6) by auto
qed

text \<open>
  C8. \<open>remove_file\<close> on an existing inode succeeds, keeps the invariant, takes that
  file and no other out of the file system, and returns every block it used,
  the block of block numbers included.
\<close>

theorem remove_file_functional:
  assumes "im_ok im" "files im i = Some f"
  shows "\<exists>im'. remove_file im i = Inr im' \<and> im_ok im' \<and> files im' = (files im)(i := None) \<and>
    room im' = room im + file_blocks (f_data f) \<and> im_inum im' = im_inum im \<and> im_env im' = im_env im"
  by (rule remove_file_ok [OF assms])

theorem remove_file_functional_witness:
  "\<exists>im im'. inode_manager_new 0 tick_env = Inr im \<and> remove_file im 1 = Inr im' \<and> files im' = Map.empty"
proof -
  obtain im f where im: "inode_manager_new 0 tick_env = Inr im" "im_ok im" "im_inum im = 1"
    "room im = 24576" "files im = [1 \<mapsto> f]" "f_data f = []" by (rule new_im)
  have "files im 1 = Some f" by (simp add: im(5))
  from remove_file_functional [OF im(2) this] show ?thesis
    using im(1,5) by auto
qed

text \<open>
  \<open>alloc_inode\<close>, while the table has room and for a type that is not zero as
  a \<open>short\<close>, returns the number after the last one given out, which no file has,
  and makes it an empty file of that type with all three times read from the
  clock during the call; nothing else changes.
\<close>

theorem alloc_inode_functional:
  assumes "im_ok im" "unat (im_inum im) + 1 < INODE_NUM" "(ucast type :: u16) \<noteq> 0"
  shows "\<exists>im' now. alloc_inode im type = Inr (im_inum im + 1, im') \<and> im_ok im' \<and>
    files im (im_inum im + 1) = None \<and>
    files im' = (files im)(im_inum im + 1 \<mapsto>
      \<lparr>f_type = ucast type, f_atime = now, f_mtime = now, f_ctime = now, f_data = []\<rparr>) \<and>
    room im' = room im \<and> im_inum im' = im_inum im + 1 \<and> clock_during im im' now"
  by (rule alloc_inode_ok [OF assms])

theorem alloc_inode_functional_witness:
  "\<exists>im im'. inode_manager_new 0 tick_env = Inr im \<and> alloc_inode im T_FILE = Inr (2, im') \<and>
     files im' 2 \<noteq> None"
proof -
  obtain im f where im: "inode_manager_new 0 tick_env = Inr im" "im_ok im" "im_inum im = 1"
    "room im = 24576" "files im = [1 \<mapsto> f]" "f_data f = []" by (rule new_im)
  have "unat (im_inum im) + 1 < INODE_NUM" "(ucast T_FILE :: u16) \<noteq> 0"
    by (simp_all add: im(3) layout T_FILE_def)
  from alloc_inode_functional [OF im(2) this] show ?thesis
    using im(1,3) by auto
qed

text \<open>
  \<open>getattr\<close> of an existing inode reports the type, the three times and the
  length of its data.
\<close>

theorem getattr_reports:
  assumes "im_ok im" "files im i = Some f"
  shows "getattr im i a = Inr \<lparr>a_type = scast (f_type f), a_atime = f_atime f, a_mtime = f_mtime f,
    a_ctime = f_ctime f, a_size = word_of_nat (length (f_data f))\<rparr>"
  using getattr_eq [OF assms(1), of i a] assms(2) by simp

theorem getattr_reports_witness:
  "\<exists>im a. inode_manager_new 0 tick_env = Inr im \<and> getattr im 1 zero_attr = Inr a \<and> a_size a = 0"
proof -
  obtain im f where im: "inode_manager_new 0 tick_env = Inr im" "im_ok im" "im_inum im = 1"
    "room im = 24576" "files im = [1 \<mapsto> f]" "f_data f = []" by (rule new_im)
  have "files im 1 = Some f" by (simp add: im(5))
  from getattr_reports [OF im(2) this, of zero_attr] show ?thesis
    using im(1,6) by auto
qed

section \<open>The constructor\<close>

text \<open>
  The first \<open>inode_manager\<close> of a process satisfies the invariant, has the
  root directory as its only file, empty and with number 1, and all 24576 data
  blocks free.
\<close>

theorem constructor_root:
  "\<exists>im now. inode_manager_new 0 e = Inr im \<and> im_ok im \<and> im_inum im = 1 \<and> room im = 24576 \<and>
     files im = [1 \<mapsto> \<lparr>f_type = ucast T_DIR, f_atime = now, f_mtime = now, f_ctime = now, f_data = []\<rparr>]"
  by (rule inode_manager_new_ok)

text \<open>
  The number of the last inode is a static variable: an \<open>inode_manager\<close>
  built after another one has given out fewer than 1023 inodes allocates a root
  directory whose number is not 1, and the process exits.
\<close>

theorem second_instance_exits:
  assumes "0 < n" "unat n + 1 < INODE_NUM"
  shows "inode_manager_new n e = Inl Exited"
proof -
  have i: "unat (im_inum (im_blank n e)) + 1 < INODE_NUM" "(ucast T_DIR :: u16) \<noteq> 0"
    using assms(2) by (simp_all add: im_blank_def T_DIR_def)
  obtain im where "alloc_inode (im_blank n e) T_DIR = Inr (n + 1, im)"
    using alloc_inode_ok [OF im_blank_ok(1) i] by (auto simp: im_blank_def)
  moreover have "n + 1 \<noteq> 1" using assms(1) by auto
  ultimately show ?thesis by (simp add: inode_manager_new_def im_blank_def)
qed

theorem second_instance_exits_witness: "inode_manager_new 1 tick_env = Inl Exited"
  by (rule second_instance_exits) (simp_all add: layout)

section \<open>The image of an inode\<close>

text \<open>
  Storing an inode in its block and loading it again gives the same inode,
  and the bytes of the block after the structure are unchanged.
\<close>

theorem inode_image:
  assumes "inode_fits ino" "length buf = BLOCK_SIZE"
  shows "inode_of_block (inode_to_block ino buf) = ino \<and>
    drop 424 (inode_to_block ino buf) = drop 424 buf"
proof -
  have "length (chunk 2 buf 2) = 2" using assms(2) by (simp add: layout)
  moreover have "length (iblocks ino) = 101" using assms(1) by (simp add: inode_fits_def layout)
  ultimately have "drop 424 (inode_to_block ino buf) = drop 424 buf"
    by (simp add: inode_to_block_def)
  then show ?thesis using inode_of_to_block [OF assms] by blast
qed

theorem inode_image_witness:
  "inode_of_block (inode_to_block (zero_inode\<lparr>isize := 513\<rparr>) (replicate BLOCK_SIZE 9)) = zero_inode\<lparr>isize := 513\<rparr>"
  using inode_image [of "zero_inode\<lparr>isize := 513\<rparr>" "replicate BLOCK_SIZE 9"]
  by (simp add: inode_fits_def zero_inode_def)

section \<open>Limits and errors\<close>

lemma block_rest_step:
  assumes "i < n"
  shows "int k * int (n - i) = int k * int (n - Suc i) + int k"
proof -
  have "n - i = Suc (n - Suc i)" using assms by simp
  then show ?thesis by (simp only: of_nat_Suc distrib_left mult_1_right add.commute)
qed

lemma write_direct_limit:
  assumes "write_direct bm bl mem sz i ws = Inr (ws', bl', bm')" "i \<le> NDIRECT"
  shows "ws' \<le> ws + int BLOCK_SIZE * int (NDIRECT - i)"
  using assms
proof (induction bm bl mem sz i ws arbitrary: bl' bm' rule: write_direct.induct)
  case (1 bm bl mem sz i ws)
  show ?case
  proof (cases "ws < sz \<and> i < NDIRECT")
    case True
    then obtain b bm1 bm2 where s: "alloc_block bm = Inr (b, bm1)"
        "bm_write_block bm1 b (chunk BLOCK_SIZE mem (nat ws)) = Inr bm2"
        "write_direct bm2 (bl[i := b]) mem sz (Suc i) (ws + int BLOCK_SIZE) = Inr (ws', bl', bm')"
      using "1.prems"(1) by (subst (asm) write_direct.simps) (auto simp: andThen_eq_Inr_iff)
    have "ws' \<le> (ws + int BLOCK_SIZE) + int BLOCK_SIZE * int (NDIRECT - Suc i)"
      using "1.IH" [OF True s(1) refl s(2,3)] True by simp
    moreover have "int BLOCK_SIZE * int (NDIRECT - i) = int BLOCK_SIZE * int (NDIRECT - Suc i) + int BLOCK_SIZE"
      using True by (intro block_rest_step) simp
    ultimately show ?thesis by linarith
  next
    case False
    then show ?thesis using "1.prems"(1) by (subst (asm) write_direct.simps) auto
  qed
qed

lemma write_indirect_limit:
  assumes "write_indirect bm ids mem sz i ws = Inr r" "i \<le> NINDIRECT"
  shows "sz \<le> ws + int BLOCK_SIZE * int (NINDIRECT - i)"
  using assms
proof (induction bm ids mem sz i ws rule: write_indirect.induct)
  case (1 bm ids mem sz i ws)
  show ?case
  proof (cases "ws < sz")
    case True
    then obtain b bm1 bm2 where s: "alloc_block bm = Inr (b, bm1)" "i < NINDIRECT"
        "bm_write_block bm1 b (chunk BLOCK_SIZE mem (nat ws)) = Inr bm2"
        "write_indirect bm2 (ids[i := b]) mem sz (Suc i) (ws + int BLOCK_SIZE) = Inr r"
      using "1.prems"(1) by (subst (asm) write_indirect.simps) (auto simp: andThen_eq_Inr_iff split: if_splits)
    have "sz \<le> (ws + int BLOCK_SIZE) + int BLOCK_SIZE * int (NINDIRECT - Suc i)"
      using "1.IH" [OF True s(1) refl s(2,3,4)] s(2) by simp
    moreover have "int BLOCK_SIZE * int (NINDIRECT - i) = int BLOCK_SIZE * int (NINDIRECT - Suc i) + int BLOCK_SIZE"
      using s(2) by (rule block_rest_step)
    ultimately show ?thesis by linarith
  next
    case False
    moreover have "0 \<le> int BLOCK_SIZE * int (NINDIRECT - i)" by simp
    ultimately show ?thesis by linarith
  qed
qed

text \<open>
  C31. Whatever the state, \<open>write_file\<close> returns only for sizes up to
  \<open>MAXFILE * BLOCK_SIZE\<close> bytes: the source checks nothing, and on a larger size
  the loop leaves the buffer of block numbers, which the model reports as a fault.
\<close>

theorem write_file_limit:
  assumes "write_file im i buf sz = Inr im'"
  shows "sz \<le> int MAXFILE * int BLOCK_SIZE"
proof -
  obtain tail e1 where e1: "env_bytes BLOCK_SIZE (im_env im) = (tail, e1)" by fastforce
  obtain heap e2 where e2: "env_bytes BLOCK_SIZE e1 = (heap, e2)" by fastforce
  obtain bm bl mem r where w: "write_blocks bm bl heap mem sz = Inr r"
    using assms by (auto simp: write_file_def andThen_eq_Inr_iff e1 e2 split: option.splits)
  obtain ws bl1 bm1 where d: "write_direct bm bl mem sz 0 0 = Inr (ws, bl1, bm1)"
    using w by (auto simp: write_blocks_def andThen_eq_Inr_iff)
  have ws: "ws \<le> int BLOCK_SIZE * int NDIRECT" using write_direct_limit [OF d] by simp
  show ?thesis
  proof (cases "ws < sz")
    case True
    then obtain bm2 r' where "write_indirect bm2 (bytes_words NINDIRECT heap) mem sz 0 ws = Inr r'"
      using w d by (auto simp: write_blocks_def andThen_eq_Inr_iff)
    from write_indirect_limit [OF this] ws show ?thesis
      by (simp add: MAXFILE_def algebra_simps)
  next
    case False
    then have "sz \<le> int BLOCK_SIZE * int NDIRECT" using ws by linarith
    moreover have "0 \<le> int BLOCK_SIZE * int NINDIRECT" by simp
    ultimately show ?thesis unfolding MAXFILE_def of_nat_add by (simp only: algebra_simps)
  qed
qed

theorem write_file_limit_witness:
  "\<exists>im im'. inode_manager_new 0 tick_env = Inr im \<and> write_file im 1 [5] 1 = Inr im' \<and>
     (1 :: int) \<le> int MAXFILE * int BLOCK_SIZE"
proof -
  obtain im f where im: "inode_manager_new 0 tick_env = Inr im" "im_ok im" "im_inum im = 1"
    "room im = 24576" "files im = [1 \<mapsto> f]" "f_data f = []" by (rule new_im)
  have "files im 1 = Some f" by (simp add: im(5))
  from write_file_ok [OF im(2) this, of "[5]"] obtain im' where w: "write_file im 1 [5] 1 = Inr im'"
    using im(4,6) by (auto simp: file_blocks_one file_blocks_none layout)
  show ?thesis using im(1) w write_file_limit [OF w] by blast
qed

text \<open>
  C32. An inode number that names no file, because it is 0 or beyond the last one given out or because
  \<open>remove_file\<close> has just removed it: \<open>read_file\<close>, \<open>write_file\<close> and \<open>remove_file\<close> dereference a null
  pointer, while \<open>free_inode\<close> returns and changes nothing and \<open>getattr\<close> leaves the attributes of its
  caller as they were.
\<close>

theorem missing_inode_faults:
  assumes "im_ok im0" "im = im0 \<and> (im_inum im0 < i \<or> i = 0) \<or> remove_file im0 i = Inr im"
  shows "read_file im i = Inl NullDeref \<and> write_file im i buf sz = Inl NullDeref \<and>
    remove_file im i = Inl NullDeref \<and> free_inode im i = Inr im \<and> getattr im i a = Inr a"
proof -
  have "im_ok im \<and> files im i = None"
    using assms(2)
  proof
    assume "im = im0 \<and> (im_inum im0 < i \<or> i = 0)"
    then show ?thesis using files_beyond_inum [OF assms(1), of i] assms(1) by simp
  next
    assume r: "remove_file im0 i = Inr im"
    show ?thesis
    proof (cases "files im0 i")
      case None
      have "Inl NullDeref = Inr im" by (rule trans [OF sym [OF missing_inode(3) [OF assms(1) None]] r])
      then show ?thesis by simp
    next
      case (Some f)
      obtain im' where im': "remove_file im0 i = Inr im'" "im_ok im'" "files im' = (files im0)(i := None)"
        using remove_file_ok [OF assms(1) Some] by blast
      have "im' = im" using trans [OF sym [OF im'(1)] r] by (rule Inr_inject)
      then show ?thesis using im'(2,3) by simp
    qed
  qed
  then have m: "im_ok im" "files im i = None" by simp_all
  show ?thesis by (intro conjI missing_inode [OF m])
qed

text \<open>The number behind the root directory, and the root directory once it is removed.\<close>

theorem missing_inode_faults_witness:
  "\<exists>im im'. inode_manager_new 0 tick_env = Inr im \<and> read_file im 2 = Inl NullDeref \<and>
     remove_file im 1 = Inr im' \<and> im' \<noteq> im \<and>
     write_file im' 1 [65] 1 = Inl NullDeref \<and> free_inode im' 1 = Inr im' \<and> getattr im' 1 zero_attr = Inr zero_attr"
proof -
  obtain im f where im: "inode_manager_new 0 tick_env = Inr im" "im_ok im" "im_inum im = 1"
    "room im = 24576" "files im = [1 \<mapsto> f]" "f_data f = []" by (rule new_im)
  have "im_inum im < 2" by (simp add: im(3))
  then have beyond: "read_file im 2 = Inl NullDeref"
    using missing_inode_faults [OF im(2), of im 2] by simp
  have f: "files im 1 = Some f" by (simp add: im(5))
  obtain im' where r: "remove_file im 1 = Inr im'" "files im' = (files im)(1 := None)"
    using remove_file_ok [OF im(2) f] by blast
  have "im' \<noteq> im"
  proof
    assume "im' = im"
    then have "files im 1 = None" using r(2) by (metis fun_upd_same)
    with f show False by simp
  qed
  then show ?thesis using missing_inode_faults [OF im(2), of im' 1] beyond r(1) im(1) by blast
qed

end
