(* ===== verification/Format_Properties.thy ===== *)
theory Format_Properties
  imports Dir_Format
begin

text \<open>The properties of the text of a directory.\<close>

definition sample_entries :: "dirent list" where
  "sample_entries = [\<lparr>d_name = [97, 32], d_inum = 12\<rparr>, \<lparr>d_name = [98], d_inum = 7\<rparr>]"

text \<open>
  C30. The loop of \<open>readdir\<close> applied to printed entries gives back the entries, in
  order, appended to the list it started with, when every name is not empty and
  has no slash and every number is an \<open>int\<close>.
\<close>

theorem dir_parse_print:
  assumes "\<forall>e \<in> set es. name_ok (d_name e) \<and> unat (d_inum e) < 2 ^ 31"
  shows "read_entries (istringstream (print_entries es)) acc = Inr (acc @ es)"
  using assms by (intro read_entries_print) (auto simp: entry_ok_def istringstream_def)

theorem dir_parse_print_witness:
  "read_entries (istringstream (print_entries sample_entries)) [] = Inr sample_entries"
  using dir_parse_print [of sample_entries "[]"] by (simp add: sample_entries_def name_ok_def)

lemma read_entries_fault:
  assumes "read_entries ss acc = Inl e"
  shows "e = IntOverflow"
  using assms
proof (induction ss acc rule: read_entries.induct)
  case (1 ss acc)
  obtain ss1 name where g1: "getline ss [] = (ss1, name)" by fastforce
  obtain ss2 token where g2: "getline ss1 name = (ss2, token)" by fastforce
  have name: "name \<noteq> []"
    using "1.prems" g1 by (subst (asm) read_entries.simps) auto
  show ?case
  proof (cases "atoi (c_str token)")
    case (Inl f)
    then have "f = IntOverflow" by (auto simp: atoi_def Let_def split: if_splits prod.splits)
    then show ?thesis using "1.prems" g1 g2 name Inl by (subst (asm) read_entries.simps) simp
  next
    case (Inr i)
    let ?acc = "acc @ [\<lparr>d_name = name, d_inum = word_of_int i\<rparr>]"
    have "(if is_fail ss2 then Inr ?acc else read_entries ss2 ?acc) = Inl e"
      using "1.prems" g1 g2 name Inr by (subst (asm) read_entries.simps) (simp add: Let_def)
    then show ?thesis
      using "1.IH" [OF g1 [symmetric] refl name g2 [symmetric] refl Inr refl]
      by (cases "is_fail ss2") auto
  qed
qed

text \<open>
  Whatever bytes a directory file holds, parsing it either reports a number
  that is not an \<open>int\<close> or gives entries whose names are not empty and have no
  slash; it never faults in another way.
\<close>

theorem dir_parse_total:
  "case read_entries (istringstream data) [] of
     Inl e \<Rightarrow> e = IntOverflow
   | Inr es \<Rightarrow> \<forall>e \<in> set es. name_ok (d_name e)"
proof (cases "read_entries (istringstream data) []")
  case (Inl e)
  then show ?thesis using read_entries_fault by simp
next
  case (Inr es)
  then show ?thesis using read_entries_names [OF Inr] by simp
qed

theorem dir_parse_total_witness:
  "read_entries (istringstream [97, 47, 49, 47]) [] = Inr [\<lparr>d_name = [97], d_inum = 1\<rparr>] \<and> name_ok [97]"
proof -
  have "print_entries [\<lparr>d_name = [97], d_inum = 1\<rparr>] = [97, 47, 49, 47]"
    by (simp add: entry_bytes_def filename_def dec.simps)
  then have "read_entries (istringstream [97, 47, 49, 47]) [] = Inr [\<lparr>d_name = [97], d_inum = 1\<rparr>]"
    using read_entries_print [of "[\<lparr>d_name = [97], d_inum = 1\<rparr>]" "istringstream [97, 47, 49, 47]" "[]"]
    by (simp add: entry_ok_def name_ok_def istringstream_def)
  then show ?thesis using dir_parse_total [of "[97, 47, 49, 47]"] by simp
qed

text \<open>
  \<open>n2i\<close> reads back every number that \<open>filename\<close> prints, over the whole range
  of \<open>unsigned long long\<close>.
\<close>

theorem n2i_filename: "n2i (filename i) = i"
  by (rule n2i_filename_eq)

text \<open>
  A directory file that ends in the middle of an entry still gives that entry:
  a last name with no number after it is parsed as its own number, and a last
  name followed by one slash as number 0.
\<close>

theorem dir_truncated:
  assumes "name_ok name" "atoi (c_str name) = Inr i"
  shows "read_entries (istringstream name) [] = Inr [\<lparr>d_name = name, d_inum = word_of_int i\<rparr>] \<and>
    read_entries (istringstream (name @ [47])) [] = Inr [\<lparr>d_name = name, d_inum = 0\<rparr>]"
proof
  have whole: "takeWhile (\<lambda>c. c \<noteq> 47) name = name" "dropWhile (\<lambda>c. c \<noteq> 47) name = []"
    using assms(1) by (auto simp: name_ok_def takeWhile_eq_all_conv dropWhile_eq_Nil_conv)
  let ?eof = "\<lparr>is_rest = [], is_good = False, is_fail = False\<rparr>"
  have 1: "getline (istringstream name) [] = (?eof, name)"
    using assms(1) by (simp add: getline_def istringstream_def whole name_ok_def)
  have 2: "getline ?eof name = (?eof\<lparr>is_fail := True\<rparr>, name)"
    by (simp add: getline_def)
  show "read_entries (istringstream name) [] = Inr [\<lparr>d_name = name, d_inum = word_of_int i\<rparr>]"
    using assms 1 2 by (subst read_entries.simps) (simp add: name_ok_def)
  let ?s = "\<lparr>is_rest = [], is_good = True, is_fail = False\<rparr>"
  have 3: "getline (istringstream (name @ [47])) [] = (?s, name)"
    using assms(1) getline_line [of "istringstream (name @ [47])" name "[]"]
    by (simp add: istringstream_def name_ok_def)
  have 4: "getline ?s name = (\<lparr>is_rest = [], is_good = False, is_fail = True\<rparr>, [])"
    by (simp add: getline_def)
  have "atoi (c_str []) = Inr 0"
    by (simp add: atoi_def scan_number_def split_sign_def c_str_def digits_value_def)
  then show "read_entries (istringstream (name @ [47])) [] = Inr [\<lparr>d_name = name, d_inum = 0\<rparr>]"
    using assms(1) 3 4 by (subst read_entries.simps) (simp add: name_ok_def)
qed

theorem dir_truncated_witness:
  "read_entries (istringstream [52, 50]) [] = Inr [\<lparr>d_name = [52, 50], d_inum = 42\<rparr>]"
  using dir_truncated [of "[52, 50]" 42]
  by (simp add: name_ok_def atoi_def c_str_def scan_number_def split_sign_def is_space_def is_digit_def
      digits_value_def)

end
