(* ===== verification/File_Properties.thy ===== *)
theory File_Properties
  imports Demo
begin

text \<open>
  The properties of the file system operations, as a client sees them through the
  request handlers.
\<close>

section \<open>Helpers\<close>

lemma implementsE:
  assumes "implements L tsym y req"
  obtains rep y' where "dispatch L tsym y req = Inr (rep, y')" "fs_ok y'"
    "y_store y' = fs_apply L tsym (y_store y) req"
    "answers L tsym (y_store y) req (y_store y') rep"
  using assms unfolding implements_def by blast

lemma take_drop_write: "take (length new) (drop off (write_spec old off new)) = new"
  by (cases "off \<le> length old") (simp_all add: write_spec_def)

lemma store_put_contents:
  "st_files st k \<noteq> None \<Longrightarrow> contents (store_put st k d) k = d"
  by (auto simp: contents_def store_put_def)

lemma store_put_type:
  "has_type (store_put st k d) i t \<longleftrightarrow> has_type st i t"
  by (auto simp: has_type_def store_put_def split: option.split)

lemma dir_find_snoc_new:
  "dir_find name es = None \<Longrightarrow> dir_find name (es @ [\<lparr>d_name = name, d_inum = i\<rparr>]) =
   Some \<lparr>d_name = name, d_inum = i\<rparr>"
  by (induction es) (auto simp: dir_find_def split: if_splits)

lemma entries_of_tree: "dir_in (st_files st) k es \<Longrightarrow> entries st k = es"
  by (rule entries_eq) (simp add: dir_at_in)

section \<open>Data\<close>

text \<open>
  C11. After a write request on a file that has room, a read of the same range
  gives back exactly the bytes written.
\<close>

theorem write_then_read:
  assumes "fs_ok y" "admissible L tsym (y_store y) (ReqWrite i buf sz off)"
  shows "\<exists>n y1 y2. dispatch L tsym y (ReqWrite i buf sz off) = Inr (ReplyWrite n, y1) \<and>
    dispatch L tsym y1 (ReqRead i sz off) = Inr (ReplyBuf buf, y2) \<and> fs_ok y2"
proof -
  obtain rep y1 where 1: "dispatch L tsym y (ReqWrite i buf sz off) = Inr (rep, y1)" "fs_ok y1"
      "y_store y1 = fs_apply L tsym (y_store y) (ReqWrite i buf sz off)"
      "answers L tsym (y_store y) (ReqWrite i buf sz off) (y_store y1) rep"
    using write_handler [OF assms] by (rule implementsE)
  let ?new = "write_spec (contents (y_store y) (extent_inum i)) (unat off) buf"
  have "st_files (y_store y) (extent_inum i) \<noteq> None"
    using assms(2) by (auto dest: can_put_known)
  then have c: "contents (y_store y1) (extent_inum i) = ?new" "has_type (y_store y1) i REG"
    using assms(2) by (simp_all add: 1(3) store_put_contents store_put_type)
  have adm: "admissible L tsym (y_store y1) (ReqRead i sz off)"
    by (simp add: c length_write_spec)
  obtain rep2 y2 where 2: "dispatch L tsym y1 (ReqRead i sz off) = Inr (rep2, y2)" "fs_ok y2"
      "answers L tsym (y_store y1) (ReqRead i sz off) (y_store y2) rep2"
    using read_handler [OF 1(2) adm] by (rule implementsE)
  have "rep2 = ReplyBuf buf"
    using 2(3) c assms(2) take_drop_write [of buf "unat off"] by simp
  then show ?thesis using 1(1,4) 2(1,2) by auto
qed

lemma demo_write_adm:
  "admissible demo_lib 3 demo_store_a (ReqWrite 2 [104, 105] 2 3)"
  using demo_put_a [of "write_spec [] 3 [104, 105]"] by (simp add: write_spec_def)

theorem write_then_read_witness:
  "\<exists>y n y1 y2. dispatch demo_lib 3 y (ReqWrite 2 [104, 105] 2 3) = Inr (ReplyWrite n, y1) \<and>
     dispatch demo_lib 3 y1 (ReqRead 2 2 3) = Inr (ReplyBuf [104, 105], y2)"
proof -
  obtain y where y: "fs_ok y" "y_store y = demo_store_a" using demo_created by metis
  then show ?thesis
    using write_then_read [of y demo_lib 3 2 "[104, 105]" 2 3] demo_write_adm by auto
qed

text \<open>
  C12. A write request changes the file byte by byte as POSIX says: inside the
  range the new bytes, elsewhere the old ones, zeros in a hole between the old end
  and the offset; the file grows when the range passes its end.  Every other
  file keeps its contents.
\<close>

theorem write_pointwise:
  assumes "fs_ok y" "admissible L tsym (y_store y) (ReqWrite i buf sz off)"
    and "dispatch L tsym y (ReqWrite i buf sz off) = Inr (rep, y1)"
  shows "length (contents (y_store y1) (extent_inum i)) =
      max (length (contents (y_store y) (extent_inum i))) (unat off + length buf) \<and>
    (\<forall>j < length (contents (y_store y1) (extent_inum i)).
      contents (y_store y1) (extent_inum i) ! j =
        (if unat off \<le> j \<and> j < unat off + length buf then buf ! (j - unat off)
         else if j < length (contents (y_store y) (extent_inum i))
              then contents (y_store y) (extent_inum i) ! j else 0)) \<and>
    (\<forall>k. k \<noteq> extent_inum i \<longrightarrow> st_files (y_store y1) k = st_files (y_store y) k)"
proof -
  let ?old = "contents (y_store y) (extent_inum i)"
  have st: "y_store y1 = store_put (y_store y) (extent_inum i) (write_spec ?old (unat off) buf)"
    using write_handler [OF assms(1,2)] assms(3) by (auto simp: implements_def)
  have "st_files (y_store y) (extent_inum i) \<noteq> None"
    using assms(2) by (auto dest: can_put_known)
  then have c: "contents (y_store y1) (extent_inum i) = write_spec ?old (unat off) buf"
    "\<forall>k. k \<noteq> extent_inum i \<longrightarrow> st_files (y_store y1) k = st_files (y_store y) k"
    by (auto simp: st store_put_contents)
  have "write_spec ?old (unat off) buf ! j =
      (if unat off \<le> j \<and> j < unat off + length buf then buf ! (j - unat off)
       else if j < length ?old then ?old ! j else 0)"
    if "j < length (write_spec ?old (unat off) buf)" for j
    using that by (auto simp: write_spec_def nth_append min_def)
  then show ?thesis using c by (simp add: length_write_spec)
qed

theorem write_pointwise_witness:
  "\<exists>y rep y1. dispatch demo_lib 3 y (ReqWrite 2 [104, 105] 2 3) = Inr (rep, y1) \<and>
     length (contents (y_store y1) 2) = 5"
proof -
  obtain y where y: "fs_ok y" "y_store y = demo_store_a" using demo_created by metis
  have adm: "admissible demo_lib 3 (y_store y) (ReqWrite 2 [104, 105] 2 3)"
    using demo_write_adm by (simp only: y(2))
  obtain rep y1 where "dispatch demo_lib 3 y (ReqWrite 2 [104, 105] 2 3) = Inr (rep, y1)"
    using write_handler [OF y(1) adm] by (rule implementsE)
  then show ?thesis
    using write_pointwise [OF y(1) adm] y(2) by (auto intro!: exI)
qed

text \<open>
  C16. A setattr request with one of the three bits set gives the file the length
  asked for, cut off or extended with zeros, keeps every other file, and replies
  with the attributes of the new state.
\<close>

theorem setattr_resizes:
  assumes "fs_ok y" "admissible L tsym (y_store y) (ReqSetattr i sz to_set)"
    and "set_attr_mask L AND to_set \<noteq> 0"
  shows "\<exists>s y1. dispatch L tsym y (ReqSetattr i sz to_set) = Inr (ReplyAttr s, y1) \<and> fs_ok y1 \<and>
    stat_ok (y_store y1) i s \<and>
    contents (y_store y1) (extent_inum i) =
      take (unat sz) (contents (y_store y) (extent_inum i)) @
      replicate (unat sz - length (contents (y_store y) (extent_inum i))) 0 \<and>
    (\<forall>k. k \<noteq> extent_inum i \<longrightarrow> st_files (y_store y1) k = st_files (y_store y) k)"
proof -
  obtain rep y1 where 1: "dispatch L tsym y (ReqSetattr i sz to_set) = Inr (rep, y1)" "fs_ok y1"
      "y_store y1 = fs_apply L tsym (y_store y) (ReqSetattr i sz to_set)"
      "answers L tsym (y_store y) (ReqSetattr i sz to_set) (y_store y1) rep"
    using setattr_handler [OF assms(1,2)] by (rule implementsE)
  have live: "st_files (y_store y) (extent_inum i) \<noteq> None"
    using assms(2,3) by (auto dest: can_put_known)
  have st: "y_store y1 = store_put (y_store y) (extent_inum i)
      (resize (contents (y_store y) (extent_inum i)) (unat sz))"
    using 1(3) assms(3) by simp
  have "contents (y_store y1) (extent_inum i) = resize (contents (y_store y) (extent_inum i)) (unat sz)"
    unfolding st by (rule store_put_contents [OF live])
  moreover have "\<forall>k. k \<noteq> extent_inum i \<longrightarrow> st_files (y_store y1) k = st_files (y_store y) k"
    using live by (auto simp: st)
  moreover obtain s where "rep = ReplyAttr s" "stat_ok (y_store y1) i s" using 1(4) assms(3) by auto
  ultimately show ?thesis using 1(1,2) by (auto simp: resize_def)
qed

lemma resize_4: "resize [] 4 = [0, 0, 0, 0]"
  by (simp add: resize_def numeral_eq_Suc)

theorem setattr_resizes_witness:
  "\<exists>y s y1. dispatch demo_lib 3 y (ReqSetattr 2 4 8) = Inr (ReplyAttr s, y1) \<and>
     contents (y_store y1) 2 = replicate 4 0"
proof -
  obtain y where y: "fs_ok y" "y_store y = demo_store_a" using demo_created by metis
  have "\<not> has_type demo_store_a 2 DIR"
    using type_codes(7) [symmetric] by (simp add: has_type_def)
  then have adm: "admissible demo_lib 3 (y_store y) (ReqSetattr 2 4 8)"
    using demo_put_a [of "[0, 0, 0, 0]"] by (simp add: y(2) resize_4)
  have "set_attr_mask demo_lib AND 8 \<noteq> 0" by (simp add: set_attr_mask_def demo_lib_def)
  from setattr_resizes [OF y(1) adm this] show ?thesis by (auto simp: y(2))
qed

end
