(* ===== verification/Tree_Properties.thy ===== *)
theory Tree_Properties
  imports File_Properties
begin

text \<open>The properties of the requests that change directories.\<close>

section \<open>Creating\<close>

lemma link_entries:
  assumes fs: "fs_ok y" and fits: "link_fits (y_store y) st1 p name"
    and fresh: "dir_find name (entries (y_store y) (extent_inum p)) = None"
    and y1: "y_store y1 = fs_link ty (y_store y) (extent_inum p) name"
  shows "entries (y_store y1) (extent_inum p) =
      entries (y_store y) (extent_inum p) @ [\<lparr>d_name = name, d_inum = next_inum (y_store y)\<rparr>]"
    and "has_type (y_store y1) p DIR"
    and "st_files (y_store y1) (extent_inum (next_inum (y_store y))) = Some (ucast ty, [])"
    and "\<forall>k. k \<noteq> extent_inum p \<longrightarrow> k \<noteq> extent_inum (next_inum (y_store y)) \<longrightarrow>
      st_files (y_store y1) k = st_files (y_store y) k"
proof -
  let ?st = "y_store y" and ?k = "extent_inum p"
  let ?es = "entries ?st ?k" and ?e = "\<lparr>d_name = name, d_inum = next_inum ?st\<rparr>"
  have F: "name_ok name" "has_type ?st p DIR" "can_create ?st"
    using fits by (simp_all add: link_fits_def)
  note N = next_inum [OF F(3)]
  have dir: "dir_at ?st ?k ?es" using fs_dir(1) [OF fs F(2)] .
  have "?k \<le> st_last ?st" using fs_okD(3) [OF fs, of ?k] dir by (simp add: dir_at_def)
  then have neq: "?k \<noteq> st_last ?st + 1" using N(3) by (auto simp: word_le_nat_alt)
  have f: "st_files (y_store y1) =
      (st_files ?st)(st_last ?st + 1 \<mapsto> (ucast ty, []), ?k \<mapsto> (DIR, print_entries (?es @ [?e])))"
    using fresh neq dir by (simp add: y1 fs_link_def store_put_def dir_at_def)
  have "entry_ok ?e" using F(1) N(2) by (simp add: entry_ok_def)
  then have "dir_at (y_store y1) ?k (?es @ [?e])"
    using dir by (auto simp: dir_at_def f)
  then show "entries (y_store y1) ?k = ?es @ [?e]" "has_type (y_store y1) p DIR"
    by (simp_all add: entries_eq dir_at_type)
  show "st_files (y_store y1) (extent_inum (next_inum ?st)) = Some (ucast ty, [])"
    "\<forall>k. k \<noteq> ?k \<longrightarrow> k \<noteq> extent_inum (next_inum ?st) \<longrightarrow> st_files (y_store y1) k = st_files ?st k"
    using neq by (auto simp: f N(1))
qed

text \<open>
  C13. A create request for a new name replies with a fresh inode number and the
  attributes of an empty regular file; a lookup of the name then finds that number,
  the directory has gained this one entry at its end, and every file but the
  directory and the new one is unchanged.
\<close>

theorem create_then_lookup:
  assumes "fs_ok y" "symlink_type tsym" "link_fits (y_store y) (y_store y) p name"
    and "dir_find name (entries (y_store y) (extent_inum p)) = None"
  shows "\<exists>e y1 e' y2. dispatch L tsym y (ReqCreate p name) = Inr (ReplyCreate e, y1) \<and>
    st_files (y_store y) (extent_inum (e_ino e)) = None \<and>
    st_size (e_attr e) = 0 \<and> st_mode (e_attr e) = S_IFREG OR 438 \<and>
    dispatch L tsym y1 (ReqLookup p name) = Inr (ReplyEntry e', y2) \<and> e_ino e' = e_ino e \<and> fs_ok y2 \<and>
    entries (y_store y1) (extent_inum p) =
      entries (y_store y) (extent_inum p) @ [\<lparr>d_name = name, d_inum = e_ino e\<rparr>] \<and>
    (\<forall>k. k \<noteq> extent_inum p \<longrightarrow> k \<noteq> extent_inum (e_ino e) \<longrightarrow>
      st_files (y_store y1) k = st_files (y_store y) k)"
proof -
  obtain rep y1 where 1: "dispatch L tsym y (ReqCreate p name) = Inr (rep, y1)" "fs_ok y1"
      "y_store y1 = fs_apply L tsym (y_store y) (ReqCreate p name)"
      "answers L tsym (y_store y) (ReqCreate p name) (y_store y1) rep"
    using link_handlers(1) [OF assms(1) link_make_fits [OF assms(3)]] by (rule implementsE)
  note E = link_entries [OF assms(1,3,4) 1(3) [unfolded fs_apply.simps]]
  obtain e where e: "rep = ReplyCreate e" "e_ino e = next_inum (y_store y)"
      "stat_ok (y_store y1) (next_inum (y_store y)) (e_attr e)"
    using 1(4) assms(4) by (auto simp: link_reply_def entry_reply_def)
  have attr: "st_size (e_attr e) = 0" "st_mode (e_attr e) = S_IFREG OR 438"
    using e(3) E(3) by (simp_all add: stat_ok_def)
  have "can_create (y_store y)" using assms(3) by (simp add: link_fits_def)
  from next_inum(1,3) [OF this] have fresh: "st_files (y_store y) (extent_inum (e_ino e)) = None"
    using fs_okD(3) [OF assms(1), of "st_last (y_store y) + 1"]
    by (cases "st_files (y_store y) (st_last (y_store y) + 1)") (simp_all add: e(2) word_le_nat_alt)
  obtain rep2 y2 where 2: "dispatch L tsym y1 (ReqLookup p name) = Inr (rep2, y2)" "fs_ok y2"
      "answers L tsym (y_store y1) (ReqLookup p name) (y_store y2) rep2"
    using lookup_handlers(1) [OF 1(2)] by (rule implementsE)
  have "dir_find name (entries (y_store y1) (extent_inum p)) =
      Some \<lparr>d_name = name, d_inum = next_inum (y_store y)\<rparr>"
    unfolding E(1) by (rule dir_find_snoc_new [OF assms(4)])
  then obtain e' where "rep2 = ReplyEntry e'" "e_ino e' = e_ino e"
    using 2(3) E(2) e(2) by (auto simp: entry_reply_def)
  then show ?thesis
    using 1(1) 2(1,2) e(1,2) attr fresh E(1,4) by (auto intro!: exI)
qed

theorem create_then_lookup_witness:
  "\<exists>y e y1 e' y2. dispatch demo_lib 3 y (ReqCreate 1 demo_name) = Inr (ReplyCreate e, y1) \<and>
     dispatch demo_lib 3 y1 (ReqLookup 1 demo_name) = Inr (ReplyEntry e', y2) \<and> e_ino e' = e_ino e"
proof -
  obtain y where y: "fs_ok y" "y_store y = demo_store" using demo_new by metis
  have "dir_find demo_name (entries (y_store y) (extent_inum 1)) = None"
    by (simp add: y(2) demo_entries dir_find_def)
  from create_then_lookup [OF y(1) demo_symlink_type _ this] demo_fits y(2) show ?thesis
    by metis
qed

lemma demo_entries_a: "entries demo_store_a 1 = [\<lparr>d_name = demo_name, d_inum = 2\<rparr>]"
  by (rule entries_eq [OF demo_dir_a])

lemma demo_find_a: "dir_find demo_name (entries demo_store_a 1) = Some \<lparr>d_name = demo_name, d_inum = 2\<rparr>"
  by (simp add: demo_entries_a dir_find_def)

lemma demo_fits_a: "link_fits demo_store_a demo_store_a 1 demo_name"
proof -
  have e: "entry_bytes demo_name (next_inum demo_store_a) = [97, 47, 51, 47]"
    by (simp add: entry_bytes_def demo_name_def next_inum_def demo_store_a_def filename_def dec.simps)
  have c: "contents demo_store_a 1 = [97, 47, 50, 47]" by (simp add: contents_def demo_store_a_def)
  have "can_put demo_store_a 1 ([97, 47, 50, 47] @ [97, 47, 51, 47])"
    by (simp add: can_put_def demo_store_a_def layout)
  then show ?thesis
    unfolding link_fits_def demo_inum e c
    by (simp add: name_ok_def has_type_def can_create_def demo_store_a_def demo_name_def layout)
qed

text \<open>
  A create, mknod or mkdir request for a name that exists replies \<open>EEXIST\<close> and
  changes nothing in the store, however full the disk is: no inode is taken.
\<close>

theorem create_exists:
  assumes "fs_ok y" "has_type (y_store y) p DIR"
    and "dir_find name (entries (y_store y) (extent_inum p)) = Some e"
    and "req = ReqCreate p name \<or> req = ReqMknod p name \<or> req = ReqMkdir p name"
  shows "\<exists>y1. dispatch L tsym y req = Inr (ReplyErr EEXIST, y1) \<and> fs_ok y1 \<and> y_store y1 = y_store y"
proof -
  have "make_fits (y_store y) p name" using assms(2,3) by (simp add: make_fits_def)
  then have "implements L tsym y req" using link_handlers [OF assms(1)] assms(4) by blast
  then show ?thesis
    using assms(3,4) by (auto simp: implements_def link_reply_def fs_link_def)
qed

theorem create_exists_witness:
  "\<exists>y y1. dispatch demo_lib 3 y (ReqMkdir 1 demo_name) = Inr (ReplyErr EEXIST, y1) \<and>
     y_store y1 = demo_store_a"
proof -
  obtain y where y: "fs_ok y" "y_store y = demo_store_a" using demo_created by metis
  then show ?thesis
    using create_exists [of y 1 demo_name "\<lparr>d_name = demo_name, d_inum = 2\<rparr>" "ReqMkdir 1 demo_name" demo_lib 3]
      demo_find_a dir_at_type [of demo_store_a 1, OF demo_dir_a [folded demo_inum(1)]] by auto
qed

section \<open>Unlinking\<close>

lemma unlink_entries:
  assumes fs: "fs_ok y" and dirt: "has_type (y_store y) p DIR"
    and e: "dir_find name (entries (y_store y) (extent_inum p)) = Some e"
    and y1: "y_store y1 = fs_unlink (y_store y) (extent_inum p) name"
  shows "entries (y_store y1) (extent_inum p) = erase_first name (entries (y_store y) (extent_inum p))"
    and "has_type (y_store y1) p DIR" and "st_files (y_store y1) (ekey e) = None"
    and "ekey e \<noteq> extent_inum p" and "e \<in> set (entries (y_store y) (extent_inum p))"
    and "\<forall>k. k \<noteq> extent_inum p \<longrightarrow> k \<noteq> ekey e \<longrightarrow> st_files (y_store y1) k = st_files (y_store y) k"
proof -
  let ?st = "y_store y" and ?k = "extent_inum p"
  let ?es = "entries ?st ?k"
  have dir: "dir_at ?st ?k ?es" using fs_dir(1) [OF fs dirt] .
  show mem: "e \<in> set ?es" using dir_find_SomeD [OF e] by blast
  have "?k < ekey e"
    using tree_okD(5) [OF fs_okD(2) [OF fs]] dir mem by (simp add: dir_at_in)
  then show neq: "ekey e \<noteq> ?k" by auto
  have f: "st_files (y_store y1) =
      (st_files ?st)(ekey e := None, ?k \<mapsto> (DIR, print_entries (erase_first name ?es)))"
    using e neq dir by (simp add: y1 fs_unlink_def store_put_def dir_at_def)
  then show "st_files (y_store y1) (ekey e) = None"
    "\<forall>k. k \<noteq> ?k \<longrightarrow> k \<noteq> ekey e \<longrightarrow> st_files (y_store y1) k = st_files ?st k"
    using neq by auto
  have "dir_at (y_store y1) ?k (erase_first name ?es)"
    using dir set_erase_first by (fastforce simp: dir_at_def f)
  then show "entries (y_store y1) ?k = erase_first name ?es" "has_type (y_store y1) p DIR"
    by (simp_all add: entries_eq dir_at_type)
qed

lemma dir_find_erase_distinct:
  "distinct (map d_name es) \<Longrightarrow> dir_find name (erase_first name es) = None"
  unfolding dir_find_None using set_erase_first [of name] by (induction es) auto

text \<open>
  C14. An unlink request for a name in a directory without duplicate names
  succeeds, removes the file and that one entry, keeps every other file and the
  order of the other entries, and a lookup of the name then replies \<open>ENOENT\<close>.
\<close>

theorem unlink_removes:
  assumes "fs_ok y" "has_type (y_store y) p DIR" "names_ok (st_files (y_store y))"
    and "dir_find name (entries (y_store y) (extent_inum p)) = Some e"
  shows "\<exists>y1 y2. dispatch L tsym y (ReqUnlink p name) = Inr (ReplyErr E_SUCCESS, y1) \<and>
    st_files (y_store y1) (ekey e) = None \<and>
    entries (y_store y1) (extent_inum p) = erase_first name (entries (y_store y) (extent_inum p)) \<and>
    (\<forall>k. k \<noteq> extent_inum p \<longrightarrow> k \<noteq> ekey e \<longrightarrow> st_files (y_store y1) k = st_files (y_store y) k) \<and>
    dispatch L tsym y1 (ReqLookup p name) = Inr (ReplyErr ENOENT, y2) \<and> fs_ok y2"
proof -
  obtain rep y1 where 1: "dispatch L tsym y (ReqUnlink p name) = Inr (rep, y1)" "fs_ok y1"
      "y_store y1 = fs_apply L tsym (y_store y) (ReqUnlink p name)"
      "answers L tsym (y_store y) (ReqUnlink p name) (y_store y1) rep"
    using unlink_handler [OF assms(1,2)] by (rule implementsE)
  note E = unlink_entries [OF assms(1,2,4) 1(3) [unfolded fs_apply.simps]]
  have "distinct (map d_name (entries (y_store y) (extent_inum p)))"
    using assms(3) fs_dir(1) [OF assms(1,2)] by (simp add: names_ok_def dir_at_in)
  then have "dir_find name (entries (y_store y1) (extent_inum p)) = None"
    unfolding E(1) by (rule dir_find_erase_distinct)
  moreover obtain rep2 y2 where 2: "dispatch L tsym y1 (ReqLookup p name) = Inr (rep2, y2)" "fs_ok y2"
      "answers L tsym (y_store y1) (ReqLookup p name) (y_store y2) rep2"
    using lookup_handlers(1) [OF 1(2)] by (rule implementsE)
  ultimately have "rep2 = ReplyErr ENOENT" using E(2) by simp
  then show ?thesis
    using 1(1,4) 2(1,2) E(1,3,6) assms(4) by auto
qed

lemma demo_names_a: "names_ok (st_files demo_store_a)"
proof -
  have only: "dir_in (st_files demo_store_a) k es \<Longrightarrow> k = 1 \<and> es = [\<lparr>d_name = demo_name, d_inum = 2\<rparr>]" for k es
  proof -
    assume d: "dir_in (st_files demo_store_a) k es"
    then have "k = 1" using type_codes(7) [symmetric] by (auto simp: dir_in_def demo_store_a_def split: if_splits)
    then show ?thesis using d demo_dir_a dir_in_unique by (auto simp: dir_at_in)
  qed
  show ?thesis
    unfolding names_ok_def
  proof (intro allI impI)
    fix k es
    assume "dir_in (st_files demo_store_a) k es"
    from only [OF this] show "distinct (map d_name es)" by simp
  qed
qed

theorem unlink_removes_witness:
  "\<exists>y y1 y2. dispatch demo_lib 3 y (ReqUnlink 1 demo_name) = Inr (ReplyErr E_SUCCESS, y1) \<and>
     st_files (y_store y1) 2 = None \<and>
     dispatch demo_lib 3 y1 (ReqLookup 1 demo_name) = Inr (ReplyErr ENOENT, y2)"
proof -
  obtain y where y: "fs_ok y" "y_store y = demo_store_a" using demo_created by metis
  have "has_type (y_store y) 1 DIR" using dir_at_type [of demo_store_a 1] demo_dir_a by (simp add: y(2))
  moreover have "names_ok (st_files (y_store y))"
    "dir_find demo_name (entries (y_store y) (extent_inum 1)) = Some \<lparr>d_name = demo_name, d_inum = 2\<rparr>"
    using demo_names_a demo_find_a by (simp_all add: y(2))
  ultimately show ?thesis
    using unlink_removes [OF y(1), of 1 demo_name _ demo_lib 3] by (fastforce simp: ekey_def)
qed

text \<open>
  C39. Unlinking does not look at what the name stands for: a name of a directory is
  removed like a file's, and what the directory held stays on the disk with no
  entry leading to it.
\<close>

theorem unlink_directory:
  assumes "fs_ok y" "has_type (y_store y) p DIR"
    and "dir_find name (entries (y_store y) (extent_inum p)) = Some e"
    and "has_type (y_store y) (d_inum e) DIR"
    and "x \<in> set (entries (y_store y) (ekey e))"
  shows "\<exists>y1. dispatch L tsym y (ReqUnlink p name) = Inr (ReplyErr E_SUCCESS, y1) \<and>
    st_files (y_store y1) (ekey e) = None \<and> st_files (y_store y1) (ekey x) \<noteq> None \<and>
    (\<forall>k es. dir_in (st_files (y_store y1)) k es \<longrightarrow> ekey x \<notin> ekey ` set es)"
proof -
  let ?F = "st_files (y_store y)" and ?k = "extent_inum p"
  note T = tree_okD [OF fs_okD(2) [OF assms(1)]]
  obtain rep y1 where 1: "dispatch L tsym y (ReqUnlink p name) = Inr (rep, y1)" "fs_ok y1"
      "y_store y1 = fs_apply L tsym (y_store y) (ReqUnlink p name)"
      "answers L tsym (y_store y) (ReqUnlink p name) (y_store y1) rep"
    using unlink_handler [OF assms(1,2)] by (rule implementsE)
  note E = unlink_entries [OF assms(1-3) 1(3) [unfolded fs_apply.simps]]
  have dp: "dir_in ?F ?k (entries (y_store y) ?k)"
    using fs_dir(1) [OF assms(1,2)] by (simp add: dir_at_in)
  have de: "dir_in ?F (ekey e) (entries (y_store y) (ekey e))"
    using fs_dir(1) [OF assms(1,4)] by (simp add: dir_at_in ekey_def)
  have x: "?F (ekey x) \<noteq> None" "ekey e < ekey x" using T(4,5) [OF de assms(5)] by auto
  have "?k < ekey e" using T(5) [OF dp E(5)] .
  with x(2) have x': "ekey x \<noteq> ?k" "ekey x \<noteq> ekey e" by auto
  then have live: "st_files (y_store y1) (ekey x) \<noteq> None" using x(1) E(6) by auto
  have lost: "ekey x \<notin> ekey ` set es" if d: "dir_in (st_files (y_store y1)) k es" for k es
  proof
    assume "ekey x \<in> ekey ` set es"
    then obtain z where z: "z \<in> set es" "ekey z = ekey x" by auto
    have "k \<noteq> ekey e" using d E(3) by (auto simp: dir_in_def)
    obtain fs where fs: "dir_in ?F k fs" "z \<in> set fs"
    proof (cases "k = ?k")
      case True
      then have "es = erase_first name (entries (y_store y) ?k)"
        using entries_of_tree [OF d] E(1) by simp
      then have "z \<in> set (entries (y_store y) ?k)" using z(1) set_erase_first by auto
      then show ?thesis using that dp True by blast
    next
      case False
      then have "dir_in ?F k es" using d E(6) \<open>k \<noteq> ekey e\<close> by (simp add: dir_in_def)
      then show ?thesis using that z(1) by blast
    qed
    from T(6) [OF this(1) de \<open>k \<noteq> ekey e\<close> this(2) assms(5)] z(2) show False by simp
  qed
  have "rep = ReplyErr E_SUCCESS" using 1(4) assms(3) by simp
  then show ?thesis using 1(1) E(3) live lost by blast
qed

lemma demo_nested:
  obtains y where "fs_ok y" "has_type (y_store y) 1 DIR"
    "dir_find demo_name (entries (y_store y) 1) = Some \<lparr>d_name = demo_name, d_inum = 2\<rparr>"
    "has_type (y_store y) 2 DIR" "entries (y_store y) 2 = [\<lparr>d_name = demo_name, d_inum = 3\<rparr>]"
proof -
  obtain y where y: "fs_ok y" "y_store y = demo_store" using demo_new by metis
  have fits: "link_fits (y_store y) (y_store y) 1 demo_name" using demo_fits by (simp add: y(2))
  have new: "dir_find demo_name (entries (y_store y) (extent_inum 1)) = None"
    by (simp add: y(2) demo_entries dir_find_def)
  obtain rep y1 where 1: "fs_ok y1" "y_store y1 = fs_link T_DIR (y_store y) 1 demo_name"
    using link_handlers(3) [OF y(1) link_make_fits [OF fits], of demo_lib 3] by (rule implementsE) auto
  note E1 = link_entries [OF y(1) fits new 1(2) [folded demo_inum(1)]]
  have n2: "next_inum (y_store y) = 2" by (simp add: y(2) next_inum_def demo_store_def)
  have st1: "st_files (y_store y1) 2 = Some (DIR, [])" "st_last (y_store y1) = 2" "st_room (y_store y1) = 24575"
  proof -
    show "st_files (y_store y1) 2 = Some (DIR, [])" using E1(3) by (simp add: n2)
    have "y_store y1 = store_put (store_create demo_store T_DIR) 1 [97, 47, 50, 47]"
      using new by (simp add: 1(2) fs_link_def y(2) demo_entries demo_entry)
    then show "st_last (y_store y1) = 2" "st_room (y_store y1) = 24575"
      by (simp_all add: store_put_def store_create_def demo_store_def)
  qed
  have type2: "has_type (y_store y1) 2 DIR" by (simp add: has_type_def st1)
  have n3: "next_inum (y_store y1) = 3" by (simp add: next_inum_def st1)
  have "entries (y_store y1) 2 = []" by (rule entries_eq) (simp add: dir_at_def st1)
  then have new2: "dir_find demo_name (entries (y_store y1) (extent_inum 2)) = None"
    by (simp add: dir_find_def)
  have e: "entry_bytes demo_name 3 = [97, 47, 51, 47]"
    by (simp add: entry_bytes_def demo_name_def filename_def dec.simps)
  have "can_put (y_store y1) 2 [97, 47, 51, 47]" by (simp add: can_put_def st1 layout)
  moreover have "contents (y_store y1) 2 = []" by (simp add: contents_def st1)
  ultimately have fits2: "link_fits (y_store y1) (y_store y1) 2 demo_name"
    using type2 by (simp add: link_fits_def n3 e can_create_def st1)
      (simp add: name_ok_def demo_name_def layout)
  obtain rep2 y2 where 2: "fs_ok y2" "y_store y2 = fs_link T_FILE (y_store y1) 2 demo_name"
    using link_handlers(1) [OF 1(1) link_make_fits [OF fits2], of demo_lib 3] by (rule implementsE) auto
  note E2 = link_entries [OF 1(1) fits2 new2 2(2) [folded demo_inum(2)]]
  have "extent_inum 3 = 3" by (simp add: extent_inum_def)
  then have same: "st_files (y_store y2) 1 = st_files (y_store y1) 1"
    using E2(4) by (simp add: n3)
  show thesis
  proof (rule that [OF 2(1)])
    show "has_type (y_store y2) 1 DIR" using E1(2) same by (simp add: has_type_def)
    show "dir_find demo_name (entries (y_store y2) 1) = Some \<lparr>d_name = demo_name, d_inum = 2\<rparr>"
    proof -
      have "entries (y_store y2) 1 = entries (y_store y1) 1" by (simp add: entries_def same)
      also have "\<dots> = [\<lparr>d_name = demo_name, d_inum = 2\<rparr>]"
        using E1(1) by (simp only: demo_inum n2) (simp only: y(2) demo_entries append_Nil)
      finally show ?thesis by (simp add: dir_find_def)
    qed
    show "has_type (y_store y2) 2 DIR" "entries (y_store y2) 2 = [\<lparr>d_name = demo_name, d_inum = 3\<rparr>]"
      using E2(1,2) \<open>entries (y_store y1) 2 = []\<close> by (simp_all add: n3)
  qed
qed

theorem unlink_directory_witness:
  "\<exists>y y1. dispatch demo_lib 3 y (ReqUnlink 1 demo_name) = Inr (ReplyErr E_SUCCESS, y1) \<and>
     st_files (y_store y1) 2 = None \<and> st_files (y_store y1) 3 \<noteq> None"
proof -
  obtain y where y: "fs_ok y" "has_type (y_store y) 1 DIR"
    "dir_find demo_name (entries (y_store y) 1) = Some \<lparr>d_name = demo_name, d_inum = 2\<rparr>"
    "has_type (y_store y) 2 DIR" "entries (y_store y) 2 = [\<lparr>d_name = demo_name, d_inum = 3\<rparr>]"
    by (rule demo_nested)
  have "extent_inum 3 = 3" by (simp add: extent_inum_def)
  then show ?thesis
    using unlink_directory [OF y(1,2), of demo_name "\<lparr>d_name = demo_name, d_inum = 2\<rparr>"
      "\<lparr>d_name = demo_name, d_inum = 3\<rparr>" demo_lib 3] y(3-5)
    by (fastforce simp: ekey_def)
qed

end
