(* ===== verification/Link_Properties.thy ===== *)
theory Link_Properties
  imports Tree_Properties
begin

text \<open>
  Symbolic links, names, and the places where a request does not do what the
  comments of src/fuse.cc say.
\<close>

section \<open>Symbolic links\<close>

lemma symlink_entries:
  assumes fs: "fs_ok y" and adm: "admissible L tsym (y_store y) (ReqSymlink link p name)"
    and y1: "y_store y1 = fs_symlink tsym (y_store y) link (extent_inum p) name"
  shows "entries (y_store y1) (extent_inum p) =
      entries (y_store y) (extent_inum p) @ [\<lparr>d_name = name, d_inum = next_inum (y_store y)\<rparr>]"
    and "has_type (y_store y1) p DIR"
    and "st_files (y_store y1) (extent_inum (next_inum (y_store y))) = Some (ucast tsym, link)"
proof -
  let ?st = "y_store y" and ?k = "extent_inum p"
  let ?es = "entries ?st ?k" and ?e = "\<lparr>d_name = name, d_inum = next_inum ?st\<rparr>"
  have F: "name_ok name" "has_type ?st p DIR" "can_create ?st"
    using adm by (simp_all add: link_fits_def)
  note N = next_inum [OF F(3)]
  have dir: "dir_at ?st ?k ?es" using fs_dir(1) [OF fs F(2)] .
  have "?k \<le> st_last ?st" using fs_okD(3) [OF fs, of ?k] dir by (simp add: dir_at_def)
  then have neq: "?k \<noteq> st_last ?st + 1" using N(3) by (auto simp: word_le_nat_alt)
  let ?st1 = "store_put (store_create ?st tsym) (st_last ?st + 1) link"
  have f1: "st_files ?st1 = (st_files ?st)(st_last ?st + 1 \<mapsto> (ucast tsym, link))"
    by (simp add: store_put_def)
  then have "st_files ?st1 ?k = Some (DIR, print_entries ?es)"
    using neq dir by (simp add: dir_at_def)
  then have f: "st_files (y_store y1) =
      (st_files ?st)(st_last ?st + 1 \<mapsto> (ucast tsym, link), ?k \<mapsto> (DIR, print_entries (?es @ [?e])))"
    unfolding y1 fs_symlink_def by (simp add: f1)
  have "entry_ok ?e" using F(1) N(2) by (simp add: entry_ok_def)
  then have "dir_at (y_store y1) ?k (?es @ [?e])"
    using dir by (auto simp: dir_at_def f)
  then show "entries (y_store y1) ?k = ?es @ [?e]" "has_type (y_store y1) p DIR"
    by (simp_all add: entries_eq dir_at_type)
  show "st_files (y_store y1) (extent_inum (next_inum ?st)) = Some (ucast tsym, link)"
    using neq by (simp add: f N(1))
qed

lemma demo_symlink_adm:
  "admissible demo_lib 3 demo_store_a (ReqSymlink [47, 120] 1 demo_name)"
proof -
  let ?st1 = "store_put (store_create demo_store_a 3) 3 [47, 120]"
  have e: "entry_bytes demo_name (next_inum demo_store_a) = [97, 47, 51, 47]"
    by (simp add: entry_bytes_def demo_name_def next_inum_def demo_store_a_def filename_def dec.simps)
  have c: "contents demo_store_a 1 = [97, 47, 50, 47]" by (simp add: contents_def demo_store_a_def)
  have "can_put ?st1 1 ([97, 47, 50, 47] @ [97, 47, 51, 47])"
    by (simp add: can_put_def store_put_def store_create_def demo_store_a_def layout)
  then show ?thesis
    using demo_fits_a by (simp add: link_fits_def e c) (simp add: demo_store_a_def layout)
qed

text \<open>
  C15. A symlink request replies with a new inode; readlink of that inode gives back
  the target exactly as it was passed, and a lookup of a name that was not in the
  directory finds that inode.
\<close>

theorem symlink_then_readlink:
  assumes "fs_ok y" "symlink_type tsym" "admissible L tsym (y_store y) (ReqSymlink link p name)"
    and "dir_find name (entries (y_store y) (extent_inum p)) = None"
  shows "\<exists>e y1 y2 e' y3. dispatch L tsym y (ReqSymlink link p name) = Inr (ReplyEntry e, y1) \<and>
    dispatch L tsym y1 (ReqReadlink (e_ino e)) = Inr (ReplyBuf link, y2) \<and>
    dispatch L tsym y2 (ReqLookup p name) = Inr (ReplyEntry e', y3) \<and> e_ino e' = e_ino e \<and> fs_ok y3"
proof -
  obtain rep y1 where 1: "dispatch L tsym y (ReqSymlink link p name) = Inr (rep, y1)" "fs_ok y1"
      "y_store y1 = fs_apply L tsym (y_store y) (ReqSymlink link p name)"
      "answers L tsym (y_store y) (ReqSymlink link p name) (y_store y1) rep"
    using symlink_handlers(1) [OF assms(1-3)] by (rule implementsE)
  note E = symlink_entries [OF assms(1,3) 1(3) [unfolded fs_apply.simps]]
  obtain e where e: "rep = ReplyEntry e" "e_ino e = next_inum (y_store y)"
    using 1(4) by (auto simp: entry_reply_def)
  obtain rep2 y2 where 2: "dispatch L tsym y1 (ReqReadlink (e_ino e)) = Inr (rep2, y2)" "fs_ok y2"
      "y_store y2 = fs_apply L tsym (y_store y1) (ReqReadlink (e_ino e))"
      "answers L tsym (y_store y1) (ReqReadlink (e_ino e)) (y_store y2) rep2"
    using symlink_handlers(2) [OF 1(2) assms(2)] by (rule implementsE)
  have "rep2 = ReplyBuf link"
    using 2(4) E(3) by (simp add: e(2) has_type_def contents_def)
  moreover obtain rep3 y3 where 3: "dispatch L tsym y2 (ReqLookup p name) = Inr (rep3, y3)" "fs_ok y3"
      "answers L tsym (y_store y2) (ReqLookup p name) (y_store y3) rep3"
    using lookup_handlers(1) [OF 2(2)] by (rule implementsE)
  moreover have "dir_find name (entries (y_store y2) (extent_inum p)) =
      Some \<lparr>d_name = name, d_inum = next_inum (y_store y)\<rparr>"
    using dir_find_snoc_new [OF assms(4)] 2(3) E(1) by simp
  then obtain e' where "rep3 = ReplyEntry e'" "e_ino e' = e_ino e"
    using 3(3) E(2) 2(3) e(2) by (auto simp: entry_reply_def)
  ultimately show ?thesis using 1(1) 2(1) e(1) by auto
qed

lemma demo_symlink_adm_new:
  "admissible demo_lib 3 demo_store (ReqSymlink [47, 120] 1 demo_name)"
proof -
  let ?st1 = "store_put (store_create demo_store 3) 2 [47, 120]"
  have c: "contents demo_store 1 = []" by (simp add: contents_def demo_store_def)
  have "can_put ?st1 1 [97, 47, 50, 47]"
    by (simp add: can_put_def store_put_def store_create_def demo_store_def layout)
  then show ?thesis
    using demo_fits by (simp add: link_fits_def demo_entry c) (simp add: demo_store_def layout)
qed

theorem symlink_then_readlink_witness:
  "\<exists>y e y1 y2. dispatch demo_lib 3 y (ReqSymlink [47, 120] 1 demo_name) = Inr (ReplyEntry e, y1) \<and>
     dispatch demo_lib 3 y1 (ReqReadlink (e_ino e)) = Inr (ReplyBuf [47, 120], y2)"
proof -
  obtain y where y: "fs_ok y" "y_store y = demo_store" using demo_new by metis
  have "dir_find demo_name (entries (y_store y) (extent_inum 1)) = None"
    "admissible demo_lib 3 (y_store y) (ReqSymlink [47, 120] 1 demo_name)"
    using demo_symlink_adm_new by (simp_all add: y(2) demo_entries dir_find_def)
  from symlink_then_readlink [OF y(1) demo_symlink_type this(2,1)] show ?thesis by blast
qed

text \<open>
  C38. Unlike create and mkdir, symlink does not look whether the name exists: it
  succeeds, the directory then holds two entries with one name, and a lookup still
  finds the old file, so the new link cannot be reached by its name.
\<close>

theorem symlink_duplicates:
  assumes "fs_ok y" "symlink_type tsym" "admissible L tsym (y_store y) (ReqSymlink link p name)"
    and "dir_find name (entries (y_store y) (extent_inum p)) = Some old"
  shows "\<exists>e y1 e' y2. dispatch L tsym y (ReqSymlink link p name) = Inr (ReplyEntry e, y1) \<and>
    \<not> names_ok (st_files (y_store y1)) \<and>
    dispatch L tsym y1 (ReqLookup p name) = Inr (ReplyEntry e', y2) \<and> e_ino e' = d_inum old"
proof -
  obtain rep y1 where 1: "dispatch L tsym y (ReqSymlink link p name) = Inr (rep, y1)" "fs_ok y1"
      "y_store y1 = fs_apply L tsym (y_store y) (ReqSymlink link p name)"
      "answers L tsym (y_store y) (ReqSymlink link p name) (y_store y1) rep"
    using symlink_handlers(1) [OF assms(1-3)] by (rule implementsE)
  note E = symlink_entries [OF assms(1,3) 1(3) [unfolded fs_apply.simps]]
  let ?es = "entries (y_store y) (extent_inum p)"
  have old: "old \<in> set ?es" "d_name old = name" using dir_find_SomeD [OF assms(4)] by auto
  have "dir_in (st_files (y_store y1)) (extent_inum p) (entries (y_store y1) (extent_inum p))"
    using fs_dir(1) [OF 1(2) E(2)] by (simp add: dir_at_in)
  moreover have "\<not> distinct (map d_name (entries (y_store y1) (extent_inum p)))"
    using old by (auto simp: E(1))
  ultimately have dup: "\<not> names_ok (st_files (y_store y1))" unfolding names_ok_def by blast
  obtain rep2 y2 where 2: "dispatch L tsym y1 (ReqLookup p name) = Inr (rep2, y2)"
      "answers L tsym (y_store y1) (ReqLookup p name) (y_store y2) rep2"
    using lookup_handlers(1) [OF 1(2)] by (rule implementsE)
  have "dir_find name (entries (y_store y1) (extent_inum p)) = Some old"
    using assms(4) by (simp add: E(1) dir_find_def find_append)
  then obtain e' where "rep2 = ReplyEntry e'" "e_ino e' = d_inum old"
    using 2(2) E(2) by (auto simp: entry_reply_def)
  then show ?thesis using 1(1,4) 2(1) dup by auto
qed

theorem symlink_duplicates_witness:
  "\<exists>y e y1. dispatch demo_lib 3 y (ReqSymlink [47, 120] 1 demo_name) = Inr (ReplyEntry e, y1) \<and>
     \<not> names_ok (st_files (y_store y1))"
proof -
  obtain y where y: "fs_ok y" "y_store y = demo_store_a" using demo_created by metis
  have "dir_find demo_name (entries (y_store y) (extent_inum 1)) = Some \<lparr>d_name = demo_name, d_inum = 2\<rparr>"
    "admissible demo_lib 3 (y_store y) (ReqSymlink [47, 120] 1 demo_name)"
    using demo_symlink_adm demo_find_a by (simp_all add: y(2))
  from symlink_duplicates [OF y(1) demo_symlink_type this(2,1)] show ?thesis by blast
qed

section \<open>Names\<close>

definition is_symlink :: "request \<Rightarrow> bool" where
  "is_symlink req = (case req of ReqSymlink link p name \<Rightarrow> True | _ \<Rightarrow> False)"

lemma names_link_step:
  assumes fs: "fs_ok y" and names: "names_ok (st_files (y_store y))"
    and fits: "make_fits (y_store y) p name" and ty: "ty = T_FILE \<or> ty = T_DIR"
  shows "names_ok (st_files (fs_link ty (y_store y) (extent_inum p) name))"
proof (cases "dir_find name (entries (y_store y) (extent_inum p))")
  case None
  let ?st = "y_store y" and ?k = "extent_inum p"
  let ?es = "entries ?st ?k" and ?e = "\<lparr>d_name = name, d_inum = next_inum ?st\<rparr>"
  have F: "name_ok name" "has_type ?st p DIR" "can_create ?st"
    using fits None by (simp_all add: make_fits_def link_fits_def)
  note N = next_inum [OF F(3)]
  have dir: "dir_at ?st ?k ?es" using fs_dir(1) [OF fs F(2)] .
  have "?k \<le> st_last ?st" using fs_okD(3) [OF fs, of ?k] dir by (simp add: dir_at_def)
  then have neq: "?k \<noteq> st_last ?st + 1" using N(3) by (auto simp: word_le_nat_alt)
  have fresh: "st_files ?st (st_last ?st + 1) = None"
    using fs_okD(3) [OF fs, of "st_last ?st + 1"] N(3)
    by (cases "st_files ?st (st_last ?st + 1)") (simp_all add: word_le_nat_alt)
  have f: "st_files (fs_link ty ?st ?k name) =
      (st_files ?st)(st_last ?st + 1 \<mapsto> (ucast ty, []), ?k \<mapsto> (DIR, print_entries (?es @ [?e])))"
    using None neq dir by (simp add: fs_link_def store_put_def dir_at_def)
  have "entry_ok ?e" using F(1) N(2) by (simp add: entry_ok_def)
  then show ?thesis
    unfolding f using names dir fresh neq None
    by (intro names_link) (simp_all add: dir_at_in)
qed (use names in \<open>simp add: fs_link_def\<close>)

lemma names_put_step:
  assumes "names_ok (st_files st)" "st_files st k = None \<or> (\<exists>t d. st_files st k = Some (t, d) \<and> t \<noteq> DIR)"
  shows "names_ok (st_files (store_put st k d'))"
  using assms names_put_file [of "st_files st" k _ _ d'] by (auto simp: store_put_def)

text \<open>
  Requests other than symlink keep the names in every directory distinct.
\<close>

theorem names_distinct:
  assumes "fs_ok y" "symlink_type tsym" "names_ok (st_files (y_store y))"
    and "admissible L tsym (y_store y) req" "\<not> is_symlink req"
    and "dispatch L tsym y req = Inr (rep, y1)"
  shows "names_ok (st_files (y_store y1))"
proof -
  let ?st = "y_store y"
  have st: "y_store y1 = fs_apply L tsym ?st req"
    using dispatch_implements [OF assms(1,2,4)] assms(6) by (auto simp: implements_def)
  have put: "names_ok (st_files (store_put ?st (extent_inum i) d))"
    if "\<not> has_type ?st i DIR" for i d
    using that by (intro names_put_step [OF assms(3)]) (auto simp: has_type_def split: option.splits)
  have reg: "\<not> has_type ?st i DIR" if "has_type ?st i REG" for i
    using that by (auto simp: has_type_def split: option.splits)
  have unlink: "names_ok (st_files (fs_unlink ?st (extent_inum p) name))" if dirt: "has_type ?st p DIR" for p name
  proof (cases "dir_find name (entries ?st (extent_inum p))")
    case (Some e)
    let ?es = "entries ?st (extent_inum p)"
    have dir: "dir_in (st_files ?st) (extent_inum p) ?es"
      using fs_dir(1) [OF assms(1) dirt] by (simp add: dir_at_in)
    have mem: "e \<in> set ?es" using dir_find_SomeD [OF Some] by blast
    have "extent_inum p < ekey e" by (rule tree_okD(5) [OF fs_okD(2) [OF assms(1)] dir mem])
    then have neq: "extent_inum p \<noteq> ekey e" by auto
    have f: "st_files (fs_unlink ?st (extent_inum p) name) = (st_files ?st)(ekey e := None,
        extent_inum p \<mapsto> (DIR, print_entries (erase_first name ?es)))"
      using Some neq dir by (simp add: fs_unlink_def store_put_def dir_in_def)
    show ?thesis unfolding f by (rule names_unlink [OF assms(3) dir neq])
  qed (use assms(3) in \<open>simp add: fs_unlink_def\<close>)
  show ?thesis
    unfolding st using assms(3-5) names_link_step [OF assms(1,3)] put unlink reg
    by (cases req) (auto simp: is_symlink_def)
qed

theorem names_distinct_witness:
  "\<exists>y rep y1. dispatch demo_lib 3 y (ReqUnlink 1 demo_name) = Inr (rep, y1) \<and>
     names_ok (st_files (y_store y1))"
proof -
  obtain y where y: "fs_ok y" "y_store y = demo_store_a" using demo_created by metis
  have adm: "admissible demo_lib 3 (y_store y) (ReqUnlink 1 demo_name)"
    using dir_at_type [of demo_store_a 1] demo_dir_a by (simp add: y(2))
  obtain rep y1 where d: "dispatch demo_lib 3 y (ReqUnlink 1 demo_name) = Inr (rep, y1)"
    using dispatch_implements [OF y(1) demo_symlink_type adm] by (rule implementsE)
  have "names_ok (st_files (y_store y))" "\<not> is_symlink (ReqUnlink 1 demo_name)"
    using demo_names_a by (simp_all add: y(2) is_symlink_def)
  from names_distinct [OF y(1) demo_symlink_type this(1) adm this(2) d] d show ?thesis by blast
qed

end
