(* ===== verification/Edge_Properties.thy ===== *)
theory Edge_Properties
  imports Link_Properties
begin

text \<open>What the requests do at the edges of their arguments.\<close>

text \<open>
  C36. A read request whose offset is beyond the end of the file does not reply with
  zero bytes: \<open>std::string::substr\<close> throws \<open>std::out_of_range\<close>, which nothing
  catches.
\<close>

theorem read_beyond_end:
  assumes "fs_ok y" "has_type (y_store y) i REG"
    and "length (contents (y_store y) (extent_inum i)) < unat off"
  shows "dispatch L tsym y (ReqRead i sz off) = Inl OutOfRange"
proof -
  obtain d where "st_files (y_store y) (extent_inum i) = Some (REG, d)"
      "contents (y_store y) (extent_inum i) = d"
    using assms(2) by (rule has_typeE)
  then show ?thesis
    using yfs_read_beyond [OF fs_okD(1) [OF assms(1)]] assms(3)
    by (simp add: fuseserver_read_def)
qed

theorem read_beyond_end_witness:
  "\<exists>y. fs_ok y \<and> dispatch demo_lib 3 y (ReqRead 2 10 1) = Inl OutOfRange"
proof -
  obtain y where y: "fs_ok y" "y_store y = demo_store_a" using demo_created by metis
  then show ?thesis using read_beyond_end [of y 2 1 demo_lib 3 10] by auto
qed

text \<open>
  C37. A write request that leaves a hole reports the bytes of the hole as written:
  the count in the reply is larger than the size asked for.
\<close>

theorem write_count_hole:
  assumes "fs_ok y" "admissible L tsym (y_store y) (ReqWrite i buf sz off)"
    and "length (contents (y_store y) (extent_inum i)) < unat off"
  shows "\<exists>n y1. dispatch L tsym y (ReqWrite i buf sz off) = Inr (ReplyWrite n, y1) \<and>
    unat n = unat sz + (unat off - length (contents (y_store y) (extent_inum i))) \<and> unat sz < unat n"
proof -
  let ?d = "contents (y_store y) (extent_inum i)"
  have adm: "length buf = unat sz" "can_put (y_store y) (extent_inum i) (write_spec ?d (unat off) buf)"
    using assms(2) by simp_all
  have "length (write_spec ?d (unat off) buf) \<le> MAXFILE * BLOCK_SIZE"
    using adm(2) by (auto simp: can_put_def split: option.splits)
  then have "written_spec ?d (unat off) buf < 2 ^ 64"
    by (simp add: length_write_spec written_spec_def layout) linarith
  then have n: "unat (word_of_nat (written_spec ?d (unat off) buf) :: u64) = written_spec ?d (unat off) buf"
    by (rule unat_u64_of_nat)
  obtain rep y1 where "dispatch L tsym y (ReqWrite i buf sz off) = Inr (rep, y1)"
      "answers L tsym (y_store y) (ReqWrite i buf sz off) (y_store y1) rep"
    using write_handler [OF assms(1,2)] by (rule implementsE)
  then show ?thesis
    using n assms(3) adm(1) by (auto simp: written_spec_def)
qed

theorem write_count_hole_witness:
  "\<exists>y n y1. dispatch demo_lib 3 y (ReqWrite 2 [104, 105] 2 3) = Inr (ReplyWrite n, y1) \<and> unat n = 5"
proof -
  obtain y where y: "fs_ok y" "y_store y = demo_store_a" using demo_created by metis
  have adm: "admissible demo_lib 3 (y_store y) (ReqWrite 2 [104, 105] 2 3)"
    using demo_write_adm by (simp only: y(2))
  have "length (contents (y_store y) (extent_inum 2)) < unat (3 :: u64)" by (simp add: y(2))
  from write_count_hole [OF y(1) adm this] show ?thesis by (auto simp: y(2))
qed

text \<open>
  A getattr request never fails: for a number that names no file it replies
  with the attributes of an empty symbolic link.
\<close>

theorem getattr_missing:
  assumes "fs_ok y" "st_files (y_store y) (extent_inum i) = None"
  shows "\<exists>s y1. dispatch L tsym y (ReqGetattr i) = Inr (ReplyAttr s, y1) \<and>
    st_mode s = S_IFLNK OR 511 \<and> st_size s = 0"
proof -
  obtain rep y1 where "dispatch L tsym y (ReqGetattr i) = Inr (rep, y1)"
      "answers L tsym (y_store y) (ReqGetattr i) (y_store y1) rep"
    using getattr_handler [OF assms(1)] by (rule implementsE)
  then show ?thesis using assms(2) by (auto simp: stat_ok_def)
qed

theorem getattr_missing_witness:
  "\<exists>y s y1. dispatch demo_lib 3 y (ReqGetattr 2) = Inr (ReplyAttr s, y1) \<and> st_mode s = S_IFLNK OR 511"
proof -
  obtain y where y: "fs_ok y" "y_store y = demo_store" using demo_new by metis
  have "st_files (y_store y) (extent_inum 2) = None" by (simp add: y(2) demo_store_def)
  from getattr_missing [OF y(1) this] show ?thesis by blast
qed

text \<open>
  C40. \<open>create\<close> with a parent that is a regular file: \<open>lookup\<close> fails without setting
  \<open>exist\<close>, whose status \<open>create\<close> ignores, so the uninitialised byte decides.  When
  it is 0 the call succeeds and appends the text of an entry to the data of the
  file; otherwise it returns \<open>EXIST\<close>.
\<close>

theorem create_in_file:
  assumes "y_ok y" "st_files (y_store y) (extent_inum p) = Some (REG, d)"
    and "can_create (y_store y)"
    and "can_put (y_store y) (extent_inum p) (d @ entry_bytes name (next_inum (y_store y)))"
  shows "\<exists>y'. y_ok y' \<and>
    (if fst (uninit 1 y) = [0]
     then yfs_create y p name ino = Inr (OK, next_inum (y_store y), y') \<and>
          contents (y_store y') (extent_inum p) = d @ entry_bytes name (next_inum (y_store y))
     else yfs_create y p name ino = Inr (EXIST, ino, y') \<and> y_store y' = y_store y)"
proof -
  let ?i = "next_inum (y_store y)"
  obtain junk y0 where u: "uninit 1 y = (junk, y0)" by fastforce
  note y0 = uninitD [OF u]
  have ok0: "y_ok y0" "ec_ok (yfs_ec y0)" "ec_store (yfs_ec y0) = y_store y"
    using y0 assms(1) by (simp_all add: y_ok_def y_store_def)
  have look: "lookup y0 p name (junk \<noteq> [0]) ino = Inr (IOERR, junk \<noteq> [0], ino, y0)"
    using lookup_not_dir [OF ok0(1)] has_type_Some [OF assms(2)] y0(2) by simp
  show ?thesis
  proof (cases "junk = [0]")
    case True
    have t: "(ucast T_FILE :: u16) \<noteq> 0" by simp
    have "can_create (ec_store (yfs_ec y0))" using assms(3) by (simp add: ok0(3))
    from ec.create_ok [OF ok0(2) this t] obtain ec2 where
      c: "ec_create (yfs_ec y0) T_FILE = Inr (OK, ?i, ec2)" "ec_ok ec2"
        "ec_store ec2 = store_create (y_store y) T_FILE"
      unfolding ok0(3) next_inum_def by blast
    note N = next_inum [OF assms(3)]
    have "extent_inum p \<le> st_last (y_store y)"
      using ec.known [OF ok0(2), of "extent_inum p"] assms(2) by (simp add: ok0(3))
    then have neq: "extent_inum p \<noteq> st_last (y_store y) + 1"
      using N(3) by (auto simp: word_le_nat_alt)
    have "st_files (ec_store ec2) (extent_inum p) = Some (REG, d)"
      "can_put (ec_store ec2) (extent_inum p) (d @ entry_bytes name ?i)"
      using assms(2,4) neq by (simp_all add: c(3) can_put_create)
    note old = this
    from append_entry [OF c(2) this] obtain ec3 ec4 where
      g: "ec_get ec2 p = Inr (OK, d, ec3)" "ec_put ec3 p (d @ entry_bytes name ?i) = Inr (OK, ec4)"
        "ec_ok ec4" "ec_store ec4 = store_put (ec_store ec2) (extent_inum p) (d @ entry_bytes name ?i)"
      by blast
    have "yfs_create y p name ino = Inr (OK, ?i, y0\<lparr>yfs_ec := ec4\<rparr>)"
      using u look True c(1) g(1,2) by (simp add: yfs_create_def make_node_def)
    moreover have "contents (ec_store ec4) (extent_inum p) = d @ entry_bytes name ?i"
      using store_put_contents [of "ec_store ec2"] old(1) by (simp add: g(4))
    ultimately show ?thesis using True u g(3) by (auto intro!: exI [of _ "y0\<lparr>yfs_ec := ec4\<rparr>"])
  next
    case False
    then have "yfs_create y p name ino = Inr (EXIST, ino, y0)"
      using u look by (simp add: yfs_create_def make_node_def)
    then show ?thesis using False u ok0(1) y0(2) by auto
  qed
qed

theorem create_in_file_witness:
  "\<exists>y y'. y_store y = demo_store_a \<and>
     (if fst (uninit 1 y) = [0]
      then yfs_create y 2 demo_name 0 = Inr (OK, 3, y') \<and> contents (y_store y') 2 = [97, 47, 51, 47]
      else yfs_create y 2 demo_name 0 = Inr (EXIST, 0, y'))"
proof -
  obtain y where y: "fs_ok y" "y_store y = demo_store_a" using demo_created by metis
  have e: "next_inum demo_store_a = 3" "entry_bytes demo_name 3 = [97, 47, 51, 47]"
    by (simp_all add: entry_bytes_def demo_name_def next_inum_def demo_store_a_def filename_def dec.simps)
  have "can_create demo_store_a" by (simp add: can_create_def demo_store_a_def layout)
  moreover have "can_put demo_store_a 2 [97, 47, 51, 47]" by (rule demo_put_a) simp_all
  ultimately obtain y' where "if fst (uninit 1 y) = [0]
     then yfs_create y 2 demo_name 0 = Inr (OK, 3, y') \<and> contents (y_store y') 2 = [97, 47, 51, 47]
     else yfs_create y 2 demo_name 0 = Inr (EXIST, 0, y') \<and> y_store y' = y_store y"
    using create_in_file [OF fs_okD(1) [OF y(1)], of 2 "[]" demo_name 0]
    unfolding y(2) demo_inum e append_Nil by (auto simp: demo_files_a(1))
  then show ?thesis using y(2) by (intro exI [of _ y] exI [of _ y']) (auto split: if_splits)
qed

text \<open>
  The bits of an extent identifier above the low 31 are ignored: identifiers that
  agree on them name one file, for every operation of the server.
\<close>

theorem extent_id_masked:
  assumes "i AND 0x7fffffff = j AND 0x7fffffff"
  shows "es_get es i = es_get es j \<and> es_put es i buf = es_put es j buf \<and>
    es_getattr es i = es_getattr es j \<and> es_remove es i = es_remove es j"
proof -
  have "extent_inum i = extent_inum j" using assms by (simp only: extent_inum_def)
  then show ?thesis by (simp only: es_get_def es_put_def es_getattr_def es_remove_def simp_thms)
qed

theorem extent_id_masked_witness: "\<forall>es. es_get es 0x80000001 = es_get es 1"
  using extent_id_masked [of "0x80000001" 1] by simp

end
