(* ===== verification/Inode_Limit.thy ===== *)
theory Inode_Limit
  imports Edge_Properties Inode_Properties
begin

text \<open>
  What happens when the inode numbers run out: \<open>alloc_inode\<close> compares its counter with
  nothing, and \<open>get_inode\<close> refuses the numbers from \<open>INODE_NUM\<close> on.
\<close>

section \<open>Inodes behind the table\<close>

text \<open>Up to block 8191 the inode goes to a block that nothing else uses.\<close>

lemma alloc_inode_spent:
  assumes ok: "im_ok im" and n: "INODE_NUM \<le> unat (im_inum im) + 1" "unat (im_inum im) < 8180"
  shows "\<exists>im'. alloc_inode im type = Inr (im_inum im + 1, im') \<and> im_ok im' \<and>
    files im' = files im \<and> room im' = room im \<and> im_inum im' = im_inum im + 1"
proof -
  let ?bm = "im_bm im" and ?i = "im_inum im + 1"
  have u: "unat ?i = unat (im_inum im) + 1"
    using n(2) by (simp add: unat_word_ariths)
  have bm: "bm_ok ?bm" using ok by (simp add: im_ok_def)
  obtain heap e1 where h: "env_bytes (4 * (NDIRECT + 1)) (im_env im) = (heap, e1)" by fastforce
  obtain now e2 where t: "env_time e1 = (now, e2)" by fastforce
  define ino where "ino = \<lparr>itype = ucast type, isize = 0, iatime = now, imtime = now, ictime = now,
                 iblocks = bytes_words (NDIRECT + 1) heap\<rparr>"
  have fits: "inode_fits ino" by (simp add: inode_fits_def ino_def)
  obtain bm' where bm': "put_inode (im\<lparr>im_inum := ?i, im_env := e2\<rparr>) ?i (Some ino) =
        Inr (im\<lparr>im_inum := ?i, im_env := e2, im_bm := bm'\<rparr>)" "bm_ok bm'" "bm_used bm' = bm_used ?bm"
      "\<And>j. j \<noteq> ?i \<Longrightarrow> inode_at bm' j = inode_at ?bm j" "\<And>c. c \<in> data_blocks \<Longrightarrow> bm_blk bm' c = bm_blk ?bm c"
    using put_inode_ok [of "im\<lparr>im_inum := ?i, im_env := e2\<rparr>" ?i ino] bm u n(2) fits by auto
  have dead: "\<not> live bm' ?i" using n(1) u by (simp add: live_def)
  have keep: "\<forall>j c. live ?bm j \<longrightarrow> j \<noteq> ?i \<longrightarrow> c \<in> set (ino_owned ?bm (inode_at ?bm j)) \<longrightarrow>
      bm_blk bm' c = bm_blk ?bm c \<and> c \<in> bm_used bm'"
    using im_ok_owned(1) [OF ok] bm'(3,5) bm_used_data by metis
  have le: "im_inum im \<le> ?i" using u by (simp add: word_le_nat_alt)
  have at: "\<forall>j. unat j < INODE_NUM \<longrightarrow> j \<noteq> ?i \<longrightarrow> inode_at bm' j = inode_at ?bm j" using bm'(4) by blast
  note R = im_ok_replace [OF ok bm'(2) at keep _ _ le, where e = e2]
  let ?im = "im\<lparr>im_inum := ?i, im_env := e2, im_bm := bm'\<rparr>"
  have "im_ok ?im" using R(1) dead by blast
  moreover have "files ?im = (files im)(?i := None)" using R(2) dead by auto
  moreover have "files im ?i = None" using n(1) u by (simp add: files_def live_def)
  moreover have "room ?im = room im" by (simp add: room_def bm'(3))
  moreover have "alloc_inode im type = Inr (?i, ?im)"
    using h t bm'(1) by (simp add: alloc_inode_def Let_def ino_def)
  ultimately show ?thesis by (auto simp: fun_upd_idem)
qed

lemma ec_create_spent:
  assumes "ec_ok ec" "INODE_NUM \<le> unat (st_last (ec_store ec)) + 1" "unat (st_last (ec_store ec)) < 8180"
  shows "\<exists>ec'. ec_create ec t = Inr (OK, ucast (st_last (ec_store ec) + 1), ec') \<and> ec_ok ec' \<and>
    ec_store ec' = (ec_store ec)\<lparr>st_last := st_last (ec_store ec) + 1\<rparr>"
proof -
  let ?im = "es_im (ec_es ec)"
  obtain im' where im': "alloc_inode ?im t = Inr (im_inum ?im + 1, im')" "im_ok im'"
      "files im' = files ?im" "room im' = room ?im" "im_inum im' = im_inum ?im + 1"
    using alloc_inode_spent [of ?im t] assms by (auto simp: ec_ok_def ec_store_def)
  have "ec_store (ec\<lparr>ec_es := (ec_es ec)\<lparr>es_im := im'\<rparr>\<rparr>) = (ec_store ec)\<lparr>st_last := st_last (ec_store ec) + 1\<rparr>"
    by (simp add: ec_store_def im'(3-5))
  then show ?thesis
    using im'(1,2) by (simp add: ec_create_def es_create_def ec_ok_def ec_store_def)
qed

text \<open>
  From number 8181 on the inode goes over the data blocks, whoever owns them: its
  type, size and times are written over the first bytes of a file.
\<close>

lemma alloc_inode_overwrites:
  assumes bm: "bm_ok (im_bm im)" and n: "8180 \<le> unat (im_inum im)" "unat (im_inum im) + 12 < BLOCK_NUM"
  shows "im_inum im + 12 \<in> data_blocks \<and>
    (\<exists>ino im'. alloc_inode im type = Inr (im_inum im + 1, im') \<and> itype ino = ucast type \<and> isize ino = 0 \<and>
      bm_used (im_bm im') = bm_used (im_bm im) \<and> bm_blk (im_bm im') =
        (bm_blk (im_bm im))(im_inum im + 12 := inode_to_block ino (bm_blk (im_bm im) (im_inum im + 12))))"
proof -
  let ?bm = "im_bm im" and ?b = "im_inum im + 12" and ?i = "im_inum im + 1"
  have u: "unat ?b = unat (im_inum im) + 12"
    using n(2) by (simp add: unat_word_ariths layout)
  have b: "?b \<in> data_blocks" "?b \<in> valid_blocks - bitmap_blocks" "?b \<in> valid_blocks"
    using n u by (auto simp: data_blocks_def valid_blocks_def bitmap_blocks_def layout)
  have blk: "ino_blk ?i = ?b" by (simp add: ino_blk_eq)
  obtain heap e1 where h: "env_bytes (4 * (NDIRECT + 1)) (im_env im) = (heap, e1)" by fastforce
  obtain now e2 where t: "env_time e1 = (now, e2)" by fastforce
  define ino where "ino = \<lparr>itype = ucast type, isize = 0, iatime = now, imtime = now, ictime = now,
                 iblocks = bytes_words (NDIRECT + 1) heap\<rparr>"
  have fits: "inode_fits ino" by (simp add: inode_fits_def ino_def)
  obtain bm' where bm': "bm_write_block ?bm ?b (inode_to_block ino (bm_blk ?bm ?b)) = Inr bm'"
      "bm_used bm' = bm_used ?bm" "bm_blk bm' = (bm_blk ?bm)(?b := inode_to_block ino (bm_blk ?bm ?b))"
    using bs.write_ok [OF bm b(2)] length_inode_to_block [OF fits bs.blk_length [OF bm]] by blast
  let ?im = "im\<lparr>im_inum := ?i, im_env := e2, im_bm := bm'\<rparr>"
  have "alloc_inode im type = Inr (?i, ?im)"
    using h t bm'(1) bm b(3)
    by (simp add: alloc_inode_def put_inode_def Let_def bs.read_ok blk ino_def)
  then show ?thesis
    using b(1) bm'(2,3) by (intro conjI exI [of _ ino] exI [of _ ?im]) (simp_all add: ino_def)
qed

text \<open>The blocks of a file of two bytes or more start with the first of its inode.\<close>

lemma first_data_id:
  assumes "length (iblocks ino) = NDIRECT + 1" "2 \<le> unat (isize ino)"
  obtains xs where "data_ids bm (iblocks ino) (nblk (uint (isize ino))) = iblocks ino ! 0 # xs"
proof -
  have "0 < uint (isize ino)" using assms(2) unfolding unat_eq_nat_uint by linarith
  then have n: "0 < nblk (uint (isize ino))" unfolding nblk_less by simp
  have d: "0 < NDIRECT" by (simp add: layout)
  obtain b bl where bl: "iblocks ino = b # bl"
    using assms(1) by (metis add_is_0 length_0_conv list.exhaust one_neq_zero)
  have "take n (take k (b # bl)) = b # take (n - 1) (take (k - 1) bl)" if "0 < n" "0 < k" for n k
    using that by (simp add: take_Cons')
  from this [OF n d] show thesis by (intro that) (simp add: data_ids_def bl)
qed

lemma first_block:
  assumes "length (iblocks ino) = NDIRECT + 1" "2 \<le> unat (isize ino)"
  shows "iblocks ino ! 0 \<in> set (ino_owned bm ino)"
    and "bm_blk bm (iblocks ino ! 0) = u16_bytes t @ bs \<Longrightarrow> take 2 (ino_data bm ino) = u16_bytes t"
proof -
  let ?n = "nblk (uint (isize ino))"
  obtain xs where xs: "data_ids bm (iblocks ino) ?n = iblocks ino ! 0 # xs" by (rule first_data_id [OF assms])
  then show "iblocks ino ! 0 \<in> set (ino_owned bm ino)"
    using data_owned [of bm "iblocks ino" ?n] by (simp add: ino_owned_def)
  assume "bm_blk bm (iblocks ino ! 0) = u16_bytes t @ bs"
  then have "ino_data bm ino = take (unat (isize ino)) (u16_bytes t @ bs @ concat (map (bm_blk bm) xs))"
    by (simp only: ino_data_def xs list.map concat.simps append_assoc)
  then have "take 2 (ino_data bm ino) = take (min 2 (unat (isize ino))) (u16_bytes t @ bs @ concat (map (bm_blk bm) xs))"
    by (simp only: take_take)
  also have "min 2 (unat (isize ino)) = 2" using assms(2) by simp
  finally show "take 2 (ino_data bm ino) = u16_bytes t" by simp
qed

text \<open>
  C34. When the numbers go on, inodes are written over the data of files: as soon as the
  counter of \<open>alloc_inode\<close> is 12 less than the number of the first block of a
  file, the next call puts the type of the new inode where the file begins.
\<close>

theorem inode_overwrites_file:
  assumes "im_ok im" "files im j = Some f" "2 \<le> length (f_data f)"
    and "iblocks (inode_at (im_bm im) j) ! 0 = im_inum im + 12"
  shows "\<exists>im' f'. alloc_inode im type = Inr (im_inum im + 1, im') \<and> files im' j = Some f' \<and>
    take 2 (f_data f') = u16_bytes (ucast type)"
proof -
  let ?bm = "im_bm im" and ?b = "im_inum im + 12" and ?ino = "inode_at (im_bm im) j"
  have live: "live ?bm j" and f: "f = file_of ?bm ?ino" using assms(2) by (auto elim: files_SomeE)
  note D = im_okD [OF assms(1) live]
  have sz: "2 \<le> unat (isize ?ino)"
    using assms(3) length_ino_data [OF D(1,2)] by (simp add: f file_of_def)
  have "?b \<in> bm_used ?bm"
    using first_block(1) [OF inode_at_fits sz] im_ok_owned(1) [OF assms(1) live] by (auto simp: assms(4))
  then have b: "8192 \<le> unat ?b" "unat ?b < BLOCK_NUM"
    using bm_used_data by (auto simp: data_blocks_def layout)
  moreover have "unat ?b = (unat (im_inum im) + 12) mod 2 ^ 32" by (simp add: unat_word_ariths)
  moreover have "unat (im_inum im) < 2 ^ 32" using unsigned_less [of "im_inum im", where 'a = nat] by simp
  ultimately have "8180 \<le> unat (im_inum im)" "unat (im_inum im) + 12 < BLOCK_NUM"
    by (cases "unat (im_inum im) + 12 < 2 ^ 32"; simp add: le_mod_geq)+
  from alloc_inode_overwrites [OF D(1) this, of type] obtain ino im' where
    im': "alloc_inode im type = Inr (im_inum im + 1, im')" "itype ino = ucast type"
      "bm_blk (im_bm im') = (bm_blk ?bm)(?b := inode_to_block ino (bm_blk ?bm ?b))" and d: "?b \<in> data_blocks"
    by blast
  have "ino_blk j \<noteq> ?b" using ino_blk_region(1) [of j] D(5) d by (auto simp: layout)
  then have same: "inode_at (im_bm im') j = ?ino" by (simp add: inode_at_def im'(3))
  then have "files im' j = Some (file_of (im_bm im') ?ino)"
    using live by (simp add: files_def live_def)
  moreover have "take 2 (ino_data (im_bm im') ?ino) = u16_bytes (ucast type)"
    by (rule first_block(2) [OF inode_at_fits sz, where bs = "drop 2 (inode_to_block ino (bm_blk ?bm ?b))"])
      (simp add: assms(4) im'(2,3) inode_to_block_def)
  ultimately show ?thesis using im'(1) by (auto simp: file_of_def)
qed

theorem inode_overwrites_file_witness:
  "\<exists>im f im' f'. im_ok im \<and> files im 1 = Some f \<and> f_data f = [1, 2] \<and>
     alloc_inode im T_FILE = Inr (im_inum im + 1, im') \<and> files im' 1 = Some f' \<and> take 2 (f_data f') = [2, 0]"
proof -
  obtain im0 f0 where im0: "im_ok im0" "room im0 = 24576" "files im0 = [1 \<mapsto> f0]" "f_data f0 = []" by (rule new_im)
  have one: "file_blocks ([1, 2] :: byte list) = 1" by simp
  have "files im0 1 = Some f0" by (simp add: im0(3))
  from write_file_ok [OF im0(1) this, of "[1, 2]"] obtain im f where
    im: "im_ok im" "files im = [1 \<mapsto> f]" "f_data f = [1, 2]"
    unfolding one im0(2-4) by (auto simp: layout)
  let ?ino = "inode_at (im_bm im) 1"
  define b where "b = iblocks ?ino ! 0"
  have f: "files im 1 = Some f" by (simp add: im(2))
  then have live: "live (im_bm im) 1" and f_eq: "f = file_of (im_bm im) ?ino" by (auto elim: files_SomeE)
  note D = im_okD [OF im(1) live]
  have "2 \<le> unat (isize ?ino)" using length_ino_data [OF D(1,2)] im(3) by (simp add: f_eq file_of_def)
  from first_block(1) [OF inode_at_fits this] have "b \<in> bm_used (im_bm im)"
    using im_ok_owned(1) [OF im(1) live] by (auto simp: b_def)
  then have "8192 \<le> unat b" using bm_used_data by (auto simp: data_blocks_def layout)
  then have le: "1 \<le> b - 12" by (simp add: word_le_nat_alt unat_sub)
  let ?im = "im\<lparr>im_inum := b - 12\<rparr>"
  have "live (im_bm im) i \<longleftrightarrow> i = 1" for i
    using fun_cong [OF im(2), of i] by (auto simp: files_def split: if_splits)
  then have "im_ok ?im" using im(1) le by (auto simp: im_ok_def)
  moreover have "files ?im 1 = Some f" using f_eq live by (simp add: files_def)
  moreover have "iblocks (inode_at (im_bm ?im) 1) ! 0 = im_inum ?im + 12" by (simp add: b_def)
  moreover have "u16_bytes (ucast T_FILE) = [2, 0]" by (simp add: u16_bytes_def T_FILE_def)
  ultimately show ?thesis using inode_overwrites_file [of ?im 1 f T_FILE] im(3) by auto
qed

section \<open>The entry of a file that is not there\<close>

lemma make_node_spent:
  assumes y: "y_ok y" and dir: "dir_at (y_store y) (extent_inum p) es" and new: "dir_find name es = None"
    and n: "INODE_NUM \<le> unat (st_last (y_store y)) + 1" "unat (st_last (y_store y)) < 8180"
    and space: "can_put (y_store y) (extent_inum p) (print_entries es @ entry_bytes name (next_inum (y_store y)))"
  shows "\<exists>y'. make_node ty y p name ino = Inr (OK, next_inum (y_store y), y') \<and> y_ok y' \<and>
    st_files (y_store y') = (st_files (y_store y))(extent_inum p \<mapsto>
      (DIR, print_entries es @ entry_bytes name (next_inum (y_store y))))"
proof -
  let ?i = "next_inum (y_store y)"
  let ?d = "print_entries es @ entry_bytes name ?i"
  obtain junk y0 where u: "uninit 1 y = (junk, y0)" by fastforce
  note y0 = uninitD [OF u]
  obtain y1 where y1: "lookup y0 p name (junk \<noteq> [0]) ino = Inr (OK, False, ino, y1)"
      "y_ok y1" "y_store y1 = y_store y"
    using lookup_eq [of y0 p es name "junk \<noteq> [0]" ino] y dir new y0 by auto
  have ok1: "ec_ok (yfs_ec y1)" "ec_store (yfs_ec y1) = y_store y"
    using y1 by (simp_all add: y_ok_def y_store_def)
  obtain ec2 where c: "ec_create (yfs_ec y1) ty = Inr (OK, ?i, ec2)" "ec_ok ec2"
      "ec_store ec2 = (y_store y)\<lparr>st_last := st_last (y_store y) + 1\<rparr>"
    using ec_create_spent [OF ok1(1), of ty] n unfolding ok1(2) next_inum_def by blast
  have "st_files (ec_store ec2) (extent_inum p) = Some (DIR, print_entries es)"
    "can_put (ec_store ec2) (extent_inum p) ?d"
    using dir space by (simp_all add: c(3) dir_at_def can_put_def)
  from append_entry [OF c(2) this] obtain ec3 ec4 where
    g: "ec_get ec2 p = Inr (OK, print_entries es, ec3)" "ec_put ec3 p ?d = Inr (OK, ec4)"
      "ec_ok ec4" "ec_store ec4 = store_put (ec_store ec2) (extent_inum p) ?d"
    by blast
  have "make_node ty y p name ino = Inr (OK, ?i, y1\<lparr>yfs_ec := ec4\<rparr>)"
    using u y1(1) c(1) g(1,2) by (simp add: make_node_def)
  moreover have "st_files (ec_store ec4) = (st_files (y_store y))(extent_inum p \<mapsto> (DIR, ?d))"
    using dir by (simp add: g(4) c(3) store_put_def dir_at_def)
  ultimately show ?thesis using g(3) by auto
qed

text \<open>Removing an entry whose file is missing.\<close>

lemma unlink_missing:
  assumes "y_ok y" "dir_at (y_store y) (extent_inum p) es" "dir_find name es = Some e"
    and "st_files (y_store y) (ekey e) = None"
  shows "unlink y p name = Inl NullDeref"
proof -
  obtain junk y0 where u: "uninit 1 y = (junk, y0)" by fastforce
  obtain junk8 y1 where u8: "uninit 8 y0 = (junk8, y1)" by fastforce
  note y1 = uninitD [OF u] uninitD [OF u8]
  obtain y2 where y2: "lookup y1 p name (junk \<noteq> [0]) (bytes_u64 junk8) = Inr (OK, True, d_inum e, y2)"
      "y_ok y2" "y_store y2 = y_store y"
    using lookup_eq [of y1 p es name "junk \<noteq> [0]" "bytes_u64 junk8"] assms(1-3) y1 by auto
  have "ec_remove (yfs_ec y2) (d_inum e) = Inl NullDeref"
    using ec.missing [of "yfs_ec y2" "d_inum e"] y2(2,3) assms(4) by (simp add: y_ok_def y_store_def ekey_def)
  then show ?thesis using u u8 y2(1) by (simp add: unlink_def)
qed

text \<open>
  C33. The inode numbers run out.  From number 1024 on, up to 8180, a create request still
  succeeds: it answers with the attributes of a symbolic link and adds the name to the
  directory, but there is no such inode: every attempt to write to the new file or to
  remove its name ends in a null pointer.  (The witness comes to such a state by
  making and removing one file again and again.)
\<close>

theorem inode_numbers_run_out:
  assumes "fs_ok y" "has_type (y_store y) p DIR" "name_ok name"
    and "dir_find name (entries (y_store y) (extent_inum p)) = None"
    and "INODE_NUM \<le> unat (st_last (y_store y)) + 1" "unat (st_last (y_store y)) < 8180"
    and "can_put (y_store y) (extent_inum p)
      (contents (y_store y) (extent_inum p) @ entry_bytes name (next_inum (y_store y)))"
  shows "\<exists>e y1. dispatch L tsym y (ReqCreate p name) = Inr (ReplyCreate e, y1) \<and>
    e_ino e = next_inum (y_store y) \<and> st_mode (e_attr e) = S_IFLNK OR 511 \<and>
    entries (y_store y1) (extent_inum p) =
      entries (y_store y) (extent_inum p) @ [\<lparr>d_name = name, d_inum = e_ino e\<rparr>] \<and>
    (\<forall>buf sz off. dispatch L tsym y1 (ReqWrite (e_ino e) buf sz off) = Inl NullDeref) \<and>
    dispatch L tsym y1 (ReqUnlink p name) = Inl NullDeref"
proof -
  let ?st = "y_store y" and ?k = "extent_inum p" and ?i = "next_inum (y_store y)"
  let ?es = "entries ?st ?k" and ?e = "\<lparr>d_name = name, d_inum = ?i\<rparr>"
  note D = fs_okD [OF assms(1)]
  note dir = fs_dir [OF assms(1,2)]
  have u: "unat (st_last ?st + 1) = unat (st_last ?st) + 1"
    using assms(6) by (simp add: unat_word_ariths)
  have key: "extent_inum ?i = st_last ?st + 1"
    unfolding next_inum_def using u assms(6) by (intro extent_inum_ucast) simp
  have small: "unat ?i < 2 ^ 31"
    using u assms(6) by (simp add: next_inum_def unsigned_ucast_eq take_bit_nat_eq_self)
  have none: "st_files ?st (extent_inum ?i) = None"
    using D(3) [of "extent_inum ?i"] assms(5) u by (cases "st_files ?st (extent_inum ?i)") (auto simp: key)
  have neq: "?k \<noteq> extent_inum ?i" using none dir(1) by (auto simp: dir_at_def)
  obtain junk y0 where j: "uninit 8 y = (junk, y0)" by fastforce
  note y0 = uninit_fs [OF j]
  have ok0: "y_ok y0" "y_store y0 = ?st" using y0 assms(1) D(1) by (simp_all add: fs_ok_def)
  obtain y1 where y1: "make_node T_FILE y0 p name (bytes_u64 junk) = Inr (OK, ?i, y1)" "y_ok y1"
      "st_files (y_store y1) = (st_files ?st)(?k \<mapsto> (DIR, print_entries ?es @ entry_bytes name ?i))"
    using make_node_spent [OF ok0(1), of p ?es name T_FILE "bytes_u64 junk"] dir assms(4-7)
    by (auto simp: ok0(2))
  obtain s where s: "fuse_getattr y1 ?i = Inr (OK, s)" "stat_ok (y_store y1) ?i s"
    using fuse_getattr_ok [OF y1(2)] by blast
  have gone: "st_files (y_store y1) (extent_inum ?i) = None" using none neq by (simp add: y1(3))
  have "entry_ok ?e" using assms(3) small by (simp add: entry_ok_def)
  then have dir1: "dir_at (y_store y1) ?k (?es @ [?e])" using dir(1) by (auto simp: dir_at_def y1(3))
  have found: "dir_find name (?es @ [?e]) = Some ?e" by (rule dir_find_snoc_new [OF assms(4)])
  have "dispatch L tsym y (ReqCreate p name) = Inr (ReplyCreate \<lparr>e_ino = ?i, e_attr = s, e_generation = 0\<rparr>, y1)"
    using j y1(1) s(1) by (simp add: fuseserver_create_def fuseserver_createhelper_def yfs_create_def)
  moreover have "st_mode s = S_IFLNK OR 511" using s(2) gone by (simp add: stat_ok_def)
  moreover have "entries (y_store y1) ?k = ?es @ [?e]" by (rule entries_eq [OF dir1])
  moreover have "ec_get (yfs_ec y1) ?i = Inl NullDeref"
    using ec.missing [of "yfs_ec y1" ?i] y1(2) gone by (simp add: y_ok_def y_store_def)
  moreover have "unlink y1 p name = Inl NullDeref"
    using unlink_missing [OF y1(2) dir1 found] gone by (simp add: ekey_def)
  ultimately show ?thesis
    by (intro exI [of _ "\<lparr>e_ino = ?i, e_attr = s, e_generation = 0\<rparr>"] exI [of _ y1])
      (simp add: fuseserver_write_def yfs_write_def fuseserver_unlink_def)
qed

section \<open>Coming to the last number\<close>

definition spent_store :: "u32 \<Rightarrow> store" where
  "spent_store n = demo_store\<lparr>st_last := n\<rparr>"

lemma spent_simps [simp]:
  "st_files (spent_store n) = [1 \<mapsto> (DIR, [])]" "st_last (spent_store n) = n" "st_room (spent_store n) = 24576"
  by (simp_all add: spent_store_def demo_store_def)

lemma spent_files:
  "has_type (spent_store n) 1 DIR" "contents (spent_store n) 1 = []" "entries (spent_store n) 1 = []"
proof -
  show "has_type (spent_store n) 1 DIR" "contents (spent_store n) 1 = []"
    by (simp_all add: has_type_def contents_def spent_store_def demo_store_def)
  show "entries (spent_store n) 1 = []"
    by (rule entries_eq) (simp add: dir_at_def spent_store_def demo_store_def)
qed

lemma spent_entry:
  assumes "unat n < INODE_NUM"
  shows "can_put (spent_store n) 1 (entry_bytes demo_name (next_inum (spent_store n)))"
    and "file_blocks (entry_bytes demo_name (next_inum (spent_store n))) = 1"
proof -
  have n: "unat n < 1024" using assms by (simp add: layout)
  then have u: "unat (next_inum (spent_store n)) = unat n + 1"
    by (simp add: next_inum_def spent_store_def unsigned_ucast_eq take_bit_nat_eq_self unat_word_ariths)
  have "(unat n + 1) div 10 \<le> 102" using n by simp
  then have len: "length (entry_bytes demo_name (next_inum (spent_store n))) \<le> 512"
    using length_dec [of "unat n + 1"] by (simp add: entry_bytes_def filename_def demo_name_def u)
  show b: "file_blocks (entry_bytes demo_name (next_inum (spent_store n))) = 1"
    using len by (intro blocks_small) (simp_all add: entry_bytes_def)
  show "can_put (spent_store n) 1 (entry_bytes demo_name (next_inum (spent_store n)))"
    using len b by (simp add: can_put_def spent_store_def demo_store_def layout)
qed

text \<open>Making a file and removing it costs one number.\<close>

lemma spend_one:
  assumes y: "reachable demo_lib 3 demo_env y" "y_store y = spent_store n" and n: "unat n + 1 < INODE_NUM"
  shows "\<exists>y'. reachable demo_lib 3 demo_env y' \<and> y_store y' = spent_store (n + 1)"
proof -
  let ?st = "spent_store n" and ?i = "next_inum (spent_store n)"
  let ?e = "\<lparr>d_name = demo_name, d_inum = ?i\<rparr>"
  have c: "can_create ?st" using n by (simp add: can_create_def spent_store_def)
  note N = next_inum [OF c]
  have last: "st_last ?st = n" by (simp add: spent_store_def)
  have "name_ok demo_name" by (simp add: name_ok_def demo_name_def)
  then have "link_fits ?st ?st 1 demo_name"
    using c spent_entry(1) [of n] n by (simp add: link_fits_def spent_files)
  then have adm: "admissible demo_lib 3 (y_store y) (ReqCreate 1 demo_name)"
    unfolding y(2) admissible.simps by (rule link_make_fits)
  obtain rep y1 where 1: "dispatch demo_lib 3 y (ReqCreate 1 demo_name) = Inr (rep, y1)"
      "y_store y1 = fs_link T_FILE ?st 1 demo_name" "fs_ok y1"
    using dispatch_implements [OF reachable_fs_ok [OF y(1) demo_symlink_type] demo_symlink_type adm] y(2)
    by (auto simp: implements_def)
  have r1: "reachable demo_lib 3 demo_env y1" by (rule reachable.serve [OF y(1) adm 1(1)])
  have "1 \<le> n"
    using fs_okD(3) [OF reachable_fs_ok [OF y(1) demo_symlink_type], of 1] by (simp add: y(2) spent_store_def demo_store_def)
  then have neq: "n + 1 \<noteq> 1" using N(3) by (auto simp: last word_le_nat_alt)
  have "y_store y1 = store_put (store_create ?st T_FILE) 1 (print_entries [?e])"
    unfolding 1(2) fs_link_def spent_files by (simp add: dir_find_def)
  then have st1: "st_files (y_store y1) = [1 \<mapsto> (DIR, print_entries [?e]), n + 1 \<mapsto> (REG, [])]"
      "st_last (y_store y1) = n + 1" "st_room (y_store y1) = 24575"
    using spent_entry(2) [of n] n neq by (auto simp: store_put_def fun_eq_iff)
  have dir: "dir_at (y_store y1) 1 [?e]"
    using N(2) \<open>name_ok demo_name\<close> neq by (auto simp: dir_at_def st1 entry_ok_def)
  then have adm1: "admissible demo_lib 3 (y_store y1) (ReqUnlink 1 demo_name)"
    using dir_at_type [of "y_store y1" 1] by simp
  obtain rep2 y2 where 2: "dispatch demo_lib 3 y1 (ReqUnlink 1 demo_name) = Inr (rep2, y2)"
      "y_store y2 = fs_unlink (y_store y1) 1 demo_name"
    using dispatch_implements [OF 1(3) demo_symlink_type adm1] by (auto simp: implements_def)
  have key: "ekey ?e = n + 1" using N(1) by (simp add: ekey_def)
  have "y_store y2 = store_put (store_remove (y_store y1) (n + 1)) 1 []"
    unfolding 2(2) fs_unlink_def entries_eq [OF dir] by (simp add: dir_find_def key)
  then have "y_store y2 = spent_store (n + 1)"
    using neq spent_entry(2) [of n] n st1
    by (intro store_eqI) (auto simp: store_put_def store_remove_def fun_eq_iff)
  moreover have "reachable demo_lib 3 demo_env y2" by (rule reachable.serve [OF r1 adm1 2(1)])
  ultimately show ?thesis by blast
qed

lemma demo_spent:
  assumes "0 < k" "k < INODE_NUM"
  shows "\<exists>y. reachable demo_lib 3 demo_env y \<and> y_store y = spent_store (word_of_nat k)"
  using assms
proof (induction k)
  case (Suc k)
  show ?case
  proof (cases "k = 0")
    case True
    have "y_store y = spent_store 1" if "y_store y = demo_store" for y
      using that by (simp add: spent_store_def demo_store_def)
    then show ?thesis using demo_new True by (metis One_nat_def of_nat_1)
  next
    case False
    then obtain y where y: "reachable demo_lib 3 demo_env y" "y_store y = spent_store (word_of_nat k)"
      using Suc by auto
    have "unat (word_of_nat k :: u32) = k"
      using Suc.prems by (simp add: unsigned_of_nat take_bit_nat_eq_self layout)
    then show ?thesis using spend_one [OF y] Suc.prems by (simp add: add.commute)
  qed
qed simp

theorem inode_numbers_run_out_witness:
  "\<exists>y e y1. reachable demo_lib 3 demo_env y \<and>
     dispatch demo_lib 3 y (ReqCreate 1 demo_name) = Inr (ReplyCreate e, y1) \<and> e_ino e = 1024 \<and>
     dispatch demo_lib 3 y1 (ReqWrite 1024 [65] 1 0) = Inl NullDeref \<and>
     dispatch demo_lib 3 y1 (ReqUnlink 1 demo_name) = Inl NullDeref"
proof -
  have "\<exists>y. reachable demo_lib 3 demo_env y \<and> y_store y = spent_store (word_of_nat 1023)"
    by (rule demo_spent) (simp_all add: layout)
  then obtain y where y: "reachable demo_lib 3 demo_env y" "y_store y = spent_store 1023" by auto
  have i: "next_inum (spent_store 1023) = 1024" by (simp add: next_inum_def)
  have "can_put (spent_store 1023) 1 (entry_bytes demo_name (next_inum (spent_store 1023)))"
    by (rule spent_entry) (simp add: layout)
  then obtain e y1 where "dispatch demo_lib 3 y (ReqCreate 1 demo_name) = Inr (ReplyCreate e, y1)"
      "e_ino e = next_inum (y_store y)"
      "\<forall>buf sz off. dispatch demo_lib 3 y1 (ReqWrite (e_ino e) buf sz off) = Inl NullDeref"
      "dispatch demo_lib 3 y1 (ReqUnlink 1 demo_name) = Inl NullDeref"
    using inode_numbers_run_out [of y 1 demo_name demo_lib 3] reachable_fs_ok [OF y(1) demo_symlink_type]
    by (auto simp: y(2) spent_files dir_find_def name_ok_def demo_name_def layout)
  then show ?thesis using y(1) by (auto simp: y(2) i intro!: exI)
qed

end
