(* ===== verification/Inode_Room.thy ===== *)
theory Inode_Room
  imports Extent_Store
begin

text \<open>
  When a write returns, its data fits: the converses of \<open>write_blocks_ok\<close>,
  \<open>write_file_ok\<close> and \<open>ec_put_ok\<close>, up to the extent layer.
\<close>

section \<open>The write loops\<close>

lemma mem_chunks_part:
  assumes "BLOCK_SIZE * n \<le> length mem" "j \<le> n"
  shows "\<forall>c \<in> set (mem_chunks mem i j). length c = BLOCK_SIZE"
  using mem_chunks_length [of j mem _ i] assms by (meson mult_le_mono2 order_trans)

lemma write_blocks_room:
  assumes bm: "bm_ok bm" and bl: "length bl = NDIRECT + 1"
    and mem: "BLOCK_SIZE * nblk sz \<le> length mem"
    and w: "write_blocks bm bl heap mem sz = Inr r"
  shows "nblk sz \<le> MAXFILE \<and> blocks_needed (nblk sz) \<le> card (data_blocks - bm_used bm)"
proof -
  let ?n = "nblk sz"
  let ?free = "\<lambda>bm. card (data_blocks - bm_used bm)"
  obtain bs1 bm1 where 1: "store_chunks alloc_block bm_write_block (mem_chunks mem 0 (min ?n NDIRECT)) bm = Inr (bs1, bm1)"
    and rest: "int BLOCK_SIZE * int (min ?n NDIRECT) < sz \<Longrightarrow>
      \<exists>b bm2 r. alloc_block bm1 = Inr (b, bm2) \<and>
        write_indirect bm2 (bytes_words NINDIRECT heap) mem sz 0 (int BLOCK_SIZE * int (min ?n NDIRECT)) = Inr r"
    using w write_direct_eq [of 0 sz bl bm mem] bl
    by (auto simp: write_blocks_def andThen_eq_Inr_iff split: if_splits)
  have lens: "\<forall>c \<in> set (mem_chunks mem 0 (min ?n NDIRECT)). length c = BLOCK_SIZE"
    by (rule mem_chunks_part [OF mem]) simp
  have fits1: "min ?n NDIRECT \<le> ?free bm"
    using fl.store_chunks_room [OF bm 1 lens] by simp
  show ?thesis
  proof (cases "?n \<le> NDIRECT")
    case True
    then show ?thesis using fits1 by (simp add: blocks_needed_def MAXFILE_def)
  next
    case False
    then have m: "min ?n NDIRECT = NDIRECT" "NDIRECT < ?n" by simp_all
    have 2: "bm_ok bm1" "bm_used bm1 = bm_used bm \<union> set bs1" "distinct bs1" "set bs1 \<subseteq> data_blocks - bm_used bm"
      using bs.store_chunks_ok [OF bm _ lens] fits1 unfolding 1 by auto
    have "data_blocks - bm_used bm1 = (data_blocks - bm_used bm) - set bs1" using 2(2) by auto
    moreover have "length bs1 = NDIRECT" using store_chunks_length [OF 1] m(1) by simp
    ultimately have free1: "?free bm1 = ?free bm - NDIRECT"
      using 2(3,4) by (simp add: card_Diff_subset distinct_card)
    obtain b bm2 r2 where 3: "alloc_block bm1 = Inr (b, bm2)"
        "write_indirect bm2 (bytes_words NINDIRECT heap) mem sz 0 (int BLOCK_SIZE * int NDIRECT) = Inr r2"
      using rest m nblk_less by auto
    have "andThen (store_chunks alloc_block bm_write_block (mem_chunks mem NDIRECT (min ?n MAXFILE)) bm2)
        (\<lambda>(bs, bm'). if MAXFILE < ?n then andThen (alloc_block bm') (\<lambda>_. Inl HeapOverflow)
          else Inr (overwrite (bytes_words NINDIRECT heap) 0 bs, bm')) = Inr r2"
      using write_indirect_eq [of 0 sz "bytes_words NINDIRECT heap" bm2 mem] m(2) 3(2) by simp
    then obtain r3 where 4: "store_chunks alloc_block bm_write_block (mem_chunks mem NDIRECT (min ?n MAXFILE)) bm2 = Inr r3"
        "?n \<le> MAXFILE"
      unfolding andThen_eq_Inr_iff by (auto simp: andThen_eq_Inr_iff split: if_splits)
    have alloc: "bm_ok bm2 \<and> ?free bm2 = ?free bm1 - 1"
    proof (cases "bm_used bm1 = data_blocks")
      case True
      then show ?thesis using fl.alloc_full [OF 2(1)] 3(1) by auto
    next
      case False
      then have "bm_ok bm2" "b \<in> data_blocks - bm_used bm1" "bm_used bm2 = insert b (bm_used bm1)"
        using bs.alloc_ok [OF 2(1)] 3(1) by auto
      moreover from this have "data_blocks - bm_used bm2 = (data_blocks - bm_used bm1) - {b}" by auto
      ultimately show ?thesis by (simp add: card_Diff_singleton)
    qed
    have "\<forall>c \<in> set (mem_chunks mem NDIRECT (min ?n MAXFILE)). length c = BLOCK_SIZE"
      by (rule mem_chunks_part [OF mem]) simp
    then have "?n - NDIRECT \<le> ?free bm2"
      using fl.store_chunks_room [of bm2, OF _ 4(1)] alloc 4(2) by simp
    then show ?thesis using alloc free1 m(2) 4(2) by (simp add: blocks_needed_def)
  qed
qed

section \<open>write_file\<close>

lemma write_file_room:
  assumes ok: "im_ok im" and f: "files im i = Some f"
    and w: "write_file im i (buf @ pad) (int (length buf)) = Inr im'"
  shows "length buf \<le> MAXFILE * BLOCK_SIZE \<and> file_blocks buf \<le> room im + file_blocks (f_data f)"
proof -
  let ?bm = "im_bm im" and ?sz = "int (length buf)"
  define ino where "ino = inode_at ?bm i"
  from f have live: "live ?bm i" and data: "f_data f = ino_data ?bm ino"
    by (auto simp: ino_def file_of_def elim: files_SomeE)
  note D = im_okD [OF ok live]
  obtain tail e1 where h1: "env_bytes BLOCK_SIZE (im_env im) = (tail, e1)" by fastforce
  obtain heap e2 where h2: "env_bytes BLOCK_SIZE e1 = (heap, e2)" by fastforce
  obtain bm1 where 1: "free_blocks ?bm ino (uint (isize ino)) = Inr bm1" "bm_ok bm1"
      "card (data_blocks - bm_used bm1) = room im + file_blocks (f_data f)"
    using free_file_ok [OF ok live] unfolding data ino_def file_blocks_ino [OF D(1,2)] by blast
  have "get_inode im i = Inr (Some ino)"
    using live by (simp add: get_inode_eq [OF im_okD(1) [OF ok live]] ino_def)
  then obtain r where r: "write_blocks bm1 (iblocks ino) heap ((buf @ pad) @ tail) ?sz = Inr r"
    using w 1(1) h1 h2 by (auto simp: write_file_def andThen_eq_Inr_iff)
  have "int (BLOCK_SIZE * nblk ?sz) \<le> int (length ((buf @ pad) @ tail))"
    using nblk_bound [of ?sz] env_bytesD(1) [OF h1] unfolding length_append of_nat_add of_nat_mult by linarith
  then have mem: "BLOCK_SIZE * nblk ?sz \<le> length ((buf @ pad) @ tail)" by (simp only: of_nat_le_iff)
  have len: "length (iblocks ino) = NDIRECT + 1" unfolding ino_def by (rule inode_at_fits)
  have "nblk ?sz \<le> MAXFILE \<and> blocks_needed (nblk ?sz) \<le> room im + file_blocks (f_data f)"
    using write_blocks_room [OF 1(2) len mem r] unfolding 1(3) .
  then show ?thesis
    by (simp only: nblk_MAXFILE file_blocks_def of_nat_le_iff flip: of_nat_mult)
qed

section \<open>The extent layer\<close>

text \<open>A store that answers a \<open>put\<close> only when the data fits.\<close>

locale exact_store = extent_store +
  assumes put_room: "inv s \<Longrightarrow> length d < 2 ^ 31 \<Longrightarrow> put s i d = Inr r \<Longrightarrow>
    can_put (view s) (extent_inum i) d"
begin

lemma put_iff:
  assumes "inv s" "length d < 2 ^ 31"
  shows "(\<exists>r. put s i d = Inr r) \<longleftrightarrow> can_put (view s) (extent_inum i) d"
  using put_ok [OF assms(1)] put_room [OF assms] by blast

end

interpretation ex: exact_store ec_ok ec_store ec_create ec_get ec_put ec_getattr ec_remove
proof unfold_locales
  fix ec i r and d :: "byte list"
  assume ec: "ec_ok ec" and d: "length d < 2 ^ 31" and put: "ec_put ec i d = Inr r"
  let ?im = "es_im (ec_es ec)"
  have ok: "im_ok ?im" using ec by (simp add: ec_ok_def)
  show "can_put (ec_store ec) (extent_inum i) d"
  proof (cases "files ?im (extent_inum i)")
    case None
    then have "st_files (ec_store ec) (extent_inum i) = None" by (simp add: ec_store_simps)
    then show ?thesis using ec.missing [OF ec] put by simp
  next
    case (Some f)
    obtain im' where "write_file ?im (extent_inum i) (d @ [0]) (int (length d)) = Inr im'"
      using put sint_of_nat_u32 [OF d] by (auto simp: ec_put_def es_put_def andThen_eq_Inr_iff)
    from write_file_room [OF ok Some this] show ?thesis
      by (simp add: can_put_def ec_store_simps Some)
  qed
qed

end
