(* ===== verification/Exact_Requests.thy ===== *)
theory Exact_Requests
  imports Inode_Room Demo
begin

text \<open>
  Which requests are answered.  A handler that returns has found room for everything it
  writes, so for a well formed request \<open>admissible\<close> is not only enough for an answer:
  without it the handler ends in a fault.
\<close>

section \<open>Well formed requests\<close>

text \<open>
  What the kernel guarantees about the arguments, whatever the disk can hold: the parent is a
  directory and the name is one the format can store, data goes to files, and the sizes
  fit the signed 32-bit \<open>int\<close> the extent server keeps them in.  The inode numbers must not be
  used up (see Inode_Limit for what happens then).
\<close>

definition entry_wf :: "store \<Rightarrow> u64 \<Rightarrow> byte list \<Rightarrow> bool" where
  "entry_wf st p name \<longleftrightarrow> has_type st p DIR \<and> name_ok name \<and> can_create st \<and> length name < 2 ^ 30"

fun request_wf :: "fuse_lib \<Rightarrow> store \<Rightarrow> request \<Rightarrow> bool" where
  "request_wf L st (ReqCreate p name) \<longleftrightarrow> entry_wf st p name"
| "request_wf L st (ReqMknod p name) \<longleftrightarrow> entry_wf st p name"
| "request_wf L st (ReqMkdir p name) \<longleftrightarrow> entry_wf st p name"
| "request_wf L st (ReqSymlink link p name) \<longleftrightarrow> entry_wf st p name \<and> length link < 2 ^ 31"
| "request_wf L st (ReqUnlink p name) \<longleftrightarrow> has_type st p DIR"
| "request_wf L st (ReqWrite i buf sz off) \<longleftrightarrow>
     (case st_files st (extent_inum i) of None \<Rightarrow> True | Some (t, d) \<Rightarrow> t = REG) \<and>
     length buf = unat sz \<and> unat off + unat sz < 2 ^ 31"
| "request_wf L st (ReqSetattr i sz to_set) \<longleftrightarrow>
     set_attr_mask L AND to_set = 0 \<or>
     (case st_files st (extent_inum i) of None \<Rightarrow> False | Some (t, d) \<Rightarrow> t \<noteq> DIR) \<and> unat sz < 2 ^ 31"
| "request_wf L st req \<longleftrightarrow> True"

section \<open>Adding an entry\<close>

lemma entry_small:
  assumes y: "y_ok y" and n: "can_create (y_store y)" and name: "length name < 2 ^ 30"
    and f: "st_files (y_store y) k = Some (t, d)"
  shows "length (d @ entry_bytes name (next_inum (y_store y))) < 2 ^ 31"
proof -
  have "length d \<le> MAXFILE * BLOCK_SIZE"
    using ec.bounded [of "yfs_ec y" k t d] y f by (simp add: y_ok_def y_store_def)
  then have d: "length d < 2 ^ 20" by (simp add: layout)
  have u: "unat (st_last (y_store y) + 1) < 1024"
    using n next_inum(3) [OF n] by (simp add: can_create_def layout)
  then have "unat (next_inum (y_store y)) < 1024"
    by (simp add: next_inum_def unsigned_ucast_eq take_bit_nat_eq_self)
  then have "length (dec (unat (next_inum (y_store y)))) < 1024"
    using length_dec [of "unat (next_inum (y_store y))"] by linarith
  then show ?thesis using d name by (simp add: entry_bytes_def filename_def)
qed

lemma make_node_fits:
  assumes fs: "fs_ok y" and wf: "entry_wf (y_store y) p name" and ty: "ty = T_FILE \<or> ty = T_DIR"
    and r: "make_node ty y p name ino = Inr r"
  shows "make_fits (y_store y) p name"
proof (cases "dir_find name (entries (y_store y) (extent_inum p))")
  case (Some e)
  then show ?thesis using wf by (simp add: make_fits_def entry_wf_def)
next
  case None
  let ?st = "y_store y" and ?k = "extent_inum p"
  have W: "has_type ?st p DIR" "name_ok name" "can_create ?st" "length name < 2 ^ 30"
    using wf by (simp_all add: entry_wf_def)
  have y: "y_ok y" using fs_okD(1) [OF fs] .
  have t: "(ucast ty :: u16) \<noteq> 0" using ty by auto
  note dir = fs_dir [OF fs W(1)]
  obtain ec y1 where m: "make_node ty y p name ino =
      andThen (ec_put ec p (contents ?st ?k @ entry_bytes name (next_inum ?st)))
        (\<lambda>(r, ec'). Inr (r, next_inum ?st, y1\<lparr>yfs_ec := ec'\<rparr>))"
      "ec_ok ec" "ec_store ec = store_create ?st ty" "extent_inum (next_inum ?st) = st_last ?st + 1"
      "extent_inum (next_inum ?st) \<noteq> ?k"
    using make_node_put [OF y dir(1) None t W(3) next_inum_def, of ino] unfolding dir(2) by blast
  have "st_files ?st ?k = Some (DIR, contents ?st ?k)"
    using dir by (simp add: dir_at_def)
  then have "length (contents ?st ?k @ entry_bytes name (next_inum ?st)) < 2 ^ 31"
    by (rule entry_small [OF y W(3,4)])
  moreover obtain x where "ec_put ec p (contents ?st ?k @ entry_bytes name (next_inum ?st)) = Inr x"
    using r m(1) by (auto simp: andThen_eq_Inr_iff)
  ultimately have "can_put (ec_store ec) ?k (contents ?st ?k @ entry_bytes name (next_inum ?st))"
    by (rule ex.put_room [OF m(2)])
  then have "can_put ?st ?k (contents ?st ?k @ entry_bytes name (next_inum ?st))"
    using m(4,5) unfolding m(3) by (simp add: can_put_create)
  then show ?thesis using W by (simp add: make_fits_def link_fits_def)
qed

lemma createhelper_fits:
  assumes fs: "fs_ok y" and wf: "entry_wf (y_store y) p name" and ty: "ty = T_FILE \<or> ty = T_DIR"
    and r: "fuseserver_createhelper y p name ty = Inr r"
  shows "make_fits (y_store y) p name"
proof -
  obtain junk y0 where u: "uninit 8 y = (junk, y0)" by fastforce
  note y0 = uninit_fs [OF u]
  obtain x where "make_node ty y0 p name (bytes_u64 junk) = Inr x"
    using r u ty by (auto simp: fuseserver_createhelper_def yfs_create_def yfs_mkdir_def andThen_eq_Inr_iff
        split: if_splits)
  then show ?thesis
    using make_node_fits [of y0 p name ty] fs wf ty by (simp add: y0)
qed

section \<open>Symbolic links\<close>

lemma symlink_fits:
  assumes fs: "fs_ok y" and ty: "symlink_type tsym"
    and wf: "entry_wf (y_store y) p name" "length link < 2 ^ 31"
    and r: "yfs_symlink tsym y p link name ino = Inr r"
  shows "admissible L tsym (y_store y) (ReqSymlink link p name)"
proof -
  let ?st = "y_store y" and ?k = "extent_inum p"
  let ?st1 = "store_put (store_create ?st tsym) (st_last ?st + 1) link"
  have W: "has_type ?st p DIR" "name_ok name" "can_create ?st" "length name < 2 ^ 30"
    using wf by (simp_all add: entry_wf_def)
  have y: "y_ok y" using fs_okD(1) [OF fs] .
  have "unat tsym < 2 ^ 15" "tsym \<noteq> 0" using ty by (auto simp: symlink_type_def)
  then have t: "(ucast tsym :: u16) \<noteq> 0" using type_code [of tsym 0] by auto
  obtain ec1 where c: "ec_create (yfs_ec y) tsym = Inr (OK, next_inum ?st, ec1)" "ec_ok ec1"
      "ec_store ec1 = store_create ?st tsym" and key: "extent_inum (next_inum ?st) = st_last ?st + 1"
    using yfs_symlink_create [OF y t W(3) next_inum_def] by blast
  obtain x where "ec_put ec1 (next_inum ?st) link = Inr x"
    using r c(1) by (auto simp: yfs_symlink_def andThen_eq_Inr_iff)
  from ex.put_room [OF c(2) wf(2) this]
  have link: "length link \<le> MAXFILE * BLOCK_SIZE" "file_blocks link \<le> st_room ?st"
    unfolding c(3) key by (simp_all add: can_put_def)
  have p: "st_files ?st ?k = Some (DIR, contents ?st ?k)"
    using fs_dir [OF fs W(1)] by (simp add: dir_at_def)
  obtain ec2 where s: "yfs_symlink tsym y p link name ino =
      andThen (ec_put ec2 p (contents ?st ?k @ entry_bytes name (next_inum ?st)))
        (\<lambda>(r, ec'). Inr (r, next_inum ?st, y\<lparr>yfs_ec := ec'\<rparr>))" "ec_ok ec2" "ec_store ec2 = ?st1"
    using yfs_symlink_put [OF y p t W(3) next_inum_def link, of name ino] unfolding key by blast
  obtain x2 where "ec_put ec2 p (contents ?st ?k @ entry_bytes name (next_inum ?st)) = Inr x2"
    using r s(1) by (auto simp: andThen_eq_Inr_iff)
  from ex.put_room [OF s(2) entry_small [OF y W(3,4) p] this]
  show ?thesis using W link unfolding s(3) by (simp add: link_fits_def)
qed

section \<open>Data\<close>

lemma write_fits:
  assumes fs: "fs_ok y" and wf: "request_wf L (y_store y) (ReqWrite i buf sz off)"
    and r: "yfs_write y i sz off buf bw = Inr r"
  shows "admissible L tsym (y_store y) (ReqWrite i buf sz off)"
proof (cases "st_files (y_store y) (extent_inum i)")
  case None
  then have "ec_get (yfs_ec y) i = Inl NullDeref"
    using ec.missing [of "yfs_ec y" i] fs_okD(1) [OF fs] by (simp add: y_ok_def y_store_def)
  then show ?thesis using r by (simp add: yfs_write_def)
next
  case (Some f)
  let ?st = "y_store y" and ?k = "extent_inum i"
  have y: "y_ok y" using fs_okD(1) [OF fs] .
  obtain d where f: "st_files ?st ?k = Some (REG, d)" using Some wf by (cases f) simp
  have W: "unat sz = length buf" "buf = take (unat sz) buf" "unat off + length buf < 2 ^ 31"
    using wf by simp_all
  then have "unat off + length buf < 2 ^ 62" by simp
  from yfs_write_put [OF y f W(1,2) this, of bw] obtain ec x where
    "ec_put ec i (write_spec d (unat off) buf) = Inr x" "ec_ok ec" "ec_store ec = ?st"
    using andThen_InrD [OF _ r] by blast
  moreover have "length d < 2 ^ 31"
    using ec.bounded [of "yfs_ec y" ?k REG d] y f by (simp add: y_ok_def y_store_def layout)
  then have "length (write_spec d (unat off) buf) < 2 ^ 31"
    using W(3) by (simp add: length_write_spec)
  ultimately have "can_put ?st ?k (write_spec d (unat off) buf)"
    using ex.put_room by metis
  then show ?thesis using W(1) by (simp add: has_type_Some [OF f] contents_eq [OF f])
qed

lemma can_put_same: "st_files st k = Some (t, d) \<Longrightarrow> length d \<le> MAXFILE * BLOCK_SIZE \<Longrightarrow> can_put st k d"
  by (simp add: can_put_def)

lemma setattr_fits:
  assumes fs: "fs_ok y" and wf: "request_wf L (y_store y) (ReqSetattr i sz to_set)"
    and r: "fuseserver_setattr L y i sz to_set = Inr r"
  shows "admissible L tsym (y_store y) (ReqSetattr i sz to_set)"
proof (cases "set_attr_mask L AND to_set = 0")
  case False
  let ?st = "y_store y" and ?k = "extent_inum i"
  have y: "y_ok y" using fs_okD(1) [OF fs] .
  obtain t d where f: "st_files ?st ?k = Some (t, d)" "t \<noteq> DIR" and sz: "unat sz < 2 ^ 31"
    using wf False by (auto split: option.splits)
  have "to_set AND set_attr_mask L \<noteq> 0" using False by (simp add: and.commute)
  then obtain x where x: "yfs_setattr y i sz = Inr x"
    using r False by (auto simp: fuseserver_setattr_def andThen_eq_Inr_iff)
  have "can_put ?st ?k (resize d (unat sz))"
    using yfs_setattr_put [OF y f(1) sz]
  proof (elim disjE exE conjE)
    assume "length d = unat sz"
    moreover have "length d \<le> MAXFILE * BLOCK_SIZE"
      using ec.bounded [of "yfs_ec y" ?k t d] y f(1) by (simp add: y_ok_def y_store_def)
    ultimately show ?thesis using can_put_same [OF f(1)] by (simp add: resize_same)
  next
    fix ec
    assume "yfs_setattr y i sz = andThen (ec_put ec i (resize d (unat sz))) (\<lambda>(r, ec'). Inr (r, y\<lparr>yfs_ec := ec'\<rparr>))"
      "ec_ok ec" "ec_store ec = ?st"
    then show ?thesis
      using andThen_InrD [OF _ x] ex.put_room [of ec "resize d (unat sz)" i] sz by fastforce
  qed
  then show ?thesis using f by (simp add: has_type_Some [OF f(1)] contents_eq [OF f(1)])
qed simp

lemma read_fits:
  assumes fs: "fs_ok y" and r: "yfs_read y i sz off out = Inr r"
  shows "admissible L tsym (y_store y) (ReqRead i sz off)"
proof (cases "has_type (y_store y) i REG")
  case True
  then obtain d where f: "st_files (y_store y) (extent_inum i) = Some (REG, d)"
      "contents (y_store y) (extent_inum i) = d" by (rule has_typeE)
  then show ?thesis
    using yfs_read_beyond [OF fs_okD(1) [OF fs] f(1), of off sz out] r by (force simp: not_less [symmetric])
qed simp

section \<open>Every request\<close>

lemma dispatch_fits:
  assumes fs: "fs_ok y" and ty: "symlink_type tsym" and wf: "request_wf L (y_store y) req"
    and r: "dispatch L tsym y req = Inr r"
  shows "admissible L tsym (y_store y) req"
proof (cases req)
  case (ReqCreate p name)
  then show ?thesis
    using r wf createhelper_fits [OF fs, of p name T_FILE]
    by (auto simp: fuseserver_create_def andThen_eq_Inr_iff)
next
  case (ReqMknod p name)
  then show ?thesis
    using r wf createhelper_fits [OF fs, of p name T_FILE]
    by (auto simp: fuseserver_mknod_def andThen_eq_Inr_iff)
next
  case (ReqMkdir p name)
  then show ?thesis
    using r wf createhelper_fits [OF fs, of p name T_DIR]
    by (auto simp: fuseserver_mkdir_def andThen_eq_Inr_iff)
next
  case (ReqSymlink link p name)
  obtain junk y0 where u: "uninit 8 y = (junk, y0)" by fastforce
  note y0 = uninit_fs [OF u]
  obtain x where "yfs_symlink tsym y0 p link name (bytes_u64 junk) = Inr x"
    using r u ReqSymlink by (auto simp: fuseserver_symlink_def andThen_eq_Inr_iff)
  then show ?thesis
    using symlink_fits [OF _ ty, of y0 p name link] fs wf ReqSymlink by (simp only: y0 request_wf.simps)
next
  case (ReqWrite i buf sz off)
  then show ?thesis
    using r wf write_fits [OF fs, of L i buf sz off] by (auto simp: fuseserver_write_def andThen_eq_Inr_iff)
next
  case (ReqSetattr i sz to_set)
  then show ?thesis using r wf setattr_fits [OF fs, of L i sz to_set] by simp
next
  case (ReqRead i sz off)
  then show ?thesis
    using r read_fits [OF fs, of i sz off "[]"] by (auto simp: fuseserver_read_def andThen_eq_Inr_iff)
qed (use wf in simp_all)

text \<open>
  C3. What happens to a well formed request (the parent a directory, the name one the format can
  store, an inode number left, sizes within an \<open>int\<close>) is decided by \<open>admissible\<close>: the data it
  writes is within the maximal size of a file and there is room for it on the disk, and a read
  starts no further than at the end of the file.  If so the handler answers, with the reply
  and the change of the files that the specification gives; if not it ends in a fault,
  because nothing between the handler and the block allocator reports a full disk.
\<close>

theorem answered_iff_admissible:
  assumes "fs_ok y" "symlink_type tsym" "request_wf L (y_store y) req"
  shows "case dispatch L tsym y req of
      Inr (rep, y1) \<Rightarrow> admissible L tsym (y_store y) req \<and> fs_ok y1 \<and>
        y_store y1 = fs_apply L tsym (y_store y) req \<and> answers L tsym (y_store y) req (y_store y1) rep
    | Inl e \<Rightarrow> \<not> admissible L tsym (y_store y) req"
proof (cases "admissible L tsym (y_store y) req")
  case True
  then show ?thesis
    using dispatch_implements [OF assms(1,2)] unfolding implements_def by fastforce
next
  case False
  then show ?thesis
    using dispatch_fits [OF assms] by (cases "dispatch L tsym y req") auto
qed

text \<open>So the reachable states are closed under every well formed request that is answered.\<close>

lemma reachable_answered:
  assumes "reachable L tsym e y" "symlink_type tsym" "request_wf L (y_store y) req"
    and "dispatch L tsym y req = Inr (rep, y1)"
  shows "reachable L tsym e y1"
  using reachable.serve [OF assms(1) dispatch_fits [OF reachable_fs_ok [OF assms(1,2)] assms(2-4)] assms(4)] .

lemma demo_grow:
  assumes "unat sz < 2 ^ 31"
  shows "request_wf demo_lib demo_store_a (ReqSetattr 2 sz 8)"
    and "admissible demo_lib 3 demo_store_a (ReqSetattr 2 sz 8) \<longleftrightarrow> can_put demo_store_a 2 (resize [] (unat sz))"
proof -
  have m: "set_attr_mask demo_lib AND 8 \<noteq> 0" by (simp add: set_attr_mask_def demo_lib_def)
  show "request_wf demo_lib demo_store_a (ReqSetattr 2 sz 8)"
    using assms by simp
  have "\<not> has_type demo_store_a 2 DIR"
    using type_codes(7) [symmetric] by (simp add: has_type_def)
  then show "admissible demo_lib 3 demo_store_a (ReqSetattr 2 sz 8) \<longleftrightarrow> can_put demo_store_a 2 (resize [] (unat sz))"
    using m by simp
qed

theorem answered_iff_admissible_witness:
  "\<exists>y e rep y1. reachable demo_lib 3 demo_env y \<and> dispatch demo_lib 3 y (ReqSetattr 2 4 8) = Inr (rep, y1) \<and>
     dispatch demo_lib 3 y (ReqSetattr 2 1000000 8) = Inl e"
proof -
  obtain y where y: "fs_ok y" "y_store y = demo_store_a" "reachable demo_lib 3 demo_env y"
    using demo_created by metis
  have "can_put demo_store_a 2 (resize [] 4)"
    by (rule demo_put_a) (simp_all flip: length_greater_0_conv)
  then have "\<exists>rep y1. dispatch demo_lib 3 y (ReqSetattr 2 4 8) = Inr (rep, y1)"
    using answered_iff_admissible [OF y(1) demo_symlink_type, of demo_lib "ReqSetattr 2 4 8"]
      demo_grow [of 4] by (simp add: y(2) del: admissible.simps dispatch.simps split: sum.splits)
  moreover have "\<not> can_put demo_store_a 2 (resize [] 1000000)"
    by (simp add: can_put_def layout)
  then have "\<exists>e. dispatch demo_lib 3 y (ReqSetattr 2 1000000 8) = Inl e"
    using answered_iff_admissible [OF y(1) demo_symlink_type, of demo_lib "ReqSetattr 2 1000000 8"]
      demo_grow [of 1000000] by (auto simp: y(2) simp del: admissible.simps dispatch.simps split: sum.splits)
  ultimately show ?thesis using y(3) by blast
qed

end
