(* ===== verification/Memory.thy ===== *)
theory Memory
  imports Prelude
begin

text \<open>
  The memory of the C library: \<open>malloc\<close>, \<open>realloc\<close> and \<open>free\<close> over a heap of cells.
  A pointer is a number, the null pointer is 0, and an address is never handed out
  twice, so that every use of released memory is the fault \<open>BadPointer\<close>.  What a
  cell holds is a parameter.
\<close>

section \<open>Cells and pointers\<close>

record 'c memory =
  cells :: "nat \<rightharpoonup> 'c"
  last_ptr :: nat

definition malloc :: "'c \<Rightarrow> 'c memory \<Rightarrow> nat \<times> 'c memory" where
  "malloc c m =
     (let p = Suc (last_ptr m) in (p, m\<lparr>cells := (cells m)(p \<mapsto> c), last_ptr := p\<rparr>))"

definition mload :: "nat \<Rightarrow> 'c memory \<Rightarrow> 'c result" where
  "mload p m =
     (if p = 0 then Inl NullDeref else case cells m p of None \<Rightarrow> Inl BadPointer | Some c \<Rightarrow> Inr c)"

definition mstore :: "nat \<Rightarrow> 'c \<Rightarrow> 'c memory \<Rightarrow> 'c memory result" where
  "mstore p c m = andThen (mload p m) (\<lambda>_. Inr (m\<lparr>cells := (cells m)(p \<mapsto> c)\<rparr>))"

text \<open>Releasing the null pointer does nothing.\<close>

definition mfree :: "nat \<Rightarrow> 'c memory \<Rightarrow> 'c memory result" where
  "mfree p m =
     (if p = 0 then Inr m else andThen (mload p m) (\<lambda>_. Inr (m\<lparr>cells := (cells m)(p := None)\<rparr>)))"

text \<open>\<open>f\<close> is what becomes of the cell when its size changes; null is a fresh cell.\<close>

definition mrealloc :: "nat \<Rightarrow> 'c \<Rightarrow> ('c \<Rightarrow> 'c) \<Rightarrow> 'c memory \<Rightarrow> (nat \<times> 'c memory) result" where
  "mrealloc p c f m =
     (if p = 0 then Inr (malloc c m)
      else andThen (mload p m) (\<lambda>old. andThen (mfree p m) (\<lambda>m. Inr (malloc (f old) m))))"

section \<open>Accounting\<close>

definition mem_ok :: "'c memory \<Rightarrow> bool" where
  "mem_ok m \<longleftrightarrow> (\<forall>p. cells m p \<noteq> None \<longrightarrow> 0 < p \<and> p \<le> last_ptr m)"

text \<open>The cells that are allocated.\<close>

definition allocated :: "'c memory \<Rightarrow> nat" where
  "allocated m = card (dom (cells m))"

text \<open>
  A computation keeps every cell that it finds and leaves \<open>n\<close> more: none of the old
  ones is released or changed.
\<close>

definition grows :: "nat \<Rightarrow> 'c memory \<Rightarrow> 'c memory \<Rightarrow> bool" where
  "grows n m m' \<longleftrightarrow> mem_ok m \<and> mem_ok m' \<and> cells m \<subseteq>\<^sub>m cells m' \<and>
     allocated m' = allocated m + n \<and> last_ptr m \<le> last_ptr m'"

named_theorems memory "what the memory operations do"

lemma mem_ok_empty [simp]: "mem_ok \<lparr>cells = Map.empty, last_ptr = k\<rparr>"
  by (simp add: mem_ok_def)

lemma mem_ok_finite: "mem_ok m \<Longrightarrow> finite (dom (cells m))"
  by (rule finite_subset [of _ "{..last_ptr m}"]) (auto simp: mem_ok_def)

lemma mem_ok_null: "mem_ok m \<Longrightarrow> cells m 0 = None"
  by (auto simp: mem_ok_def)

lemma mem_ok_fresh: "mem_ok m \<Longrightarrow> last_ptr m < p \<Longrightarrow> cells m p = None"
  by (metis mem_ok_def not_less)

lemma grows_refl [intro]: "mem_ok m \<Longrightarrow> grows 0 m m"
  by (simp add: grows_def)

lemma growsD:
  assumes "grows n m m'"
  shows "mem_ok m" "mem_ok m'" "cells m p = Some c \<Longrightarrow> cells m' p = Some c"
    "allocated m' = allocated m + n" "last_ptr m \<le> last_ptr m'"
  using assms by (auto simp: grows_def map_le_def dom_def)

lemma grows_trans [trans]: "grows k m1 m2 \<Longrightarrow> grows n m2 m3 \<Longrightarrow> grows (k + n) m1 m3"
  by (auto simp: grows_def intro: map_le_trans)

lemma mload_Some [memory]: "mem_ok m \<Longrightarrow> cells m p = Some c \<Longrightarrow> mload p m = Inr c"
  by (cases p) (auto simp: mload_def mem_ok_null)

lemma mload_kept: "grows n m m' \<Longrightarrow> cells m p = Some c \<Longrightarrow> mload p m' = Inr c"
  by (auto dest: growsD intro: mload_Some)

text \<open>A new cell.\<close>

lemma malloc_grows:
  assumes "mem_ok m" "malloc c m = (p, m')"
  shows "grows 1 m m'" "cells m' p = Some c" "cells m p = None" "last_ptr m < p" "p \<noteq> 0"
proof -
  have p: "p = Suc (last_ptr m)" "m' = m\<lparr>cells := (cells m)(p \<mapsto> c), last_ptr := p\<rparr>"
    using assms(2) by (auto simp: malloc_def Let_def)
  then show fresh: "cells m p = None" and "cells m' p = Some c" "last_ptr m < p" "p \<noteq> 0"
    using assms(1) by (auto intro: mem_ok_fresh)
  have "mem_ok m'" using assms(1) by (auto simp: p mem_ok_def split: if_splits)
  moreover have "cells m \<subseteq>\<^sub>m cells m'" using fresh by (auto simp: p map_le_def)
  moreover have "allocated m' = allocated m + 1"
    using fresh mem_ok_finite [OF assms(1)] by (auto simp: p allocated_def domIff)
  ultimately show "grows 1 m m'" using assms(1) by (simp add: grows_def p)
qed

text \<open>Writing to and releasing a cell that is not one of the old ones.\<close>

lemma mstore_grows:
  assumes "grows n m m1" "cells m1 p = Some old" "cells m p = None"
  shows "\<exists>m2. mstore p c m1 = Inr m2 \<and> grows n m m2 \<and> cells m2 = (cells m1)(p \<mapsto> c) \<and> last_ptr m2 = last_ptr m1"
proof -
  let ?m2 = "m1\<lparr>cells := (cells m1)(p \<mapsto> c)\<rparr>"
  have "mstore p c m1 = Inr ?m2"
    using mload_Some [OF growsD(2) [OF assms(1)] assms(2)] by (simp add: mstore_def)
  moreover have "grows n m ?m2"
    using assms by (auto simp: grows_def mem_ok_def allocated_def map_le_def domIff insert_absorb)
  ultimately show ?thesis by auto
qed

lemma mfree_grows:
  assumes "grows (Suc n) m m1" "cells m1 p = Some old" "cells m p = None"
  shows "\<exists>m2. mfree p m1 = Inr m2 \<and> grows n m m2 \<and> cells m2 = (cells m1)(p := None) \<and> last_ptr m2 = last_ptr m1"
proof -
  let ?m2 = "m1\<lparr>cells := (cells m1)(p := None)\<rparr>"
  have ok: "mem_ok m1" by (rule growsD(2) [OF assms(1)])
  then have p: "p \<noteq> 0" using assms(2) by (cases p) (auto simp: mem_ok_null)
  have "mfree p m1 = Inr ?m2"
    using mload_Some [OF ok assms(2)] p by (simp add: mfree_def)
  moreover have "grows n m ?m2"
    using assms mem_ok_finite [OF ok] by (auto simp: grows_def mem_ok_def allocated_def map_le_def domIff card_Diff_singleton_if)
  ultimately show ?thesis by auto
qed

end
