(* ===== verification/Inode_Memory.thy ===== *)
theory Inode_Memory
  imports Extent_Server Memory "HOL-Library.Signed_Division"
begin

text \<open>
  The inode layer and the extent server with their memory: the same methods as in
  Block_Manager, Inode_Manager and Extent_Server, with every pointer, \<open>malloc\<close> and
  \<open>free\<close> of src/inode_manager.cc and src/extent_server.cc in its place.  The string that
  \<open>put\<close> stores is memory as well, of the length it has, so that a \<open>write_block\<close> that reads
  behind its end is a fault here; memory that has not been written is told from memory that has.
  Buffers on the stack stay values.
\<close>

section \<open>Cells\<close>

text \<open>
  A buffer of bytes and one of block numbers, of which some may never have been
  written, and a \<open>struct inode\<close>.  A \<open>RawNode\<close> is an inode whose array of blocks has not
  been written, and at first none of its fields.
\<close>

datatype cell =
    Bytes "byte option list"
  | Words "u32 option list"
  | Node inode
  | RawNode "inode option"

type_synonym mem = "cell memory"

definition load_bytes :: "nat \<Rightarrow> mem \<Rightarrow> byte list result" where
  "load_bytes p m =
     andThen (mload p m) (\<lambda>c. case c of
       Bytes xs \<Rightarrow> if None \<in> set xs then Inl BadPointer else Inr (map the xs)
     | _ \<Rightarrow> Inl BadPointer)"

text \<open>
  Reading \<open>n\<close> bytes of a buffer from \<open>off\<close> on, as \<open>write_block(b, p + off)\<close> does with the
  size of a block and \<open>buf.assign(p, n)\<close>.
\<close>

definition load_slice :: "nat \<Rightarrow> nat \<Rightarrow> nat \<Rightarrow> mem \<Rightarrow> byte list result" where
  "load_slice n off p m =
     andThen (mload p m) (\<lambda>c. case c of
       Bytes xs \<Rightarrow> if length xs < off + n then Inl HeapOverflow
                   else if None \<in> set (take n (drop off xs)) then Inl BadPointer
                   else Inr (map the (take n (drop off xs)))
     | _ \<Rightarrow> Inl BadPointer)"

text \<open>One block number is read, or written.\<close>

definition load_word :: "nat \<Rightarrow> nat \<Rightarrow> mem \<Rightarrow> u32 result" where
  "load_word i p m =
     andThen (mload p m) (\<lambda>c. case c of
       Words ws \<Rightarrow> if length ws \<le> i then Inl HeapOverflow
                   else (case ws ! i of None \<Rightarrow> Inl BadPointer | Some w \<Rightarrow> Inr w)
     | _ \<Rightarrow> Inl BadPointer)"

definition store_word :: "nat \<Rightarrow> u32 \<Rightarrow> nat \<Rightarrow> mem \<Rightarrow> mem result" where
  "store_word i w p m =
     andThen (mload p m) (\<lambda>c. case c of
       Words ws \<Rightarrow> if length ws \<le> i then Inl HeapOverflow else mstore p (Words (ws[i := Some w])) m
     | _ \<Rightarrow> Inl BadPointer)"

text \<open>
  A buffer of block numbers, or an inode, is copied as a whole; what was not written has
  an undetermined value, here \<open>junk\<close>.
\<close>

definition fill_words :: "u32 option list \<Rightarrow> u32 list \<Rightarrow> u32 list" where
  "fill_words ws junk = map2 (\<lambda>w j. case w of None \<Rightarrow> j | Some x \<Rightarrow> x) ws junk"

definition copy_words :: "u32 list \<Rightarrow> nat \<Rightarrow> mem \<Rightarrow> u32 list result" where
  "copy_words junk p m =
     andThen (mload p m) (\<lambda>c. case c of Words ws \<Rightarrow> Inr (fill_words ws junk) | _ \<Rightarrow> Inl BadPointer)"

definition copy_node :: "u32 list \<Rightarrow> nat \<Rightarrow> mem \<Rightarrow> inode result" where
  "copy_node junk p m =
     andThen (mload p m) (\<lambda>c. case c of
       Node ino \<Rightarrow> Inr ino
     | RawNode (Some ino) \<Rightarrow> Inr (ino\<lparr>iblocks := junk\<rparr>)
     | _ \<Rightarrow> Inl BadPointer)"

text \<open>A field of an inode is read.\<close>

definition load_node :: "nat \<Rightarrow> mem \<Rightarrow> inode result" where
  "load_node p m =
     andThen (mload p m) (\<lambda>c. case c of Node ino \<Rightarrow> Inr ino | _ \<Rightarrow> Inl BadPointer)"

text \<open>\<open>read_block(b, p + off)\<close> into a buffer of bytes.\<close>

definition read_into :: "block_manager \<Rightarrow> u32 \<Rightarrow> nat \<Rightarrow> nat \<Rightarrow> mem \<Rightarrow> mem result" where
  "read_into bm b p off m =
     andThen (bm_read_block bm b) (\<lambda>c.
     andThen (mload p m) (\<lambda>x. case x of
       Bytes xs \<Rightarrow>
         if off + BLOCK_SIZE \<le> length xs
         then mstore p (Bytes (take off xs @ map Some c @ drop (off + BLOCK_SIZE) xs)) m
         else Inl HeapOverflow
     | _ \<Rightarrow> Inl BadPointer))"

text \<open>\<open>malloc\<close> of bytes, and \<open>read_block(b, (char *) malloc(BLOCK_SIZE))\<close> of block numbers.\<close>

definition malloc_bytes :: "nat \<Rightarrow> mem \<Rightarrow> nat \<times> mem" where
  "malloc_bytes n m = malloc (Bytes (replicate n None)) m"

definition malloc_ids :: "block_manager \<Rightarrow> u32 \<Rightarrow> mem \<Rightarrow> (nat \<times> mem) result" where
  "malloc_ids bm b m =
     andThen (bm_read_block bm b) (\<lambda>c. Inr (malloc (Words (map Some (bytes_words NINDIRECT c))) m))"

section \<open>The block manager\<close>

function alloc_loop_mem :: "block_manager \<Rightarrow> nat \<Rightarrow> mem \<Rightarrow> ((u32 \<times> block_manager) \<times> mem) result" where
  "alloc_loop_mem bm bitmap_id m =
     (if bitmap_id \<le> unat (BBLOCK (word_of_nat (BLOCK_NUM - 1)))
      then (let (buf, m) = malloc_bytes BLOCK_SIZE m
            in andThen (read_into bm (word_of_nat bitmap_id) buf 0 m) (\<lambda>m.
               andThen (load_bytes buf m) (\<lambda>bs.
               case scan_bits bs 0 of
                 Some i \<Rightarrow>
                   andThen (mstore buf (Bytes (map Some (bs[i div 8 := bs ! (i div 8) OR push_bit (i mod 8) 1]))) m) (\<lambda>m.
                   andThen (load_bytes buf m) (\<lambda>bs.
                   andThen (bm_write_block bm (word_of_nat bitmap_id) bs) (\<lambda>bm.
                   Inr ((word_of_nat (bitmap_id * BPB + i), bm), m))))
               | None \<Rightarrow> andThen (mfree buf m) (\<lambda>m. alloc_loop_mem bm (Suc bitmap_id) m))))
      else Inr ((-1, bm), m))"
  by pat_completeness auto
termination
  by (relation "measure (\<lambda>(bm, k, m). Suc (unat (BBLOCK (word_of_nat (BLOCK_NUM - 1)))) - k)") auto

definition alloc_block_mem :: "block_manager \<Rightarrow> mem \<Rightarrow> ((u32 \<times> block_manager) \<times> mem) result" where
  "alloc_block_mem bm m = alloc_loop_mem bm (unat (BBLOCK 0)) m"

definition free_block_mem :: "block_manager \<Rightarrow> u32 \<Rightarrow> mem \<Rightarrow> (block_manager \<times> mem) result" where
  "free_block_mem bm b m =
     (let bitmap_id = BBLOCK b - BBLOCK 0;
          (buf, m) = malloc_bytes BLOCK_SIZE m
      in andThen (read_into bm bitmap_id buf 0 m) (\<lambda>m.
         let index = unat (b mod word_of_nat BPB) div 8;
             offset = unat (b mod word_of_nat BPB) mod 8
         in andThen (load_bytes buf m) (\<lambda>bs.
            andThen (mstore buf (Bytes (map Some (bs[index := bs ! index AND NOT (push_bit offset 1)]))) m) (\<lambda>m.
            andThen (load_bytes buf m) (\<lambda>bs.
            andThen (bm_write_block bm bitmap_id bs) (\<lambda>bm.
            andThen (mfree buf m) (\<lambda>m.
            Inr (bm, m))))))))"

declare alloc_loop_mem.simps [simp del]

section \<open>Inodes\<close>

definition get_inode_mem :: "inode_manager \<Rightarrow> u32 \<Rightarrow> mem \<Rightarrow> (nat \<times> mem) result" where
  "get_inode_mem im inum m =
     (if INODE_NUM \<le> unat inum then Inr (0, m)
      else andThen (bm_read_block (im_bm im) (IBLOCK inum (sb_nblocks (bm_sb (im_bm im)))))
        (\<lambda>buf. let ino_disk = inode_of_block buf
               in if itype ino_disk = 0 then Inr (0, m) else Inr (malloc (Node ino_disk) m)))"

definition put_inode_mem :: "inode_manager \<Rightarrow> u32 \<Rightarrow> nat \<Rightarrow> u32 list \<Rightarrow> mem \<Rightarrow> inode_manager result" where
  "put_inode_mem im inum ino junk m =
     (if ino = 0 then Inr im
      else (let b = IBLOCK inum (sb_nblocks (bm_sb (im_bm im)))
            in andThen (bm_read_block (im_bm im) b) (\<lambda>buf.
               andThen (copy_node junk ino m) (\<lambda>i.
               andThen (bm_write_block (im_bm im) b (inode_to_block i buf)) (\<lambda>bm.
               Inr (im\<lparr>im_bm := bm\<rparr>))))))"

text \<open>The array of block numbers of the new inode goes to the disk as the memory holds it.\<close>

definition alloc_inode_mem :: "inode_manager \<Rightarrow> u32 \<Rightarrow> mem \<Rightarrow> ((u32 \<times> inode_manager) \<times> mem) result" where
  "alloc_inode_mem im type m =
     (let inum = im_inum im + 1;
          (junk, e1) = env_bytes (4 * (NDIRECT + 1)) (im_env im);
          (ino, m) = malloc (RawNode None) m;
          (now, e2) = env_time e1
      in andThen (mstore ino (RawNode (Some \<lparr>itype = ucast type, isize = 0,
                    iatime = now, imtime = now, ictime = now, iblocks = []\<rparr>)) m) (\<lambda>m.
         andThen (put_inode_mem (im\<lparr>im_inum := inum, im_env := e2\<rparr>) inum ino
                    (bytes_words (NDIRECT + 1) junk) m) (\<lambda>im.
         andThen (mfree ino m) (\<lambda>m.
         Inr ((inum, im), m)))))"

definition free_inode_mem :: "inode_manager \<Rightarrow> u32 \<Rightarrow> mem \<Rightarrow> (inode_manager \<times> mem) result" where
  "free_inode_mem im inum m =
     andThen (get_inode_mem im inum m) (\<lambda>(prev_ino, m).
       if prev_ino = 0 then Inr (im, m)
       else andThen (mfree prev_ino m) (\<lambda>m.
         let b = IBLOCK inum (sb_nblocks (bm_sb (im_bm im)))
         in andThen (bm_read_block (im_bm im) b) (\<lambda>buf.
            let (ino, m) = malloc (Node zero_inode) m
            in andThen (load_node ino m) (\<lambda>i.
               andThen (bm_write_block (im_bm im) b (inode_to_block i buf)) (\<lambda>bm.
               Inr (im\<lparr>im_bm := bm\<rparr>, m))))))"

definition getattr_mem :: "inode_manager \<Rightarrow> u32 \<Rightarrow> attr \<Rightarrow> mem \<Rightarrow> (attr \<times> mem) result" where
  "getattr_mem im inum a m =
     andThen (get_inode_mem im inum m) (\<lambda>(p, m).
       if p \<noteq> 0
       then andThen (load_node p m) (\<lambda>ino.
            andThen (mfree p m) (\<lambda>m.
            Inr (a\<lparr>a_type := scast (itype ino), a_atime := iatime ino, a_ctime := ictime ino,
                   a_mtime := imtime ino, a_size := isize ino\<rparr>, m)))
       else Inr (a, m))"

section \<open>Reading a file\<close>

function read_direct_mem ::
  "block_manager \<Rightarrow> nat \<Rightarrow> int \<Rightarrow> nat \<Rightarrow> nat \<Rightarrow> int \<Rightarrow> mem \<Rightarrow> (int \<times> mem) result"
where
  "read_direct_mem bm ino sz buf_out i read_size m =
     (if read_size < sz \<and> i < NDIRECT
      then andThen (load_node ino m) (\<lambda>n.
           andThen (read_into bm (iblocks n ! i) buf_out (nat read_size) m) (\<lambda>m.
           read_direct_mem bm ino sz buf_out (Suc i) (read_size + int BLOCK_SIZE) m))
      else Inr (read_size, m))"
  by pat_completeness auto
termination
  by (relation "measure (\<lambda>(bm, ino, sz, buf_out, i, read_size, m). NDIRECT - i)") auto

function read_indirect_mem ::
  "block_manager \<Rightarrow> nat \<Rightarrow> int \<Rightarrow> nat \<Rightarrow> nat \<Rightarrow> int \<Rightarrow> mem \<Rightarrow> mem result"
where
  "read_indirect_mem bm ids sz buf_out i read_size m =
     (if read_size < sz
      then if i < NINDIRECT
        then andThen (load_word i ids m) (\<lambda>b.
             andThen (read_into bm b buf_out (nat read_size) m) (\<lambda>m.
             read_indirect_mem bm ids sz buf_out (Suc i) (read_size + int BLOCK_SIZE) m))
        else Inl HeapOverflow
      else Inr m)"
  by pat_completeness auto
termination
  by (relation "measure (\<lambda>(bm, ids, sz, buf_out, i, read_size, m). NINDIRECT - i)") auto

definition read_blocks_mem ::
  "block_manager \<Rightarrow> nat \<Rightarrow> int \<Rightarrow> nat \<Rightarrow> mem \<Rightarrow> mem result" where
  "read_blocks_mem bm ino sz buf_out m =
     andThen (read_direct_mem bm ino sz buf_out 0 0 m) (\<lambda>(read_size, m).
       if read_size < sz
       then andThen (load_node ino m) (\<lambda>n.
            andThen (malloc_ids bm (iblocks n ! NDIRECT) m) (\<lambda>(blockidBuf, m).
            read_indirect_mem bm blockidBuf sz buf_out 0 read_size m))
       else Inr m)"

text \<open>
  \<open>(*size / BLOCK_SIZE + 1) * BLOCK_SIZE\<close> is computed as an \<open>int\<close>; as the argument of
  \<open>malloc\<close> a negative one asks for more memory than there is.
\<close>

definition read_capacity :: "int \<Rightarrow> int" where
  "read_capacity sz = sint (word_of_int ((sz sdiv int BLOCK_SIZE + 1) * int BLOCK_SIZE) :: u32)"

definition read_file_mem ::
  "inode_manager \<Rightarrow> u32 \<Rightarrow> mem \<Rightarrow> (((nat \<times> int) \<times> inode_manager) \<times> mem) result" where
  "read_file_mem im inum m =
     andThen (get_inode_mem im inum m) (\<lambda>(ino, m).
     andThen (load_node ino m) (\<lambda>n.
       let sz = sint (isize n);
           (buf_out, m) = (if read_capacity sz < 0 then (0, m) else malloc_bytes (nat (read_capacity sz)) m)
       in andThen (read_blocks_mem (im_bm im) ino sz buf_out m) (\<lambda>m.
          let (now, e) = env_time (im_env im)
          in andThen (load_node ino m) (\<lambda>n.
             andThen (mstore ino (Node (n\<lparr>iatime := now\<rparr>)) m) (\<lambda>m.
             andThen (put_inode_mem (im\<lparr>im_env := e\<rparr>) inum ino [] m) (\<lambda>im.
             andThen (mfree ino m) (\<lambda>m.
             Inr (((buf_out, sz), im), m))))))))"

section \<open>Returning the blocks of a file\<close>

function free_direct_mem ::
  "block_manager \<Rightarrow> nat \<Rightarrow> int \<Rightarrow> nat \<Rightarrow> int \<Rightarrow> mem \<Rightarrow> ((int \<times> block_manager) \<times> mem) result"
where
  "free_direct_mem bm ino sz i free_size m =
     (if free_size < sz \<and> i < NDIRECT
      then andThen (load_node ino m) (\<lambda>n.
           andThen (free_block_mem bm (iblocks n ! i) m) (\<lambda>(bm, m).
           free_direct_mem bm ino sz (Suc i) (free_size + int BLOCK_SIZE) m))
      else Inr ((free_size, bm), m))"
  by pat_completeness auto
termination
  by (relation "measure (\<lambda>(bm, ino, sz, i, free_size, m). NDIRECT - i)") auto

function free_indirect_mem ::
  "block_manager \<Rightarrow> nat \<Rightarrow> int \<Rightarrow> nat \<Rightarrow> int \<Rightarrow> mem \<Rightarrow> (block_manager \<times> mem) result"
where
  "free_indirect_mem bm ids sz i free_size m =
     (if free_size < sz
      then if i < NINDIRECT
        then andThen (load_word i ids m) (\<lambda>b.
             andThen (free_block_mem bm b m) (\<lambda>(bm, m).
             free_indirect_mem bm ids sz (Suc i) (free_size + int BLOCK_SIZE) m))
        else Inl HeapOverflow
      else Inr (bm, m))"
  by pat_completeness auto
termination
  by (relation "measure (\<lambda>(bm, ids, sz, i, free_size, m). NINDIRECT - i)") auto

definition free_blocks_mem ::
  "block_manager \<Rightarrow> nat \<Rightarrow> int \<Rightarrow> mem \<Rightarrow> (block_manager \<times> mem) result" where
  "free_blocks_mem bm ino sz m =
     andThen (free_direct_mem bm ino sz 0 0 m) (\<lambda>((free_size, bm), m).
       if free_size < sz
       then andThen (load_node ino m) (\<lambda>n.
            let b = iblocks n ! NDIRECT
            in andThen (malloc_ids bm b m) (\<lambda>(blockidBuf, m).
               andThen (free_indirect_mem bm blockidBuf sz 0 free_size m) (\<lambda>(bm, m).
               free_block_mem bm b m)))
       else Inr (bm, m))"

section \<open>Writing and removing a file\<close>

text \<open>\<open>buf\<close> is the pointer to the bytes to write.\<close>

function write_direct_mem ::
  "block_manager \<Rightarrow> nat \<Rightarrow> nat \<Rightarrow> int \<Rightarrow> nat \<Rightarrow> int \<Rightarrow> mem \<Rightarrow> ((int \<times> block_manager) \<times> mem) result"
where
  "write_direct_mem bm ino buf sz i written_size m =
     (if written_size < sz \<and> i < NDIRECT
      then andThen (alloc_block_mem bm m) (\<lambda>((b, bm), m).
           andThen (load_node ino m) (\<lambda>n.
           andThen (mstore ino (Node (n\<lparr>iblocks := (iblocks n)[i := b]\<rparr>)) m) (\<lambda>m.
           andThen (load_slice BLOCK_SIZE (nat written_size) buf m) (\<lambda>c.
           andThen (bm_write_block bm b c) (\<lambda>bm.
           write_direct_mem bm ino buf sz (Suc i) (written_size + int BLOCK_SIZE) m)))))
      else Inr ((written_size, bm), m))"
  by pat_completeness auto
termination
  by (relation "measure (\<lambda>(bm, ino, buf, sz, i, written_size, m). NDIRECT - i)") auto

function write_indirect_mem ::
  "block_manager \<Rightarrow> nat \<Rightarrow> nat \<Rightarrow> int \<Rightarrow> nat \<Rightarrow> int \<Rightarrow> mem \<Rightarrow> (block_manager \<times> mem) result"
where
  "write_indirect_mem bm ids buf sz i written_size m =
     (if written_size < sz
      then andThen (alloc_block_mem bm m) (\<lambda>((b, bm), m).
           if i < NINDIRECT
           then andThen (store_word i b ids m) (\<lambda>m.
                andThen (load_slice BLOCK_SIZE (nat written_size) buf m) (\<lambda>c.
                andThen (bm_write_block bm b c) (\<lambda>bm.
                write_indirect_mem bm ids buf sz (Suc i) (written_size + int BLOCK_SIZE) m)))
           else Inl HeapOverflow)
      else Inr (bm, m))"
  by pat_completeness auto
termination
  by (relation "measure (\<lambda>(bm, ids, buf, sz, i, written_size, m). NINDIRECT - i)") auto

definition write_blocks_mem ::
  "block_manager \<Rightarrow> nat \<Rightarrow> byte list \<Rightarrow> nat \<Rightarrow> int \<Rightarrow> mem \<Rightarrow> (block_manager \<times> mem) result" where
  "write_blocks_mem bm ino junk buf sz m =
     andThen (write_direct_mem bm ino buf sz 0 0 m) (\<lambda>((written_size, bm), m).
       if written_size < sz
       then andThen (alloc_block_mem bm m) (\<lambda>((b, bm), m).
            andThen (load_node ino m) (\<lambda>n.
            andThen (mstore ino (Node (n\<lparr>iblocks := (iblocks n)[NDIRECT := b]\<rparr>)) m) (\<lambda>m.
            let (blockidBuf, m) = malloc (Words (replicate NINDIRECT None)) m
            in andThen (write_indirect_mem bm blockidBuf buf sz 0 written_size m) (\<lambda>(bm, m).
               andThen (copy_words (bytes_words NINDIRECT junk) blockidBuf m) (\<lambda>ws.
               andThen (bm_write_block bm b (words_bytes ws)) (\<lambda>bm.
               andThen (mfree blockidBuf m) (\<lambda>m.
               Inr (bm, m))))))))
       else Inr (bm, m))"

text \<open>
  The environment numbers its answers as in \<open>write_file\<close>, which asks for the bytes behind the
  buffer first; they are not used here.
\<close>

definition write_file_mem ::
  "inode_manager \<Rightarrow> u32 \<Rightarrow> nat \<Rightarrow> int \<Rightarrow> mem \<Rightarrow> (inode_manager \<times> mem) result" where
  "write_file_mem im inum buf sz m =
     andThen (get_inode_mem im inum m) (\<lambda>(ino, m).
     andThen (load_node ino m) (\<lambda>n.
     andThen (free_blocks_mem (im_bm im) ino (uint (isize n)) m) (\<lambda>(bm, m).
       let (_, e1) = env_bytes BLOCK_SIZE (im_env im);
           (junk, e2) = env_bytes BLOCK_SIZE e1
       in andThen (write_blocks_mem bm ino junk buf sz m) (\<lambda>(bm, m).
          let (now, e3) = env_time e2
          in andThen (load_node ino m) (\<lambda>n.
             andThen (mstore ino (Node (n\<lparr>isize := word_of_int sz, imtime := now, ictime := now\<rparr>)) m) (\<lambda>m.
             andThen (put_inode_mem (im\<lparr>im_bm := bm, im_env := e3\<rparr>) inum ino [] m) (\<lambda>im.
             andThen (mfree ino m) (\<lambda>m.
             Inr (im, m)))))))))"

definition remove_file_mem :: "inode_manager \<Rightarrow> u32 \<Rightarrow> mem \<Rightarrow> (inode_manager \<times> mem) result" where
  "remove_file_mem im inum m =
     andThen (get_inode_mem im inum m) (\<lambda>(ino, m).
     andThen (load_node ino m) (\<lambda>n.
     andThen (free_blocks_mem (im_bm im) ino (sint (isize n)) m) (\<lambda>(bm, m).
     andThen (free_inode_mem (im\<lparr>im_bm := bm\<rparr>) inum m) (\<lambda>(im, m).
     andThen (mfree ino m) (\<lambda>m.
     Inr (im, m))))))"

declare read_direct_mem.simps [simp del] read_indirect_mem.simps [simp del]
  free_direct_mem.simps [simp del] free_indirect_mem.simps [simp del]
  write_direct_mem.simps [simp del] write_indirect_mem.simps [simp del]

section \<open>The extent server\<close>

definition es_create_mem :: "extent_server \<Rightarrow> u32 \<Rightarrow> mem \<Rightarrow> ((status \<times> u64 \<times> extent_server) \<times> mem) result" where
  "es_create_mem es type m =
     andThen (alloc_inode_mem (es_im es) type m) (\<lambda>((inum, im), m).
     Inr ((OK, ucast inum, es\<lparr>es_im := im\<rparr>), m))"

text \<open>The parameter \<open>buf\<close> is a string of its own, with a zero byte behind its characters.\<close>

definition es_put_mem :: "extent_server \<Rightarrow> u64 \<Rightarrow> byte list \<Rightarrow> mem \<Rightarrow> ((status \<times> extent_server) \<times> mem) result" where
  "es_put_mem es eid buf m =
     (let (cbuf, m) = malloc (Bytes (map Some (buf @ [0]))) m;
          sz = sint (word_of_nat (length buf) :: u32)
      in andThen (write_file_mem (es_im es) (extent_inum eid) cbuf sz m) (\<lambda>(im, m).
         andThen (mfree cbuf m) (\<lambda>m.
         Inr ((OK, es\<lparr>es_im := im\<rparr>), m))))"

definition es_get_mem :: "extent_server \<Rightarrow> u64 \<Rightarrow> mem \<Rightarrow> ((status \<times> byte list \<times> extent_server) \<times> mem) result" where
  "es_get_mem es eid m =
     andThen (read_file_mem (es_im es) (extent_inum eid) m) (\<lambda>(((cbuf, sz), im), m).
       if sz = 0 then Inr ((OK, [], es\<lparr>es_im := im\<rparr>), m)
       else if sz < 0 then Inl LengthError
       else andThen (load_slice (nat sz) 0 cbuf m) (\<lambda>buf.
            andThen (mfree cbuf m) (\<lambda>m.
            Inr ((OK, buf, es\<lparr>es_im := im\<rparr>), m))))"

definition es_getattr_mem :: "extent_server \<Rightarrow> u64 \<Rightarrow> mem \<Rightarrow> ((status \<times> attr) \<times> mem) result" where
  "es_getattr_mem es eid m =
     andThen (getattr_mem (es_im es) (extent_inum eid) zero_attr m) (\<lambda>(a, m). Inr ((OK, a), m))"

definition es_remove_mem :: "extent_server \<Rightarrow> u64 \<Rightarrow> mem \<Rightarrow> ((status \<times> extent_server) \<times> mem) result" where
  "es_remove_mem es eid m =
     andThen (remove_file_mem (es_im es) (extent_inum eid) m) (\<lambda>(im, m).
       Inr ((OK, es\<lparr>es_im := im\<rparr>), m))"

end
