(* ===== verification/Memory_Refine.thy ===== *)
theory Memory_Refine
  imports Inode_Memory
begin

text \<open>
  The methods with their memory do what the methods without it do: whenever one of
  the latter returns, the former returns the same, has used and released only what
  is allocated, and leaves a number of cells behind that is stated exactly.
\<close>

definition follows :: "'a result \<Rightarrow> ('a \<times> mem) result \<Rightarrow> ('a \<Rightarrow> nat) \<Rightarrow> mem \<Rightarrow> bool" where
  "follows r rm n m \<longleftrightarrow> (\<forall>x. r = Inr x \<longrightarrow> (\<exists>m'. rm = Inr (x, m') \<and> grows (n x) m m'))"

lemma followsI: "(\<And>x. r = Inr x \<Longrightarrow> \<exists>m'. rm = Inr (x, m') \<and> grows (n x) m m') \<Longrightarrow> follows r rm n m"
  by (simp add: follows_def)

lemma followsE:
  assumes "follows r rm n m" "r = Inr x"
  obtains m' where "rm = Inr (x, m')" "grows (n x) m m'"
  using assms by (auto simp: follows_def)

section \<open>Loads\<close>

lemma load_bytes_Some [memory]:
  "mem_ok m \<Longrightarrow> cells m p = Some (Bytes (map Some bs)) \<Longrightarrow> load_bytes p m = Inr bs"
  by (simp add: load_bytes_def memory image_iff comp_def)

lemma load_word_Some [memory]:
  "mem_ok m \<Longrightarrow> cells m p = Some (Words (map Some ws)) \<Longrightarrow> i < length ws \<Longrightarrow> load_word i p m = Inr (ws ! i)"
  by (simp add: load_word_def memory)

lemma copy_words_Some:
  "mem_ok m \<Longrightarrow> cells m p = Some (Words ws) \<Longrightarrow> copy_words junk p m = Inr (fill_words ws junk)"
  by (simp add: copy_words_def memory)

text \<open>Inside the buffer a slice is read; behind it there is nothing.\<close>

lemma load_slice_eq:
  assumes "mem_ok m" "cells m p = Some (Bytes (map Some s))"
  shows "load_slice n off p m = (if off + n \<le> length s then Inr (chunk n s off) else Inl HeapOverflow)"
  using assms by (auto simp: load_slice_def memory chunk_def take_map drop_map image_iff comp_def)

lemma load_slice_prefix:
  assumes "mem_ok m" "cells m p = Some (Bytes (map Some c @ rest))" "n \<le> length c"
  shows "load_slice n 0 p m = Inr (take n c)"
  using assms by (simp add: load_slice_def memory take_map image_iff comp_def)

lemma load_node_Some [memory]:
  "mem_ok m \<Longrightarrow> cells m p = Some (Node n) \<Longrightarrow> load_node p m = Inr n"
  by (simp add: load_node_def memory)

text \<open>A block read into a buffer that was just allocated.\<close>

lemma fresh_block:
  assumes ok: "mem_ok m" and p: "malloc_bytes BLOCK_SIZE m = (p, m1)" and c: "bm_read_block bm b = Inr c"
  obtains m2 where "read_into bm b p 0 m1 = Inr m2" "grows 1 m m2" "cells m2 p = Some (Bytes (map Some c))"
    "cells m p = None" "load_bytes p m2 = Inr c"
proof -
  note M = malloc_grows [OF ok p [unfolded malloc_bytes_def]]
  obtain m2 where m2: "mstore p (Bytes (map Some c)) m1 = Inr m2" "grows 1 m m2" "cells m2 = (cells m1)(p \<mapsto> Bytes (map Some c))"
    using mstore_grows [OF M(1-3)] by blast
  have "read_into bm b p 0 m1 = Inr m2"
    using m2(1) by (simp add: read_into_def c mload_Some [OF growsD(2) [OF M(1)] M(2)])
  moreover have "load_bytes p m2 = Inr c"
    using m2(2,3) by (simp add: load_bytes_Some growsD)
  ultimately show ?thesis using m2 M(3) that by simp
qed

section \<open>The block manager\<close>

lemma not_minus_one: "k \<le> unat (BBLOCK (word_of_nat (BLOCK_NUM - 1))) \<Longrightarrow> i < BPB \<Longrightarrow>
    word_of_nat (k * BPB + i) \<noteq> (-1 :: u32)"
proof
  assume k: "k \<le> unat (BBLOCK (word_of_nat (BLOCK_NUM - 1)))" "i < BPB"
    and e: "word_of_nat (k * BPB + i) = (-1 :: u32)"
  from k have "k * BPB + i < 2 ^ 32 - 1" by (simp add: layout)
  moreover have "unat (word_of_nat (k * BPB + i) :: u32) = k * BPB + i"
    using calculation by (intro unat_u32_of_nat) simp
  moreover have "unat (-1 :: u32) = 2 ^ 32 - 1"
    by (simp add: unsigned_minus_1_eq_mask mask_eq_exp_minus_1)
  ultimately show False using e by simp
qed

lemma scan_bits_less: "scan_bits buf i = Some j \<Longrightarrow> j < BPB"
  by (auto simp: scan_bits_find find_Some_iff)

lemma alloc_loop_mem:
  "mem_ok m \<Longrightarrow>
   follows (alloc_loop bm k) (alloc_loop_mem bm k m) (\<lambda>(b, _). if b = -1 then 0 else 1) m"
proof (induction bm k arbitrary: m rule: alloc_loop.induct)
  case (1 bm k)
  let ?last = "unat (BBLOCK (word_of_nat (BLOCK_NUM - 1)))"
  show ?case
  proof (cases "k \<le> ?last")
    case False
    then show ?thesis using 1(2) by (subst alloc_loop.simps, subst alloc_loop_mem.simps) (auto simp: follows_def)
  next
    case True
    show ?thesis
    proof (cases "bm_read_block bm (word_of_nat k)")
      case (Inl f)
      then show ?thesis using True by (subst alloc_loop.simps) (simp add: follows_def)
    next
      case (Inr c)
      obtain p m1 where p: "malloc_bytes BLOCK_SIZE m = (p, m1)" by force
      obtain m2 where m2: "read_into bm (word_of_nat k) p 0 m1 = Inr m2" "grows 1 m m2"
          "cells m2 p = Some (Bytes (map Some c))" "cells m p = None" "load_bytes p m2 = Inr c"
        using fresh_block [OF 1(2) p Inr] .
      show ?thesis
      proof (cases "scan_bits c 0")
        case None
        obtain m3 where m3: "mfree p m2 = Inr m3" "grows 0 m m3"
          using mfree_grows [of 0 m m2 p] m2(2,3,4) by auto
        have IH: "follows (alloc_loop bm (Suc k)) (alloc_loop_mem bm (Suc k) m3) (\<lambda>(b, _). if b = -1 then 0 else 1) m3"
          using 1(1) [OF True Inr None growsD(2) [OF m3(2)]] .
        have "alloc_loop bm k = alloc_loop bm (Suc k)"
          by (subst alloc_loop.simps) (simp only: True Inr None if_True andThen_Inr option.case)
        moreover have "alloc_loop_mem bm k m = alloc_loop_mem bm (Suc k) m3"
          by (subst alloc_loop_mem.simps)
            (simp only: True p m2(1,5) m3(1) None if_True andThen_Inr option.case Let_def prod.case)
        ultimately show ?thesis
          using IH grows_trans [OF m3(2)] by (fastforce simp: follows_def)
      next
        case (Some i)
        define c' where "c' = c[i div 8 := c ! (i div 8) OR push_bit (i mod 8) 1]"
        obtain m3 where m3: "mstore p (Bytes (map Some c')) m2 = Inr m3" "grows 1 m m3"
            "cells m3 = (cells m2)(p \<mapsto> Bytes (map Some c'))"
          using mstore_grows [OF m2(2,3,4)] by blast
        have "load_bytes p m3 = Inr c'" using m3(2,3) by (simp add: load_bytes_Some growsD)
        moreover have "word_of_nat (k * BPB + i) \<noteq> (-1 :: u32)"
          using not_minus_one [OF True scan_bits_less [OF Some]] .
        moreover have "alloc_loop bm k = andThen (bm_write_block bm (word_of_nat k) c') (\<lambda>bm'.
            Inr (word_of_nat (k * BPB + i), bm'))"
          by (subst alloc_loop.simps) (simp only: True Inr Some if_True andThen_Inr option.case c'_def)
        moreover have "alloc_loop_mem bm k m = andThen (mstore p (Bytes (map Some c')) m2) (\<lambda>m.
            andThen (load_bytes p m) (\<lambda>bs. andThen (bm_write_block bm (word_of_nat k) bs) (\<lambda>bm.
            Inr ((word_of_nat (k * BPB + i), bm), m))))"
          by (subst alloc_loop_mem.simps)
            (simp only: True p m2(1,5) Some if_True andThen_Inr option.case Let_def prod.case c'_def)
        ultimately show ?thesis
          using m3(1,2) by (auto simp: follows_def andThen_eq_Inr_iff)
      qed
    qed
  qed
qed

lemma alloc_block_mem:
  "mem_ok m \<Longrightarrow> follows (alloc_block bm) (alloc_block_mem bm m) (\<lambda>(b, _). if b = -1 then 0 else 1) m"
  unfolding alloc_block_def alloc_block_mem_def by (rule alloc_loop_mem)

lemma free_block_mem:
  assumes "mem_ok m"
  shows "follows (free_block bm b) (free_block_mem bm b m) (\<lambda>_. 0) m"
proof (rule followsI)
  fix bm' assume r: "free_block bm b = Inr bm'"
  let ?k = "BBLOCK b - BBLOCK 0" and ?i = "unat (b mod word_of_nat BPB)"
  obtain c where c: "bm_read_block bm ?k = Inr c"
      "bm_write_block bm ?k (c[?i div 8 := c ! (?i div 8) AND NOT (push_bit (?i mod 8) 1)]) = Inr bm'"
    using r by (auto simp: free_block_def Let_def andThen_eq_Inr_iff)
  define c' where "c' = c[?i div 8 := c ! (?i div 8) AND NOT (push_bit (?i mod 8) 1)]"
  obtain p m1 where p: "malloc_bytes BLOCK_SIZE m = (p, m1)" by force
  obtain m2 where m2: "read_into bm ?k p 0 m1 = Inr m2" "grows 1 m m2"
      "cells m2 p = Some (Bytes (map Some c))" "cells m p = None" "load_bytes p m2 = Inr c"
    using fresh_block [OF assms p c(1)] .
  obtain m3 where m3: "mstore p (Bytes (map Some c')) m2 = Inr m3" "grows 1 m m3"
      "cells m3 = (cells m2)(p \<mapsto> Bytes (map Some c'))"
    using mstore_grows [OF m2(2,3,4)] by blast
  have l: "load_bytes p m3 = Inr c'" using m3(2,3) by (simp add: load_bytes_Some growsD)
  obtain m4 where m4: "mfree p m3 = Inr m4" "grows 0 m m4"
    using mfree_grows [of 0 m m3 p] m3(2,3) m2(4) by auto
  show "\<exists>m'. free_block_mem bm b m = Inr (bm', m') \<and> grows 0 m m'"
    using c(2) m4
    by (simp only: free_block_mem_def Let_def p m2 c'_def [symmetric] m3(1) l prod.case andThen_Inr) simp
qed

section \<open>Inodes\<close>

lemma get_inode_mem_None:
  "get_inode im i = Inr None \<Longrightarrow> get_inode_mem im i m = Inr (0, m)"
  by (auto simp: get_inode_def get_inode_mem_def andThen_eq_Inr_iff Let_def split: if_splits)

lemma get_inode_mem_Some:
  assumes "get_inode im i = Inr (Some n)" "mem_ok m"
  obtains p m1 where "get_inode_mem im i m = Inr (p, m1)" "grows 1 m m1" "cells m1 p = Some (Node n)"
    "cells m p = None" "p \<noteq> 0"
proof -
  obtain p m1 where p: "malloc (Node n) m = (p, m1)" by force
  have "get_inode_mem im i m = Inr (p, m1)"
    using assms(1) p by (auto simp: get_inode_def get_inode_mem_def andThen_eq_Inr_iff Let_def split: if_splits)
  then show ?thesis using malloc_grows [OF assms(2) p] that by blast
qed

lemma put_inode_mem:
  assumes "mem_ok m" "cells m p = Some (Node n)"
  shows "put_inode_mem im i p junk m = put_inode im i (Some n)"
proof -
  have "p \<noteq> 0" using assms by (cases p) (auto simp: mem_ok_null)
  then show ?thesis by (simp add: put_inode_mem_def put_inode_def copy_node_def memory assms)
qed

text \<open>The new inode goes to the disk with whatever its array of blocks holds.\<close>

lemma put_raw_inode_mem:
  assumes "mem_ok m" "cells m p = Some (RawNode (Some n))"
  shows "put_inode_mem im i p junk m = put_inode im i (Some (n\<lparr>iblocks := junk\<rparr>))"
proof -
  have "p \<noteq> 0" using assms by (cases p) (auto simp: mem_ok_null)
  then show ?thesis by (simp add: put_inode_mem_def put_inode_def copy_node_def memory assms)
qed

text \<open>Changing and releasing the copy of an inode.\<close>

lemma node_update:
  assumes "grows k m m1" "cells m1 p = Some (Node n)" "cells m p = None"
  obtains m2 where "mstore p (Node n') m1 = Inr m2" "grows k m m2" "cells m2 p = Some (Node n')"
    "mem_ok m2" "cells m2 = (cells m1)(p \<mapsto> Node n')" "load_node p m2 = Inr n'"
proof -
  obtain m2 where m2: "mstore p (Node n') m1 = Inr m2" "grows k m m2" "cells m2 = (cells m1)(p \<mapsto> Node n')"
    using mstore_grows [OF assms] by blast
  then have "load_node p m2 = Inr n'" by (simp add: load_node_Some growsD)
  with m2 show ?thesis using that by (simp add: growsD)
qed

lemma alloc_inode_mem:
  assumes "mem_ok m"
  shows "follows (alloc_inode im t) (alloc_inode_mem im t m) (\<lambda>_. 0) m"
proof (rule followsI)
  fix x assume r: "alloc_inode im t = Inr x"
  obtain junk e1 where j: "env_bytes (4 * (NDIRECT + 1)) (im_env im) = (junk, e1)" by force
  obtain now e2 where t: "env_time e1 = (now, e2)" by force
  let ?n0 = "zero_inode\<lparr>iblocks := bytes_words (NDIRECT + 1) junk\<rparr>"
  define n where "n = ?n0\<lparr>itype := ucast t, isize := 0, iatime := now, imtime := now, ictime := now\<rparr>"
  let ?im = "im\<lparr>im_inum := im_inum im + 1, im_env := e2\<rparr>"
  have n: "n = \<lparr>itype = ucast t, isize = 0, iatime = now, imtime = now, ictime = now,
      iblocks = bytes_words (NDIRECT + 1) junk\<rparr>"
    by (simp add: n_def)
  obtain im' where put: "put_inode ?im (im_inum im + 1) (Some n) = Inr im'" "x = (im_inum im + 1, im')"
    using r unfolding alloc_inode_def Let_def j prod.case t n [symmetric] by (auto simp: andThen_eq_Inr_iff)
  define raw where "raw = \<lparr>itype = ucast t, isize = 0, iatime = now, imtime = now, ictime = now, iblocks = []\<rparr>"
  have raw: "raw\<lparr>iblocks := bytes_words (NDIRECT + 1) junk\<rparr> = n" by (simp add: raw_def n)
  obtain p m1 where p: "malloc (RawNode None) m = (p, m1)" by force
  note M = malloc_grows [OF assms p]
  obtain m2 where m2: "mstore p (RawNode (Some raw)) m1 = Inr m2" "grows 1 m m2"
      "cells m2 = (cells m1)(p \<mapsto> RawNode (Some raw))"
    using mstore_grows [OF M(1,2,3)] by blast
  have c2: "cells m2 p = Some (RawNode (Some raw))" by (simp add: m2(3))
  obtain m3 where m3: "mfree p m2 = Inr m3" "grows 0 m m3"
    using mfree_grows [of 0 m m2 p] m2(2) c2 M(3) by auto
  show "\<exists>m'. alloc_inode_mem im t m = Inr (x, m') \<and> grows 0 m m'"
    using m3(2) put(2)
    unfolding alloc_inode_mem_def Let_def j prod.case t p andThen_Inr raw_def [symmetric] m2(1)
      put_raw_inode_mem [OF growsD(2) [OF m2(2)] c2] raw put(1) m3(1)
    by simp
qed

text \<open>\<open>free_inode\<close> does not release the cleared inode it allocates.\<close>

lemma free_inode_mem:
  assumes "mem_ok m"
  shows "follows (free_inode im i) (free_inode_mem im i m) (\<lambda>_. if get_inode im i = Inr None then 0 else 1) m"
proof (rule followsI)
  fix im' assume r: "free_inode im i = Inr im'"
  then obtain oi where oi: "get_inode im i = Inr oi" by (auto simp: free_inode_def andThen_eq_Inr_iff)
  show "\<exists>m'. free_inode_mem im i m = Inr (im', m') \<and> grows (if get_inode im i = Inr None then 0 else 1) m m'"
  proof (cases oi)
    case None
    then show ?thesis
      using r oi assms by (auto simp: free_inode_def free_inode_mem_def get_inode_mem_None)
  next
    case (Some n)
    obtain p m1 where p: "get_inode_mem im i m = Inr (p, m1)" "grows 1 m m1" "cells m1 p = Some (Node n)"
        "cells m p = None" "p \<noteq> 0"
      using get_inode_mem_Some [OF oi [unfolded Some] assms] .
    obtain m2 where m2: "mfree p m1 = Inr m2" "grows 0 m m2"
      using mfree_grows [of 0 m m1 p] p(2-4) by auto
    obtain q m3 where q: "malloc (Node zero_inode) m2 = (q, m3)" by force
    note M = malloc_grows [OF growsD(2) [OF m2(2)] q]
    have "grows 1 m m3" using grows_trans [OF m2(2) M(1)] by simp
    then show ?thesis
      using r Some
      by (auto simp: free_inode_def free_inode_mem_def oi p(1,5) m2(1) q Let_def andThen_eq_Inr_iff
          load_node_Some [OF growsD(2) [OF M(1)] M(2)])
  qed
qed

lemma getattr_mem:
  assumes "mem_ok m"
  shows "follows (getattr im i a) (getattr_mem im i a m) (\<lambda>_. 0) m"
proof (rule followsI)
  fix x assume r: "getattr im i a = Inr x"
  then obtain oi where oi: "get_inode im i = Inr oi" by (auto simp: getattr_def andThen_eq_Inr_iff)
  show "\<exists>m'. getattr_mem im i a m = Inr (x, m') \<and> grows 0 m m'"
  proof (cases oi)
    case None
    then show ?thesis
      using r oi assms by (auto simp: getattr_def getattr_mem_def get_inode_mem_None)
  next
    case (Some n)
    obtain p m1 where p: "get_inode_mem im i m = Inr (p, m1)" "grows 1 m m1" "cells m1 p = Some (Node n)"
        "cells m p = None" "p \<noteq> 0"
      using get_inode_mem_Some [OF oi [unfolded Some] assms] .
    obtain m2 where m2: "mfree p m1 = Inr m2" "grows 0 m m2"
      using mfree_grows [of 0 m m1 p] p(2-4) by auto
    then show ?thesis
      using r Some
      by (auto simp: getattr_def getattr_mem_def oi p(1,5) load_node_Some [OF growsD(2) [OF p(2)] p(3)])
  qed
qed

end
