(* ===== verification/Memory_Files.thy ===== *)
theory Memory_Files
  imports Memory_Refine
begin

text \<open>
  The loops of read_file, write_file and remove_file with their memory, and the
  cells each of these methods leaves behind.
\<close>

section \<open>Reading\<close>

lemma bm_read_length: "bm_ok bm \<Longrightarrow> bm_read_block bm b = Inr c \<Longrightarrow> length c = BLOCK_SIZE"
  by (auto simp: bm_read_block_def disk_read_block_def bm_ok_def split: if_splits)

text \<open>A block read behind the bytes that the buffer holds already.\<close>

lemma read_into_append:
  assumes "bm_ok bm" "bm_read_block bm b = Inr c" "mem_ok m"
    and "cells m p = Some (Bytes (map Some acc @ rest))" "BLOCK_SIZE \<le> length rest" "n = length acc"
  shows "read_into bm b p n m =
    Inr (m\<lparr>cells := (cells m)(p \<mapsto> Bytes (map Some (acc @ c) @ drop BLOCK_SIZE rest))\<rparr>)"
  using assms by (simp add: read_into_def mstore_def mload_Some)

text \<open>The memory with the buffer \<open>p\<close> filled.\<close>

definition filled :: "nat \<Rightarrow> byte list \<Rightarrow> byte option list \<Rightarrow> mem \<Rightarrow> mem" where
  "filled p acc rest m = m\<lparr>cells := (cells m)(p \<mapsto> Bytes (map Some acc @ rest))\<rparr>"

lemma filled_simps [simp]:
  "cells (filled p acc rest m) p = Some (Bytes (map Some acc @ rest))"
  "q \<noteq> p \<Longrightarrow> cells (filled p acc rest m) q = cells m q"
  "filled p acc' rest' (filled p acc rest m) = filled p acc' rest' m"
  by (simp_all add: filled_def)

lemma filled_ok: "mem_ok m \<Longrightarrow> cells m p \<noteq> None \<Longrightarrow> mem_ok (filled p acc rest m)"
  by (auto simp: mem_ok_def filled_def)

lemma filled_grows:
  assumes "grows k m0 m" "cells m p = Some c" "cells m0 p = None"
  shows "grows k m0 (filled p acc rest m)"
  using mstore_grows [OF assms, of "Bytes (map Some acc @ rest)"]
    mload_Some [OF growsD(2) [OF assms(1)] assms(2)]
  by (auto simp: mstore_def filled_def)

lemma read_direct_mem:
  "bm_ok bm \<Longrightarrow> mem_ok m \<Longrightarrow> cells m ino = Some (Node n) \<Longrightarrow> p \<noteq> ino \<Longrightarrow>
   cells m p = Some (Bytes (map Some acc @ rest)) \<Longrightarrow> int (length acc + length rest) = cap \<Longrightarrow>
   read_size = int (length acc) \<Longrightarrow> read_direct bm (iblocks n) sz cap i read_size acc = Inr (rs, acc') \<Longrightarrow>
   \<exists>rest'. read_direct_mem bm ino sz p i read_size m = Inr (rs, filled p acc' rest' m) \<and>
     int (length acc' + length rest') = cap \<and> rs = int (length acc')"
proof (induction "NDIRECT - i" arbitrary: i read_size acc rest m)
  case (0 i read_size acc rest m)
  have "m = filled p acc rest m" using 0(6) by (simp add: filled_def fun_upd_idem)
  with 0 show ?case
    by (subst read_direct_mem.simps, subst (asm) (2) read_direct.simps) auto
next
  case (Suc k i read_size acc rest m)
  show ?case
  proof (cases "read_size < sz")
    case False
    have "m = filled p acc rest m" using Suc.prems(5) by (simp add: filled_def fun_upd_idem)
    with False Suc.prems show ?thesis
      by (subst read_direct_mem.simps, subst (asm) (2) read_direct.simps) auto
  next
    case True
    have i: "i < NDIRECT" using Suc.hyps(2) by simp
    obtain c where c: "bm_read_block bm (iblocks n ! i) = Inr c" "\<not> cap < read_size + int BLOCK_SIZE"
        "read_direct bm (iblocks n) sz cap (Suc i) (read_size + int BLOCK_SIZE) (acc @ c) = Inr (rs, acc')"
      using Suc.prems(8) True i by (subst (asm) read_direct.simps) (auto simp: andThen_eq_Inr_iff split: if_splits)
    have len: "length c = BLOCK_SIZE" using bm_read_length [OF Suc.prems(1) c(1)] .
    have rest: "BLOCK_SIZE \<le> length rest" using c(2) Suc.prems(6,7) by simp
    let ?m = "filled p (acc @ c) (drop BLOCK_SIZE rest) m"
    have r: "read_into bm (iblocks n ! i) p (nat read_size) m = Inr ?m"
      unfolding filled_def using Suc.prems(7)
      by (intro read_into_append [OF Suc.prems(1) c(1) Suc.prems(2,5) rest]) simp
    have "mem_ok ?m" using filled_ok [OF Suc.prems(2)] Suc.prems(5) by simp
    moreover have "cells ?m ino = Some (Node n)" using Suc.prems(3,4) by simp
    moreover have "int (length (acc @ c) + length (drop BLOCK_SIZE rest)) = cap"
      using Suc.prems(6) len rest by simp
    moreover have "read_size + int BLOCK_SIZE = int (length (acc @ c))" using Suc.prems(7) len by simp
    ultimately have "\<exists>rest'. read_direct_mem bm ino sz p (Suc i) (read_size + int BLOCK_SIZE) ?m =
          Inr (rs, filled p acc' rest' ?m) \<and> int (length acc' + length rest') = cap \<and> rs = int (length acc')"
      using Suc.hyps(1) [of "Suc i" ?m "acc @ c" "drop BLOCK_SIZE rest"] Suc.hyps(2) Suc.prems(1,4) c(3) by simp
    then show ?thesis
      using True i by (subst read_direct_mem.simps) (simp add: load_node_Some [OF Suc.prems(2,3)] r)
  qed
qed

lemma read_indirect_mem:
  "bm_ok bm \<Longrightarrow> mem_ok m \<Longrightarrow> cells m ids = Some (Words (map Some ws)) \<Longrightarrow> length ws = NINDIRECT \<Longrightarrow> p \<noteq> ids \<Longrightarrow>
   cells m p = Some (Bytes (map Some acc @ rest)) \<Longrightarrow> int (length acc + length rest) = cap \<Longrightarrow>
   read_size = int (length acc) \<Longrightarrow> read_indirect bm ws sz cap i read_size acc = Inr acc' \<Longrightarrow>
   \<exists>rest'. read_indirect_mem bm ids sz p i read_size m = Inr (filled p acc' rest' m) \<and> sz \<le> int (length acc')"
proof (induction "NINDIRECT - i" arbitrary: i read_size acc rest m)
  case (0 i read_size acc rest m)
  have "m = filled p acc rest m" using 0(7) by (simp add: filled_def fun_upd_idem)
  with 0 show ?case
    by (subst read_indirect_mem.simps, subst (asm) (2) read_indirect.simps) (auto split: if_splits)
next
  case (Suc k i read_size acc rest m)
  show ?case
  proof (cases "read_size < sz")
    case False
    have "m = filled p acc rest m" using Suc.prems(6) by (simp add: filled_def fun_upd_idem)
    with False Suc.prems show ?thesis
      by (subst read_indirect_mem.simps, subst (asm) (2) read_indirect.simps) auto
  next
    case True
    have i: "i < NINDIRECT" using Suc.hyps(2) by simp
    obtain c where c: "bm_read_block bm (ws ! i) = Inr c" "\<not> cap < read_size + int BLOCK_SIZE"
        "read_indirect bm ws sz cap (Suc i) (read_size + int BLOCK_SIZE) (acc @ c) = Inr acc'"
      using Suc.prems(9) True i by (subst (asm) read_indirect.simps) (auto simp: andThen_eq_Inr_iff split: if_splits)
    have len: "length c = BLOCK_SIZE" using bm_read_length [OF Suc.prems(1) c(1)] .
    have rest: "BLOCK_SIZE \<le> length rest" using c(2) Suc.prems(7,8) by simp
    let ?m = "filled p (acc @ c) (drop BLOCK_SIZE rest) m"
    have r: "read_into bm (ws ! i) p (nat read_size) m = Inr ?m"
      unfolding filled_def using Suc.prems(8)
      by (intro read_into_append [OF Suc.prems(1) c(1) Suc.prems(2,6) rest]) simp
    have "mem_ok ?m" using filled_ok [OF Suc.prems(2)] Suc.prems(6) by simp
    moreover have "cells ?m ids = Some (Words (map Some ws))" using Suc.prems(3,5) by simp
    moreover have "int (length (acc @ c) + length (drop BLOCK_SIZE rest)) = cap"
      using Suc.prems(7) len rest by simp
    moreover have "read_size + int BLOCK_SIZE = int (length (acc @ c))" using Suc.prems(8) len by simp
    ultimately have "\<exists>rest'. read_indirect_mem bm ids sz p (Suc i) (read_size + int BLOCK_SIZE) ?m =
          Inr (filled p acc' rest' ?m) \<and> sz \<le> int (length acc')"
      using Suc.hyps(1) [of "Suc i" ?m "acc @ c" "drop BLOCK_SIZE rest"] Suc.hyps(2) Suc.prems(1,4,5) c(3) by simp
    then show ?thesis
      using True i Suc.prems(4) by (subst read_indirect_mem.simps) (simp add: load_word_Some [OF Suc.prems(2,3)] r)
  qed
qed

lemma read_indirect_limit:
  "read_indirect bm ids sz cap i read_size acc = Inr x \<Longrightarrow> i \<le> NINDIRECT \<Longrightarrow>
   sz \<le> read_size + int BLOCK_SIZE * int (NINDIRECT - i)"
proof (induction "NINDIRECT - i" arbitrary: i read_size acc)
  case 0
  then show ?case by (subst (asm) read_indirect.simps) (auto split: if_splits)
next
  case (Suc k)
  show ?case
  proof (cases "read_size < sz")
    case True
    then obtain c where "read_indirect bm ids sz cap (Suc i) (read_size + int BLOCK_SIZE) (acc @ c) = Inr x" "i < NINDIRECT"
      using Suc.prems(1) by (subst (asm) read_indirect.simps) (auto simp: andThen_eq_Inr_iff split: if_splits)
    then have "sz \<le> read_size + int BLOCK_SIZE + int BLOCK_SIZE * int (NINDIRECT - Suc i)"
      using Suc.hyps by (metis Suc_leI diff_Suc_Suc diff_diff_left Suc_diff_Suc nat.inject)
    moreover have "int (NINDIRECT - i) = 1 + int (NINDIRECT - Suc i)" using Suc.hyps(2) by linarith
    ultimately show ?thesis by (simp add: algebra_simps)
  next
    case False
    then show ?thesis by (simp add: add_increasing2)
  qed
qed

definition indirect_cells :: "int \<Rightarrow> nat" where
  "indirect_cells sz = (if NDIRECT < nblk sz then 1 else 0)"

text \<open>What the direct loop leaves to the indirect one.\<close>

lemma direct_size: "int BLOCK_SIZE * int (min (nblk sz) NDIRECT) < sz \<longleftrightarrow> NDIRECT < nblk sz"
  by (simp add: nblk_less [symmetric] min_less_iff_conj del: of_nat_min) linarith

lemma capacity_covers: "0 \<le> sz \<Longrightarrow> int BLOCK_SIZE * int (nblk sz) \<le> (sz div int BLOCK_SIZE + 1) * int BLOCK_SIZE"
proof -
  assume "0 \<le> sz"
  then have "512 * int (nblk sz) < sz + 512" using nblk_bound [of sz] by (simp add: layout)
  then have "int (nblk sz) \<le> sz div 512 + 1"
    using div_mult_mod_eq [of sz 512] pos_mod_bound [of 512 sz] by linarith
  then show ?thesis by (simp add: layout)
qed

lemma read_direct_size:
  assumes "read_direct bm bl sz ((sz div int BLOCK_SIZE + 1) * int BLOCK_SIZE) 0 0 [] = Inr (rs, b)" "0 \<le> sz"
  shows "rs = int BLOCK_SIZE * int (min (nblk sz) NDIRECT)"
  using trans [OF sym [OF read_direct_eq [OF capacity_covers [OF assms(2)], of 0 bm bl "[]", simplified]] assms(1)]
  by (auto simp: andThen_eq_Inr_iff)

lemma read_blocks_limit:
  assumes "read_blocks bm n sz = Inr c" "0 \<le> sz"
  shows "nblk sz \<le> MAXFILE"
proof (rule ccontr)
  assume big: "\<not> nblk sz \<le> MAXFILE"
  then have ind: "NDIRECT < nblk sz" by (simp add: MAXFILE_def)
  obtain rs b where d: "read_direct bm (iblocks n) sz ((sz div int BLOCK_SIZE + 1) * int BLOCK_SIZE) 0 0 [] = Inr (rs, b)"
    using assms(1) by (auto simp: read_blocks_def andThen_eq_Inr_iff Let_def)
  have rs: "rs = int BLOCK_SIZE * int (min (nblk sz) NDIRECT)"
    by (rule read_direct_size [OF d assms(2)])
  have "rs < sz" unfolding rs using ind by (simp only: direct_size)
  then obtain ids where "read_indirect bm ids sz ((sz div int BLOCK_SIZE + 1) * int BLOCK_SIZE) 0 rs b = Inr c"
    using assms(1) d by (auto simp: read_blocks_def andThen_eq_Inr_iff Let_def)
  then have "sz \<le> rs + int BLOCK_SIZE * int NINDIRECT"
    using read_indirect_limit by fastforce
  then have "sz \<le> int BLOCK_SIZE * int MAXFILE"
    using ind rs by (simp add: MAXFILE_def algebra_simps)
  with big show False by (simp add: nblk_MAXFILE mult.commute)
qed

lemma read_blocks_mem:
  assumes bm: "bm_ok bm" and g: "grows k m0 m" and ino: "cells m ino = Some (Node n)"
    and p: "cells m p = Some (Bytes (replicate (nat cap) None))" "p \<noteq> ino" "cells m0 p = None"
    and r: "read_blocks bm n sz = Inr c" "0 \<le> sz" "cap = (sz div int BLOCK_SIZE + 1) * int BLOCK_SIZE"
  obtains m' rest where "read_blocks_mem bm ino sz p m = Inr m'" "cells m' p = Some (Bytes (map Some c @ rest))"
    "grows (k + indirect_cells sz) m0 m'" "cells m' ino = Some (Node n)" "sz \<le> int (length c)"
proof -
  have cap: "0 \<le> cap" using r(2,3) by (simp add: layout)
  obtain rs b where d: "read_direct bm (iblocks n) sz cap 0 0 [] = Inr (rs, b)"
    using r(1,3) by (auto simp: read_blocks_def andThen_eq_Inr_iff Let_def)
  have rs: "rs = int BLOCK_SIZE * int (min (nblk sz) NDIRECT)"
    by (rule read_direct_size [OF d [unfolded r(3)] r(2)])
  have less: "rs < sz \<longleftrightarrow> NDIRECT < nblk sz" unfolding rs by (rule direct_size)
  note ok = growsD(2) [OF g]
  obtain rest1 where d': "read_direct_mem bm ino sz p 0 0 m = Inr (rs, filled p b rest1 m)"
      "int (length b + length rest1) = cap" "rs = int (length b)"
    using read_direct_mem [OF bm ok ino p(2), of "[]" "replicate (nat cap) None" cap 0 sz 0 rs b] p(1) cap d by auto
  let ?m1 = "filled p b rest1 m"
  have g1: "grows k m0 ?m1" by (rule filled_grows [OF g p(1,3)])
  have ino1: "cells ?m1 ino = Some (Node n)" using ino p(2) by simp
  show ?thesis
  proof (cases "rs < sz")
    case False
    then have "read_blocks_mem bm ino sz p m = Inr ?m1" "c = b" "indirect_cells sz = 0"
      using r(1,3) d d'(1) less by (auto simp: read_blocks_mem_def read_blocks_def indirect_cells_def Let_def)
    then show ?thesis using that [of ?m1 rest1] g1 ino1 False d'(3) by simp
  next
    case True
    obtain w where w: "bm_read_block bm (iblocks n ! NDIRECT) = Inr w"
        "read_indirect bm (bytes_words NINDIRECT w) sz cap 0 rs b = Inr c"
      using r(1,3) d True by (auto simp: read_blocks_def andThen_eq_Inr_iff Let_def)
    obtain q m2 where q: "malloc (Words (map Some (bytes_words NINDIRECT w))) ?m1 = (q, m2)" by force
    note M = malloc_grows [OF growsD(2) [OF g1] q]
    have pq: "cells m2 p = Some (Bytes (map Some b @ rest1))" "p \<noteq> q"
      using growsD(3) [OF M(1)] M(3) by auto
    have g2: "grows (k + 1) m0 m2" using grows_trans [OF g1 M(1)] .
    obtain rest2 where ind: "read_indirect_mem bm q sz p 0 rs m2 = Inr (filled p c rest2 m2)" "sz \<le> int (length c)"
      using read_indirect_mem [OF bm growsD(2) [OF M(1)] M(2) length_bytes_words pq(2) pq(1) d'(2,3) w(2)] by blast
    have "read_blocks_mem bm ino sz p m = Inr (filled p c rest2 m2)"
      using True by (simp add: read_blocks_mem_def d'(1) load_node_Some [OF growsD(2) [OF g1] ino1] malloc_ids_def w(1) q ind)
    moreover have "grows (k + indirect_cells sz) m0 (filled p c rest2 m2)"
      using filled_grows [OF g2 pq(1) p(3)] True less by (simp add: indirect_cells_def)
    moreover have "cells m2 ino = Some (Node n)" using growsD(3) [OF M(1) ino1] .
    ultimately show ?thesis using that ind(2) p(2) by auto
  qed
qed

lemma sint_of_int_u32: "0 \<le> x \<Longrightarrow> x < 2 ^ 31 \<Longrightarrow> sint (word_of_int x :: u32) = x"
  by (simp add: sint_small uint_word_of_int)

lemma read_capacity:
  assumes "0 \<le> sz" "nblk sz \<le> MAXFILE"
  shows "read_capacity sz = (sz div int BLOCK_SIZE + 1) * int BLOCK_SIZE"
proof -
  have sz: "sz \<le> 116736" using assms(2) unfolding nblk_MAXFILE by (simp add: layout)
  have "sz sdiv 512 = sz div 512" using assms(1) by (cases "sz = 0") (simp_all add: signed_divide_int_def)
  moreover have "(sz div 512 + 1) * 512 < 2 ^ 31" "0 \<le> (sz div 512 + 1) * 512"
    using sz assms(1) by simp_all
  ultimately show ?thesis
    using sint_of_int_u32 [of "(sz div 512 + 1) * 512"] by (simp only: read_capacity_def layout of_nat_numeral)
qed

lemma read_file_mem:
  assumes ok: "mem_ok m" and bm: "bm_ok (im_bm im)" and r: "read_file im i = Inr ((c, sz), im')" "0 \<le> sz"
  obtains p m' rest where "read_file_mem im i m = Inr (((p, sz), im'), m')"
    "cells m' p = Some (Bytes (map Some c @ rest))" "cells m p = None"
    "grows (1 + indirect_cells sz) m m'" "sz \<le> int (length c)"
proof -
  obtain n where n: "get_inode im i = Inr (Some n)"
    using r(1) by (auto simp: read_file_def andThen_eq_Inr_iff split: option.splits)
  obtain now e where t: "env_time (im_env im) = (now, e)" by force
  have rd: "read_blocks (im_bm im) n sz = Inr c" "sz = sint (isize n)"
      "put_inode (im\<lparr>im_env := e\<rparr>) i (Some (n\<lparr>iatime := now\<rparr>)) = Inr im'"
    using r(1) by (auto simp: read_file_def andThen_eq_Inr_iff n t Let_def)
  let ?cap = "(sz div int BLOCK_SIZE + 1) * int BLOCK_SIZE"
  have cap: "read_capacity sz = ?cap" "\<not> ?cap < 0"
    using read_capacity [OF r(2) read_blocks_limit [OF rd(1) r(2)]] r(2) by (auto simp: layout)
  obtain q m1 where q: "get_inode_mem im i m = Inr (q, m1)" "grows 1 m m1" "cells m1 q = Some (Node n)"
      "cells m q = None" "q \<noteq> 0"
    using get_inode_mem_Some [OF n ok] .
  obtain p m2 where p: "malloc_bytes (nat ?cap) m1 = (p, m2)" by force
  note M = malloc_grows [OF growsD(2) [OF q(2)] p [unfolded malloc_bytes_def]]
  have g2: "grows 2 m m2" using grows_trans [OF q(2) M(1)] by (simp add: numeral_2_eq_2)
  have pm: "cells m p = None" using M(3) growsD(3) [OF q(2), of p] by (cases "cells m p") auto
  have pq: "p \<noteq> q" using M(3) q(3) by auto
  have q2: "cells m2 q = Some (Node n)" using growsD(3) [OF M(1) q(3)] .
  obtain m3 rest where b: "read_blocks_mem (im_bm im) q sz p m2 = Inr m3"
      "cells m3 p = Some (Bytes (map Some c @ rest))" "grows (2 + indirect_cells sz) m m3"
      "cells m3 q = Some (Node n)" "sz \<le> int (length c)"
    using read_blocks_mem [OF bm g2 q2 M(2) pq pm rd(1) r(2) refl] .
  obtain m4 where m4: "mstore q (Node (n\<lparr>iatime := now\<rparr>)) m3 = Inr m4" "grows (2 + indirect_cells sz) m m4"
      "cells m4 q = Some (Node (n\<lparr>iatime := now\<rparr>))" "mem_ok m4" "cells m4 = (cells m3)(q \<mapsto> Node (n\<lparr>iatime := now\<rparr>))"
    using node_update [OF b(3,4) q(4)] .
  have "grows (Suc (1 + indirect_cells sz)) m m4" using m4(2) by (simp add: numeral_2_eq_2)
  then obtain m5 where m5: "mfree q m4 = Inr m5" "grows (1 + indirect_cells sz) m m5" "cells m5 = (cells m4)(q := None)"
    using mfree_grows [OF _ m4(3) q(4)] by blast
  have "read_file_mem im i m = Inr (((p, sz), im'), m5)"
    unfolding read_file_mem_def q(1) andThen_Inr prod.case load_node_Some [OF growsD(2) [OF q(2)] q(3)]
      rd(2) [symmetric] Let_def cap(1)
    using cap(2)
    by (simp add: p b(1) t load_node_Some [OF growsD(2) [OF b(3)] b(4)] m4(1) put_inode_mem [OF m4(4,3)] rd(3) m5(1))
  moreover have "cells m5 p = Some (Bytes (map Some c @ rest))" using m5(3) m4(5) b(2) pq by simp
  ultimately show ?thesis using that pm m5(2) b(5) by blast
qed

section \<open>Returning blocks\<close>

lemma free_direct_mem:
  "mem_ok m \<Longrightarrow> cells m ino = Some (Node n) \<Longrightarrow> free_direct bm (iblocks n) sz i fs = Inr x \<Longrightarrow>
   \<exists>m'. free_direct_mem bm ino sz i fs m = Inr (x, m') \<and> grows 0 m m'"
proof (induction "NDIRECT - i" arbitrary: i fs bm m)
  case 0
  then show ?case
    by (subst free_direct_mem.simps, subst (asm) (2) free_direct.simps) auto
next
  case (Suc k)
  show ?case
  proof (cases "fs < sz")
    case False
    then show ?thesis
      using Suc.prems by (subst free_direct_mem.simps, subst (asm) free_direct.simps) auto
  next
    case True
    have i: "i < NDIRECT" using Suc.hyps(2) by simp
    obtain bm1 where f: "free_block bm (iblocks n ! i) = Inr bm1"
        "free_direct bm1 (iblocks n) sz (Suc i) (fs + int BLOCK_SIZE) = Inr x"
      using Suc.prems(3) True i by (subst (asm) free_direct.simps) (auto simp: andThen_eq_Inr_iff)
    obtain m1 where m1: "free_block_mem bm (iblocks n ! i) m = Inr (bm1, m1)" "grows 0 m m1"
      using free_block_mem [OF Suc.prems(1)] f(1) by (rule followsE)
    obtain m2 where "free_direct_mem bm1 ino sz (Suc i) (fs + int BLOCK_SIZE) m1 = Inr (x, m2)" "grows 0 m1 m2"
      using Suc.hyps(1) [of "Suc i" m1 bm1] Suc.hyps(2) growsD(2,3) [OF m1(2)] Suc.prems(2) f(2) by fastforce
    then show ?thesis
      using True i grows_trans [OF m1(2)]
      by (subst free_direct_mem.simps) (auto simp: load_node_Some [OF Suc.prems(1,2)] m1(1))
  qed
qed

lemma free_indirect_mem:
  "mem_ok m \<Longrightarrow> cells m ids = Some (Words (map Some ws)) \<Longrightarrow> length ws = NINDIRECT \<Longrightarrow> free_indirect bm ws sz i fs = Inr x \<Longrightarrow>
   \<exists>m'. free_indirect_mem bm ids sz i fs m = Inr (x, m') \<and> grows 0 m m'"
proof (induction "NINDIRECT - i" arbitrary: i fs bm m)
  case 0
  then show ?case
    by (subst free_indirect_mem.simps, subst (asm) (2) free_indirect.simps) (auto split: if_splits)
next
  case (Suc k)
  show ?case
  proof (cases "fs < sz")
    case False
    then show ?thesis
      using Suc.prems by (subst free_indirect_mem.simps, subst (asm) free_indirect.simps) auto
  next
    case True
    have i: "i < NINDIRECT" using Suc.hyps(2) by simp
    obtain bm1 where f: "free_block bm (ws ! i) = Inr bm1"
        "free_indirect bm1 ws sz (Suc i) (fs + int BLOCK_SIZE) = Inr x"
      using Suc.prems(4) True i by (subst (asm) free_indirect.simps) (auto simp: andThen_eq_Inr_iff)
    obtain m1 where m1: "free_block_mem bm (ws ! i) m = Inr (bm1, m1)" "grows 0 m m1"
      using free_block_mem [OF Suc.prems(1)] f(1) by (rule followsE)
    obtain m2 where "free_indirect_mem bm1 ids sz (Suc i) (fs + int BLOCK_SIZE) m1 = Inr (x, m2)" "grows 0 m1 m2"
      using Suc.hyps(1) [of "Suc i" m1 bm1] Suc.hyps(2) growsD(2,3) [OF m1(2)] Suc.prems(2,3) f(2) by fastforce
    then show ?thesis
      using True i grows_trans [OF m1(2)]
      by (subst free_indirect_mem.simps) (auto simp: load_word_Some [OF Suc.prems(1,2)] Suc.prems(3) m1(1))
  qed
qed

lemma free_direct_size:
  assumes "free_direct bm bl sz 0 0 = Inr (fs, bm')"
  shows "fs < sz \<longleftrightarrow> NDIRECT < nblk sz"
proof -
  have "fs = int BLOCK_SIZE * int (min (nblk sz) NDIRECT)"
    using trans [OF sym [OF free_direct_eq [of 0 sz bm bl, simplified]] assms] by (auto simp: andThen_eq_Inr_iff)
  then show ?thesis by (simp only: direct_size)
qed

text \<open>The buffer of the indirect block is not released.\<close>

lemma free_blocks_mem:
  assumes ok: "mem_ok m" and ino: "cells m ino = Some (Node n)" and r: "free_blocks bm n sz = Inr bm'"
  obtains m' where "free_blocks_mem bm ino sz m = Inr (bm', m')" "grows (indirect_cells sz) m m'"
    "cells m' ino = Some (Node n)"
proof -
  obtain fs bm1 where d: "free_direct bm (iblocks n) sz 0 0 = Inr (fs, bm1)"
    using r by (auto simp: free_blocks_def andThen_eq_Inr_iff)
  obtain m1 where m1: "free_direct_mem bm ino sz 0 0 m = Inr ((fs, bm1), m1)" "grows 0 m m1"
    using free_direct_mem [OF ok ino d] by blast
  have ino1: "cells m1 ino = Some (Node n)" using growsD(3) [OF m1(2) ino] .
  show ?thesis
  proof (cases "fs < sz")
    case False
    then have "free_blocks_mem bm ino sz m = Inr (bm', m1)" "indirect_cells sz = 0"
      using r d m1(1) free_direct_size [OF d] by (auto simp: free_blocks_def free_blocks_mem_def indirect_cells_def)
    then show ?thesis using that m1(2) ino1 by simp
  next
    case True
    let ?b = "iblocks n ! NDIRECT"
    obtain w bm2 where w: "bm_read_block bm1 ?b = Inr w"
        "free_indirect bm1 (bytes_words NINDIRECT w) sz 0 fs = Inr bm2" "free_block bm2 ?b = Inr bm'"
      using r d True by (auto simp: free_blocks_def andThen_eq_Inr_iff Let_def)
    obtain q m2 where q: "malloc (Words (map Some (bytes_words NINDIRECT w))) m1 = (q, m2)" by force
    note M = malloc_grows [OF growsD(2) [OF m1(2)] q]
    obtain m3 where m3: "free_indirect_mem bm1 q sz 0 fs m2 = Inr (bm2, m3)" "grows 0 m2 m3"
      using free_indirect_mem [OF growsD(2) [OF M(1)] M(2) length_bytes_words w(2)] by blast
    obtain m4 where m4: "free_block_mem bm2 ?b m3 = Inr (bm', m4)" "grows 0 m3 m4"
      using free_block_mem [OF growsD(2) [OF m3(2)]] w(3) by (rule followsE)
    have g: "grows 1 m m4"
      using grows_trans [OF grows_trans [OF grows_trans [OF m1(2) M(1)] m3(2)] m4(2)] by simp
    moreover have "free_blocks_mem bm ino sz m = Inr (bm', m4)"
      using True by (simp add: free_blocks_mem_def m1(1) load_node_Some [OF growsD(2) [OF m1(2)] ino1]
        malloc_ids_def w(1) q m3(1) m4(1) Let_def)
    moreover have "indirect_cells sz = 1" using True free_direct_size [OF d] by (simp add: indirect_cells_def)
    ultimately show ?thesis using that growsD(3) [OF g ino] by simp
  qed
qed

section \<open>Writing\<close>

lemma written_block: "bm_write_block bm b buf = Inr bm' \<Longrightarrow> b \<noteq> -1"
  by (auto simp: bm_write_block_def disk_write_block_def layout unsigned_minus_1_eq_mask mask_eq_exp_minus_1 split: if_splits)

text \<open>Every block that is allocated costs the buffer in which the bitmap was changed.\<close>

lemma alloc_written:
  assumes "grows k m0 m" "alloc_block bm = Inr (b, bm1)" "bm_write_block bm1 b buf = Inr bm2"
  obtains m1 where "alloc_block_mem bm m = Inr ((b, bm1), m1)" "grows (k + 1) m0 m1" "grows 1 m m1"
proof -
  obtain m1 where m1: "alloc_block_mem bm m = Inr ((b, bm1), m1)" "grows (case (b, bm1) of (b, _) \<Rightarrow> if b = -1 then 0 else 1) m m1"
    using alloc_block_mem [OF growsD(2) [OF assms(1)]] assms(2) by (rule followsE)
  have g: "grows 1 m m1" using m1(2) written_block [OF assms(3)] by simp
  show ?thesis by (rule that [OF m1(1) grows_trans [OF assms(1) g] g])
qed

text \<open>
  \<open>s\<close> is the string that is written.  The model without memory reads on in \<open>tail\<close> behind
  its end; here that is a fault, and the only one.
\<close>

lemma load_string:
  assumes "grows k m0 m" "cells m0 ps = Some (Bytes (map Some s))"
  shows "load_slice BLOCK_SIZE off ps m =
    (if off + BLOCK_SIZE \<le> length s then Inr (chunk BLOCK_SIZE (s @ tail) off) else Inl HeapOverflow)"
  using load_slice_eq [OF growsD(2) [OF assms(1)] growsD(3) [OF assms]] by (simp add: chunk_def)

lemma block_fits: "nat (int BLOCK_SIZE * int i) + BLOCK_SIZE \<le> n \<longleftrightarrow> BLOCK_SIZE * Suc i \<le> n"
  by (simp add: nat_mult_distrib add.commute)

lemma fits_less: "i < k \<Longrightarrow> BLOCK_SIZE * k \<le> n \<Longrightarrow> BLOCK_SIZE * Suc i \<le> (n :: nat)"
  by (meson Suc_leI le_trans mult_le_mono2)

lemma write_direct_mem:
  "grows k m0 m \<Longrightarrow> cells m0 ino = None \<Longrightarrow> cells m ino = Some (Node n) \<Longrightarrow>
   cells m0 ps = Some (Bytes (map Some s)) \<Longrightarrow> i \<le> NDIRECT \<Longrightarrow> i \<le> nblk sz \<Longrightarrow> BLOCK_SIZE * i \<le> length s \<Longrightarrow>
   write_direct bm (iblocks n) (s @ tail) sz i (int BLOCK_SIZE * int i) = Inr (ws, bl, bm') \<Longrightarrow>
   (if BLOCK_SIZE * min (nblk sz) NDIRECT \<le> length s
    then \<exists>m'. write_direct_mem bm ino ps sz i (int BLOCK_SIZE * int i) m = Inr ((ws, bm'), m') \<and>
      grows (k + (min (nblk sz) NDIRECT - i)) m0 m' \<and> cells m' ino = Some (Node (n\<lparr>iblocks := bl\<rparr>))
    else write_direct_mem bm ino ps sz i (int BLOCK_SIZE * int i) m = Inl HeapOverflow)"
proof (induction "NDIRECT - i" arbitrary: k i n bm m)
  case 0
  then have "min (nblk sz) NDIRECT = i" by simp
  then show ?case
    using 0 by (subst write_direct_mem.simps, subst (asm) (2) write_direct.simps) auto
next
  case (Suc d)
  show ?case
  proof (cases "i < nblk sz")
    case False
    then have i: "i = nblk sz" using Suc.prems(6) by simp
    then have "min (nblk sz) NDIRECT = i" using Suc.prems(5) by simp
    then show ?thesis
      using Suc.prems i by (subst write_direct_mem.simps, subst (asm) write_direct.simps) (auto simp: nblk_less [symmetric])
  next
    case True
    have i: "i < NDIRECT" using Suc.hyps(2) by simp
    have less: "int BLOCK_SIZE * int i < sz" using True by (simp only: nblk_less)
    obtain b bm1 bm2 where w: "alloc_block bm = Inr (b, bm1)"
        "bm_write_block bm1 b (chunk BLOCK_SIZE (s @ tail) (nat (int BLOCK_SIZE * int i))) = Inr bm2"
        "write_direct bm2 ((iblocks n)[i := b]) (s @ tail) sz (Suc i) (int BLOCK_SIZE * int i + int BLOCK_SIZE) = Inr (ws, bl, bm')"
      using Suc.prems(8) less i by (subst (asm) write_direct.simps) (auto simp: andThen_eq_Inr_iff)
    obtain m1 where m1: "alloc_block_mem bm m = Inr ((b, bm1), m1)" "grows (k + 1) m0 m1" "grows 1 m m1"
      using alloc_written [OF Suc.prems(1) w(1,2)] .
    let ?n = "n\<lparr>iblocks := (iblocks n)[i := b]\<rparr>"
    have n1: "cells m1 ino = Some (Node n)" using growsD(3) [OF m1(3) Suc.prems(3)] .
    obtain m2 where m2: "mstore ino (Node ?n) m1 = Inr m2" "grows (k + 1) m0 m2" "cells m2 ino = Some (Node ?n)"
      using node_update [OF m1(2) n1 Suc.prems(2)] .
    note ld = load_string [OF m2(2) Suc.prems(4), of "nat (int BLOCK_SIZE * int i)" tail, unfolded block_fits]
    have step: "write_direct_mem bm ino ps sz i (int BLOCK_SIZE * int i) m =
        (if BLOCK_SIZE * Suc i \<le> length s
         then write_direct_mem bm2 ino ps sz (Suc i) (int BLOCK_SIZE * int (Suc i)) m2 else Inl HeapOverflow)"
      using less i by (subst write_direct_mem.simps)
        (simp add: m1(1) load_node_Some [OF growsD(2) [OF m1(2)] n1] m2(1) ld w(2) block_step del: of_nat_Suc mult_Suc_right)
    show ?thesis
    proof (cases "BLOCK_SIZE * Suc i \<le> length s")
      case False
      moreover have "\<not> BLOCK_SIZE * min (nblk sz) NDIRECT \<le> length s"
        using False fits_less [of i "min (nblk sz) NDIRECT" "length s"] True i by auto
      ultimately show ?thesis using step by (simp only: if_False)
    next
      case fits: True
      have facts: "d = NDIRECT - Suc i" "Suc i \<le> NDIRECT" "Suc i \<le> nblk sz"
        using Suc.hyps(2) True i by auto
      have "write_direct bm2 (iblocks ?n) (s @ tail) sz (Suc i) (int BLOCK_SIZE * int (Suc i)) = Inr (ws, bl, bm')"
        using w(3) by (simp add: block_step del: of_nat_Suc)
      note IH = Suc.hyps(1) [OF facts(1) m2(2) Suc.prems(2) m2(3) Suc.prems(4) facts(2,3) fits this]
      have e: "k + 1 + (min (nblk sz) NDIRECT - Suc i) = k + (min (nblk sz) NDIRECT - i)" using True i by simp
      have u: "?n\<lparr>iblocks := bl\<rparr> = n\<lparr>iblocks := bl\<rparr>" by simp
      have "write_direct_mem bm ino ps sz i (int BLOCK_SIZE * int i) m =
          write_direct_mem bm2 ino ps sz (Suc i) (int BLOCK_SIZE * int (Suc i)) m2"
        using step fits by (simp only: if_True)
      then show ?thesis using IH unfolding e u by (simp only:)
    qed
  qed
qed

text \<open>
  The buffer of block numbers is written number by number; with the numbers that it does not
  hold yet it is what the model without memory starts from.
\<close>

lemma fill_words_update:
  assumes "length wo = length junk"
  shows "fill_words (wo[i := Some b]) junk = (fill_words wo junk)[i := b]"
proof (cases "i < length wo")
  case True
  then show ?thesis using assms by (intro nth_equalityI) (simp_all add: fill_words_def nth_list_update)
next
  case False
  then show ?thesis using assms by (simp add: fill_words_def list_update_beyond)
qed

lemma length_fill_words [simp]: "length (fill_words wo junk) = min (length wo) (length junk)"
  by (simp add: fill_words_def)

lemma fill_words_None: "fill_words (replicate (length junk) None) junk = junk"
  by (intro nth_equalityI) (auto simp: fill_words_def)

lemma store_word_grows:
  assumes "grows k m m1" "cells m1 p = Some (Words wo)" "cells m p = None" "i < length wo"
  obtains m2 where "store_word i b p m1 = Inr m2" "grows k m m2" "cells m2 p = Some (Words (wo[i := Some b]))"
proof -
  obtain m2 where m2: "mstore p (Words (wo[i := Some b])) m1 = Inr m2" "grows k m m2"
      "cells m2 = (cells m1)(p \<mapsto> Words (wo[i := Some b]))"
    using mstore_grows [OF assms(1-3)] by blast
  moreover have "store_word i b p m1 = Inr m2"
    using assms(4) m2(1) by (simp add: store_word_def mload_Some [OF growsD(2) [OF assms(1)] assms(2)])
  ultimately show ?thesis using that by simp
qed

lemma write_indirect_mem:
  "grows k m0 m \<Longrightarrow> cells m0 p = None \<Longrightarrow> cells m p = Some (Words wo) \<Longrightarrow>
   length wo = NINDIRECT \<Longrightarrow> length junk = NINDIRECT \<Longrightarrow>
   cells m0 ps = Some (Bytes (map Some s)) \<Longrightarrow> i \<le> NINDIRECT \<Longrightarrow> NDIRECT + i \<le> nblk sz \<Longrightarrow>
   BLOCK_SIZE * (NDIRECT + i) \<le> length s \<Longrightarrow>
   write_indirect bm (fill_words wo junk) (s @ tail) sz i (int BLOCK_SIZE * int (NDIRECT + i)) = Inr (ids', bm') \<Longrightarrow>
   (if BLOCK_SIZE * nblk sz \<le> length s
    then \<exists>m' wo'. write_indirect_mem bm p ps sz i (int BLOCK_SIZE * int (NDIRECT + i)) m = Inr (bm', m') \<and>
      grows (k + (nblk sz - (NDIRECT + i))) m0 m' \<and> cells m' p = Some (Words wo') \<and> fill_words wo' junk = ids'
    else write_indirect_mem bm p ps sz i (int BLOCK_SIZE * int (NDIRECT + i)) m = Inl HeapOverflow)"
proof (induction "NINDIRECT - i" arbitrary: k i wo bm m)
  case 0
  then have i: "i = NINDIRECT" by simp
  have "\<not> NDIRECT + i < nblk sz"
    using 0(11) unfolding i by (subst (asm) write_indirect.simps)
      (auto simp: nblk_less [symmetric] andThen_eq_Inr_iff split: if_splits simp del: of_nat_add)
  then have "nblk sz = NDIRECT + i" using 0(9) by simp
  then show ?case
    using 0 by (subst write_indirect_mem.simps, subst (asm) (2) write_indirect.simps)
      (auto simp: nblk_less [symmetric] simp del: of_nat_add)
next
  case (Suc d)
  show ?case
  proof (cases "NDIRECT + i < nblk sz")
    case False
    then have "nblk sz = NDIRECT + i" using Suc.prems(8) by simp
    then show ?thesis
      using Suc.prems by (subst write_indirect_mem.simps, subst (asm) write_indirect.simps)
        (auto simp: nblk_less [symmetric] simp del: of_nat_add)
  next
    case True
    have i: "i < NINDIRECT" using Suc.hyps(2) by simp
    have less: "int BLOCK_SIZE * int (NDIRECT + i) < sz" using True by (simp only: nblk_less)
    obtain b bm1 bm2 where w: "alloc_block bm = Inr (b, bm1)"
        "bm_write_block bm1 b (chunk BLOCK_SIZE (s @ tail) (nat (int BLOCK_SIZE * int (NDIRECT + i)))) = Inr bm2"
        "write_indirect bm2 ((fill_words wo junk)[i := b]) (s @ tail) sz (Suc i)
           (int BLOCK_SIZE * int (NDIRECT + i) + int BLOCK_SIZE) = Inr (ids', bm')"
      using Suc.prems(10) less i by (subst (asm) write_indirect.simps) (auto simp: andThen_eq_Inr_iff)
    obtain m1 where m1: "alloc_block_mem bm m = Inr ((b, bm1), m1)" "grows (k + 1) m0 m1" "grows 1 m m1"
      using alloc_written [OF Suc.prems(1) w(1,2)] .
    have n1: "cells m1 p = Some (Words wo)" using growsD(3) [OF m1(3) Suc.prems(3)] .
    obtain m2 where m2: "store_word i b p m1 = Inr m2" "grows (k + 1) m0 m2"
        "cells m2 p = Some (Words (wo[i := Some b]))"
      using store_word_grows [OF m1(2) n1 Suc.prems(2)] i Suc.prems(4) by metis
    note ld = load_string [OF m2(2) Suc.prems(6), of "nat (int BLOCK_SIZE * int (NDIRECT + i))" tail, unfolded block_fits]
    have step: "write_indirect_mem bm p ps sz i (int BLOCK_SIZE * int (NDIRECT + i)) m =
        (if BLOCK_SIZE * Suc (NDIRECT + i) \<le> length s
         then write_indirect_mem bm2 p ps sz (Suc i) (int BLOCK_SIZE * int (NDIRECT + Suc i)) m2 else Inl HeapOverflow)"
      using less i by (subst write_indirect_mem.simps)
        (simp add: m1(1) m2(1) ld w(2) block_step del: of_nat_Suc of_nat_add mult_Suc_right)
    show ?thesis
    proof (cases "BLOCK_SIZE * Suc (NDIRECT + i) \<le> length s")
      case False
      moreover have "\<not> BLOCK_SIZE * nblk sz \<le> length s"
        using False fits_less [OF True, of "length s"] by blast
      ultimately show ?thesis using step by (simp only: if_False)
    next
      case fits: True
      have facts: "d = NINDIRECT - Suc i" "length (wo[i := Some b]) = NINDIRECT" "Suc i \<le> NINDIRECT" "NDIRECT + Suc i \<le> nblk sz"
          "BLOCK_SIZE * (NDIRECT + Suc i) \<le> length s"
        using Suc.hyps(2) True i Suc.prems(4) fits by (simp_all del: mult_Suc_right)
      have "write_indirect bm2 (fill_words (wo[i := Some b]) junk) (s @ tail) sz (Suc i)
          (int BLOCK_SIZE * int (NDIRECT + Suc i)) = Inr (ids', bm')"
        using w(3) Suc.prems(4,5) by (simp only: block_step add_Suc_right fill_words_update)
      note IH = Suc.hyps(1) [OF facts(1) m2(2) Suc.prems(2) m2(3) facts(2) Suc.prems(5,6) facts(3,4,5) this]
      have e: "k + 1 + (nblk sz - (NDIRECT + Suc i)) = k + (nblk sz - (NDIRECT + i))" using True by simp
      have "write_indirect_mem bm p ps sz i (int BLOCK_SIZE * int (NDIRECT + i)) m =
          write_indirect_mem bm2 p ps sz (Suc i) (int BLOCK_SIZE * int (NDIRECT + Suc i)) m2"
        using step fits by (simp only: if_True)
      then show ?thesis using IH unfolding e by (simp only:)
    qed
  qed
qed

text \<open>What \<open>write_blocks\<close> does once the direct blocks are written.\<close>

lemma indirect_part:
  assumes m0: "cells m0 ino = None"
    and m1: "write_direct_mem bm ino ps sz 0 0 m = Inr ((ws, bm1), m1)"
      "grows (k + min (nblk sz) NDIRECT) m0 m1" "cells m1 ino = Some (Node (n\<lparr>iblocks := bl1\<rparr>))"
    and str: "cells m0 ps = Some (Bytes (map Some s))" and fits: "BLOCK_SIZE * NDIRECT \<le> length s"
    and ind: "NDIRECT < nblk sz" and ws: "ws = int BLOCK_SIZE * int (NDIRECT + 0)" "ws < sz"
    and r: "write_direct bm (iblocks n) (s @ tail) sz 0 0 = Inr (ws, bl1, bm1)"
      "write_blocks bm (iblocks n) junk (s @ tail) sz = Inr (bl, bm')"
  shows "if BLOCK_SIZE * nblk sz \<le> length s
    then \<exists>m'. write_blocks_mem bm ino junk ps sz m = Inr (bm', m') \<and>
      grows (k + blocks_needed (nblk sz)) m0 m' \<and> cells m' ino = Some (Node (n\<lparr>iblocks := bl\<rparr>))
    else write_blocks_mem bm ino junk ps sz m = Inl HeapOverflow"
proof -
  let ?junk = "bytes_words NINDIRECT junk" and ?wo = "replicate NINDIRECT None :: u32 option list"
  have junk: "fill_words ?wo ?junk = ?junk" using fill_words_None [of ?junk] by simp
  obtain b bm2 ids bm3 where w: "alloc_block bm1 = Inr (b, bm2)"
      "write_indirect bm2 (fill_words ?wo ?junk) (s @ tail) sz 0 ws = Inr (ids, bm3)"
      "bm_write_block bm3 b (words_bytes ids) = Inr bm'" "bl = bl1[NDIRECT := b]"
    using r ws(2) unfolding junk by (auto simp: write_blocks_def andThen_eq_Inr_iff)
  have b: "b \<noteq> -1" by (rule written_block [OF w(3)])
  obtain m2 where m2: "alloc_block_mem bm1 m1 = Inr ((b, bm2), m2)" "grows 1 m1 m2"
    using alloc_block_mem [OF growsD(2) [OF m1(2)]] w(1) by (rule followsE) (simp add: b)
  have g2: "grows (k + min (nblk sz) NDIRECT + 1) m0 m2" using grows_trans [OF m1(2) m2(2)] .
  note n2 = growsD(3) [OF m2(2) m1(3)]
  let ?n = "n\<lparr>iblocks := bl\<rparr>"
  obtain m3 where m3: "mstore ino (Node ?n) m2 = Inr m3" "grows (k + min (nblk sz) NDIRECT + 1) m0 m3"
      "cells m3 ino = Some (Node ?n)"
    using node_update [OF g2 n2 m0] .
  obtain q m4 where q: "malloc (Words ?wo) m3 = (q, m4)" by force
  note M = malloc_grows [OF growsD(2) [OF m3(2)] q]
  have before: "write_blocks_mem bm ino junk ps sz m =
      andThen (write_indirect_mem bm2 q ps sz 0 ws m4) (\<lambda>(bm, m).
        andThen (copy_words ?junk q m) (\<lambda>ws. andThen (bm_write_block bm b (words_bytes ws)) (\<lambda>bm.
        andThen (mfree q m) (\<lambda>m. Inr (bm, m)))))"
    using ws(2) by (simp add: write_blocks_mem_def m1(1) m2(1) load_node_Some [OF growsD(2) [OF g2] n2]
        m3(1) [unfolded w(4)] q)
  have "BLOCK_SIZE * (NDIRECT + 0) \<le> length s" "NDIRECT + 0 \<le> nblk sz" using fits ind by simp_all
  note loop = write_indirect_mem [OF M(1,3,2) _ _ growsD(3) [OF m3(2) str] _ this(2,1) w(2) [unfolded ws(1)], folded ws(1), simplified]
  show ?thesis
  proof (cases "BLOCK_SIZE * nblk sz \<le> length s")
    case False
    then show ?thesis using loop before by simp
  next
    case True
    then obtain m5 wo where m5: "write_indirect_mem bm2 q ps sz 0 ws m4 = Inr (bm3, m5)"
        "grows (Suc (nblk sz - NDIRECT)) m3 m5" "cells m5 q = Some (Words wo)" "fill_words wo ?junk = ids"
      using loop by auto
    obtain m6 where m6: "mfree q m5 = Inr m6" "grows (nblk sz - NDIRECT) m3 m6"
      using mfree_grows [OF m5(2,3) M(3)] by blast
    have "write_blocks_mem bm ino junk ps sz m = Inr (bm', m6)"
      using before by (simp add: m5(1,4) copy_words_Some [OF growsD(2) [OF m5(2)] m5(3)] w(3) m6(1))
    moreover have "grows (k + blocks_needed (nblk sz)) m0 m6"
    proof -
      have "k + min (nblk sz) NDIRECT + 1 + (nblk sz - NDIRECT) = k + blocks_needed (nblk sz)"
        using ind by (simp add: blocks_needed_def)
      then show ?thesis using grows_trans [OF m3(2) m6(2)] by (simp only:)
    qed
    moreover have "cells m6 ino = Some (Node ?n)" using growsD(3) [OF m6(2) m3(3)] .
    ultimately show ?thesis using True by auto
  qed
qed

lemma write_blocks_mem:
  assumes g: "grows k m0 m" and m0: "cells m0 ino = None" and ino: "cells m ino = Some (Node n)"
    and str: "cells m0 ps = Some (Bytes (map Some s))"
    and r: "write_blocks bm (iblocks n) junk (s @ tail) sz = Inr (bl, bm')" and len: "length (iblocks n) = NDIRECT + 1"
  shows "if BLOCK_SIZE * nblk sz \<le> length s
    then \<exists>m'. write_blocks_mem bm ino junk ps sz m = Inr (bm', m') \<and>
      grows (k + blocks_needed (nblk sz)) m0 m' \<and> cells m' ino = Some (Node (n\<lparr>iblocks := bl\<rparr>))
    else write_blocks_mem bm ino junk ps sz m = Inl HeapOverflow"
proof -
  obtain ws bl1 bm1 where d: "write_direct bm (iblocks n) (s @ tail) sz 0 0 = Inr (ws, bl1, bm1)"
    using r by (auto simp: write_blocks_def andThen_eq_Inr_iff)
  have ws: "ws = int BLOCK_SIZE * int (min (nblk sz) NDIRECT)"
    using trans [OF sym [OF write_direct_eq [of 0 sz "iblocks n" bm "s @ tail", simplified]] d] len
    by (auto simp: andThen_eq_Inr_iff)
  have less: "ws < sz \<longleftrightarrow> NDIRECT < nblk sz" unfolding ws by (rule direct_size)
  have direct: "if BLOCK_SIZE * min (nblk sz) NDIRECT \<le> length s
    then \<exists>m1. write_direct_mem bm ino ps sz 0 0 m = Inr ((ws, bm1), m1) \<and>
      grows (k + min (nblk sz) NDIRECT) m0 m1 \<and> cells m1 ino = Some (Node (n\<lparr>iblocks := bl1\<rparr>))
    else write_direct_mem bm ino ps sz 0 0 m = Inl HeapOverflow"
    using write_direct_mem [OF g m0 ino str, of 0 sz bm tail ws bl1 bm1] d by (simp split: if_splits)
  show ?thesis
  proof (cases "BLOCK_SIZE * min (nblk sz) NDIRECT \<le> length s")
    case False
    then have "\<not> BLOCK_SIZE * nblk sz \<le> length s"
      by (meson le_trans min.cobounded1 mult_le_mono2)
    then show ?thesis using direct False by (simp add: write_blocks_mem_def)
  next
    case True
    then obtain m1 where m1: "write_direct_mem bm ino ps sz 0 0 m = Inr ((ws, bm1), m1)"
        "grows (k + min (nblk sz) NDIRECT) m0 m1" "cells m1 ino = Some (Node (n\<lparr>iblocks := bl1\<rparr>))"
      using direct by auto
    show ?thesis
    proof (cases "ws < sz")
      case False
      then have "min (nblk sz) NDIRECT = nblk sz" using less by simp
      moreover have "write_blocks_mem bm ino junk ps sz m = Inr (bm', m1)" "bl1 = bl"
          "blocks_needed (nblk sz) = min (nblk sz) NDIRECT"
        using False r d m1(1) less by (auto simp: write_blocks_def write_blocks_mem_def blocks_needed_def)
      ultimately show ?thesis using True m1(2,3) by simp
    next
      case big: True
      then have "NDIRECT < nblk sz" by (simp only: less)
      moreover from this have "ws = int BLOCK_SIZE * int (NDIRECT + 0)" "BLOCK_SIZE * NDIRECT \<le> length s"
        using ws True by simp_all
      ultimately show ?thesis using indirect_part [OF m0 m1 str _ _ _ big d r] by blast
    qed
  qed
qed

text \<open>
  \<open>buf\<close> is the string with its zero byte, as \<open>put\<close> hands it over.  \<open>write_file\<close> reads whole
  blocks of it, so it returns if these are all inside, and otherwise reads behind the end.
\<close>

lemma write_file_mem:
  assumes ok: "mem_ok m" and n: "get_inode im i = Inr (Some n)" and len: "length (iblocks n) = NDIRECT + 1"
    and str: "cells m ps = Some (Bytes (map Some buf))" and r: "write_file im i buf sz = Inr im'"
  shows "if BLOCK_SIZE * nblk sz \<le> length buf
    then \<exists>m'. write_file_mem im i ps sz m = Inr (im', m') \<and>
      grows (indirect_cells (uint (isize n)) + blocks_needed (nblk sz)) m m'
    else write_file_mem im i ps sz m = Inl HeapOverflow"
proof -
  obtain tail e1 where h1: "env_bytes BLOCK_SIZE (im_env im) = (tail, e1)" by force
  obtain junk e2 where h2: "env_bytes BLOCK_SIZE e1 = (junk, e2)" by force
  obtain now e3 where t: "env_time e2 = (now, e3)" by force
  let ?k = "indirect_cells (uint (isize n))" and ?l = "blocks_needed (nblk sz)"
  obtain bm1 bl bm2 where w: "free_blocks (im_bm im) n (uint (isize n)) = Inr bm1"
      "write_blocks bm1 (iblocks n) junk (buf @ tail) sz = Inr (bl, bm2)"
      "put_inode (im\<lparr>im_bm := bm2, im_env := e3\<rparr>) i
        (Some (n\<lparr>isize := word_of_int sz, imtime := now, ictime := now, iblocks := bl\<rparr>)) = Inr im'"
    using r unfolding write_file_def n andThen_Inr option.case h1 h2 t Let_def prod.case
    by (auto simp: andThen_eq_Inr_iff)
  obtain p m1 where p: "get_inode_mem im i m = Inr (p, m1)" "grows 1 m m1" "cells m1 p = Some (Node n)" "cells m p = None"
    using get_inode_mem_Some [OF n ok] .
  obtain m2 where m2: "free_blocks_mem (im_bm im) p (uint (isize n)) m1 = Inr (bm1, m2)"
      "grows ?k m1 m2" "cells m2 p = Some (Node n)"
    using free_blocks_mem [OF growsD(2) [OF p(2)] p(3) w(1)] .
  note wb = write_blocks_mem [OF grows_trans [OF p(2) m2(2)] p(4) m2(3) str w(2) len]
  note start = write_file_mem_def p(1) andThen_Inr prod.case load_node_Some [OF growsD(2) [OF p(2)] p(3)] m2(1)
    h1 h2 t Let_def
  show ?thesis
  proof (cases "BLOCK_SIZE * nblk sz \<le> length buf")
    case False
    then have "write_blocks_mem bm1 p junk ps sz m2 = Inl HeapOverflow" using wb by (simp only: if_False)
    then have "write_file_mem im i ps sz m = Inl HeapOverflow" unfolding start by simp
    then show ?thesis using False by (simp only: if_False)
  next
    case True
    then obtain m3 where m3: "write_blocks_mem bm1 p junk ps sz m2 = Inr (bm2, m3)"
        "grows (1 + ?k + ?l) m m3" "cells m3 p = Some (Node (n\<lparr>iblocks := bl\<rparr>))"
      using wb by auto
    let ?n = "n\<lparr>iblocks := bl, isize := word_of_int sz, imtime := now, ictime := now\<rparr>"
    have e: "n\<lparr>isize := word_of_int sz, imtime := now, ictime := now, iblocks := bl\<rparr> = ?n"
      by (cases n) simp
    obtain m4 where m4: "mstore p (Node ?n) m3 = Inr m4" "grows (1 + ?k + ?l) m m4" "cells m4 p = Some (Node ?n)" "mem_ok m4"
      using node_update [OF m3(2,3) p(4)] .
    obtain m5 where m5: "mfree p m4 = Inr m5" "grows (?k + ?l) m m5"
      using mfree_grows [OF _ m4(3) p(4), of "?k + ?l"] m4(2) by auto
    have "write_file_mem im i ps sz m = Inr (im', m5)"
      unfolding start m3(1) load_node_Some [OF growsD(2) [OF m3(2)] m3(3)]
      using w(3) unfolding e by (simp add: m4(1) put_inode_mem [OF m4(4,3)] m5(1))
    then show ?thesis using True m5(2) by auto
  qed
qed

text \<open>The copy of the inode that \<open>free_inode\<close> writes is left behind, and the indirect block.\<close>

lemma remove_file_mem:
  assumes ok: "mem_ok m" and n: "get_inode im i = Inr (Some n)"
    and f: "free_blocks (im_bm im) n (sint (isize n)) = Inr bm1"
    and n1: "get_inode (im\<lparr>im_bm := bm1\<rparr>) i = Inr (Some n1)" and r: "remove_file im i = Inr im'"
  obtains m' where "remove_file_mem im i m = Inr (im', m')" "grows (indirect_cells (sint (isize n)) + 1) m m'"
proof -
  let ?k = "indirect_cells (sint (isize n))"
  have fr: "free_inode (im\<lparr>im_bm := bm1\<rparr>) i = Inr im'" using r by (simp add: remove_file_def n f)
  obtain p m1 where p: "get_inode_mem im i m = Inr (p, m1)" "grows 1 m m1" "cells m1 p = Some (Node n)" "cells m p = None"
    using get_inode_mem_Some [OF n ok] .
  obtain m2 where m2: "free_blocks_mem (im_bm im) p (sint (isize n)) m1 = Inr (bm1, m2)"
      "grows ?k m1 m2" "cells m2 p = Some (Node n)"
    using free_blocks_mem [OF growsD(2) [OF p(2)] p(3) f] .
  obtain m3 where m3: "free_inode_mem (im\<lparr>im_bm := bm1\<rparr>) i m2 = Inr (im', m3)" "grows 1 m2 m3"
    using free_inode_mem [OF growsD(2) [OF m2(2)]] fr by (rule followsE) (simp add: n1)
  have "grows (1 + ?k + 1) m m3" using grows_trans [OF grows_trans [OF p(2) m2(2)] m3(2)] .
  then obtain m4 where m4: "mfree p m3 = Inr m4" "grows (?k + 1) m m4"
    using mfree_grows [OF _ growsD(3) [OF m3(2) m2(3)] p(4), of "?k + 1"] by auto
  have "remove_file_mem im i m = Inr (im', m4)"
    by (simp add: remove_file_mem_def p(1) load_node_Some [OF growsD(2) [OF p(2)] p(3)] m2(1) m3(1) m4(1))
  then show ?thesis using that m4(2) by blast
qed

end
