(* ===== verification/Memory_Session.thy ===== *)
theory Memory_Session
  imports Memory_Files Extent_Store
begin

text \<open>
  The methods of the extent server with their memory, on a well-formed disk: what
  they return, and how many cells they leave behind.  A session of such calls
  leaves the sum.
\<close>

section \<open>Cells left behind\<close>

definition get_cells :: "byte list \<Rightarrow> nat" where
  "get_cells d = (if d = [] then 1 else 0) + indirect_cells (int (length d))"

definition put_cells :: "byte list \<Rightarrow> byte list \<Rightarrow> nat" where
  "put_cells old d = indirect_cells (int (length old)) + file_blocks d"

definition remove_cells :: "byte list \<Rightarrow> nat" where
  "remove_cells d = indirect_cells (int (length d)) + 1"

lemma es_create_mem:
  assumes "mem_ok m"
  shows "follows (es_create es t) (es_create_mem es t m) (\<lambda>_. 0) m"
  using alloc_inode_mem [OF assms, of "es_im es" t]
  by (fastforce simp: follows_def es_create_def es_create_mem_def andThen_eq_Inr_iff)

lemma es_getattr_mem:
  assumes "mem_ok m"
  shows "follows (es_getattr es i) (es_getattr_mem es i m) (\<lambda>_. 0) m"
  using getattr_mem [OF assms, of "es_im es" "extent_inum i" zero_attr]
  by (fastforce simp: follows_def es_getattr_def es_getattr_mem_def andThen_eq_Inr_iff)

text \<open>The inode of a file.\<close>

lemma file_inode:
  assumes "im_ok im" "files im k = Some f"
  obtains n where "get_inode im k = Inr (Some n)" "length (iblocks n) = NDIRECT + 1" "bm_ok (im_bm im)"
    "uint (isize n) = int (length (f_data f))" "sint (isize n) = int (length (f_data f))"
    "n = inode_at (im_bm im) k" "live (im_bm im) k"
proof -
  from assms(2) have live: "live (im_bm im) k" and f: "f = file_of (im_bm im) (inode_at (im_bm im) k)"
    by (auto elim: files_SomeE)
  note D = im_okD [OF assms(1) live]
  have "int (length (f_data f)) = uint (isize (inode_at (im_bm im) k))"
    unfolding f file_of_def afile.select_convs length_ino_data [OF D(1,2)] uint_nat ..
  then show ?thesis
    using that [of "inode_at (im_bm im) k"] D(1,2) live inode_ok_size(2) [OF D(2)]
    by (simp add: get_inode_eq [OF D(1)] inode_ok_def)
qed

lemma es_get_mem:
  assumes ok: "im_ok (es_im es)" "mem_ok m" and f: "files (es_im es) (extent_inum i) = Some f"
  shows "follows (es_get es i) (es_get_mem es i m) (\<lambda>_. get_cells (f_data f)) m"
proof (rule followsI)
  fix x assume r: "es_get es i = Inr x"
  let ?sz = "int (length (f_data f))"
  obtain c im' where rd: "read_file (es_im es) (extent_inum i) = Inr ((c, ?sz), im')"
    using read_file_ok [OF ok(1) f] by auto
  have bm: "bm_ok (im_bm (es_im es))" using file_inode [OF ok(1) f] .
  obtain p m1 rest where p: "read_file_mem (es_im es) (extent_inum i) m = Inr (((p, ?sz), im'), m1)"
      "cells m1 p = Some (Bytes (map Some c @ rest))" "cells m p = None"
      "grows (1 + indirect_cells ?sz) m m1" "?sz \<le> int (length c)"
    using read_file_mem [OF ok(2) bm rd] by auto
  show "\<exists>m'. es_get_mem es i m = Inr (x, m') \<and> grows (get_cells (f_data f)) m m'"
  proof (cases "f_data f = []")
    case True
    then show ?thesis using r p(1,4) by (auto simp: es_get_def es_get_mem_def rd get_cells_def)
  next
    case False
    obtain m2 where m2: "mfree p m1 = Inr m2" "grows (indirect_cells ?sz) m m2"
      using mfree_grows [OF _ p(2,3)] p(4) by fastforce
    have l: "load_slice (length (f_data f)) 0 p m1 = Inr (take (length (f_data f)) c)"
      using load_slice_prefix [OF growsD(2) [OF p(4)] p(2)] p(5) by simp
    show ?thesis
      using r False m2 by (auto simp: es_get_def es_get_mem_def rd p(1) l get_cells_def)
  qed
qed

text \<open>
  The string of \<open>put\<close>, with its zero byte, holds all the blocks that \<open>write_file\<close> reads of
  it.
\<close>

definition put_whole :: "byte list \<Rightarrow> bool" where
  "put_whole d \<longleftrightarrow> length d mod BLOCK_SIZE = 0 \<or> length d mod BLOCK_SIZE = BLOCK_SIZE - 1"

lemma round_up:
  assumes "r < 512"
  shows "512 * ((512 * q + r + 511) div 512) \<le> 512 * q + r + 1 \<longleftrightarrow> r = 0 \<or> r = (511 :: nat)"
proof (cases r)
  case (Suc r')
  have "512 * q + r + 511 = r' + Suc q * 512" by (simp add: Suc)
  moreover have "(r' + Suc q * 512) div 512 = Suc q" using assms Suc by (subst div_mult_self1) simp_all
  ultimately have "(512 * q + r + 511) div 512 = Suc q" by (simp only:)
  moreover have "512 * Suc q \<le> 512 * q + r + 1 \<longleftrightarrow> r = 511" using assms by auto
  ultimately show ?thesis using Suc by simp
qed simp

lemma put_whole: "BLOCK_SIZE * nblk (int (length d)) \<le> length (d @ [0]) \<longleftrightarrow> put_whole d"
proof -
  have "nblk (int (length d)) = (length d + 511) div 512"
    by (simp add: nblk_def layout nat_div_distrib)
  then show ?thesis
    using round_up [of "length d mod 512" "length d div 512"] by (simp add: put_whole_def layout)
qed

lemma es_put_mem:
  assumes ok: "im_ok (es_im es)" "mem_ok m" and f: "files (es_im es) (extent_inum i) = Some f"
    and len: "length d < 2 ^ 31" and r: "es_put es i d = Inr x"
  shows "if put_whole d
    then \<exists>m'. es_put_mem es i d m = Inr (x, m') \<and> grows (put_cells (f_data f) d) m m'
    else es_put_mem es i d m = Inl HeapOverflow"
proof -
  let ?k = "put_cells (f_data f) d"
  have sz: "sint (word_of_nat (length d) :: u32) = int (length d)" by (rule sint_of_nat_u32 [OF len])
  obtain im' where w: "write_file (es_im es) (extent_inum i) (d @ [0]) (int (length d)) = Inr im'"
      "x = (OK, es\<lparr>es_im := im'\<rparr>)"
    using r by (auto simp: es_put_def sz andThen_eq_Inr_iff)
  obtain n where n: "get_inode (es_im es) (extent_inum i) = Inr (Some n)" "length (iblocks n) = NDIRECT + 1"
      "uint (isize n) = int (length (f_data f))"
    using file_inode [OF ok(1) f] by metis
  obtain p m1 where p: "malloc (Bytes (map Some (d @ [0]))) m = (p, m1)" by force
  note M = malloc_grows [OF ok(2) p]
  have k: "indirect_cells (uint (isize n)) + blocks_needed (nblk (int (length d))) = ?k"
    by (simp add: n(3) put_cells_def file_blocks_def)
  note wf = write_file_mem [OF growsD(2) [OF M(1)] n(1,2) M(2) w(1), unfolded k put_whole]
  have put: "es_put_mem es i d m = andThen (write_file_mem (es_im es) (extent_inum i) p (int (length d)) m1)
      (\<lambda>(im, m). andThen (mfree p m) (\<lambda>m. Inr ((OK, es\<lparr>es_im := im\<rparr>), m)))"
    unfolding es_put_mem_def p sz Let_def prod.case ..
  show ?thesis
  proof (cases "put_whole d")
    case False
    then show ?thesis using wf put by simp
  next
    case True
    then obtain m2 where m2: "write_file_mem (es_im es) (extent_inum i) p (int (length d)) m1 = Inr (im', m2)" "grows ?k m1 m2"
      using wf by auto
    have "grows (Suc ?k) m m2" using grows_trans [OF M(1) m2(2)] by simp
    then obtain m3 where "mfree p m2 = Inr m3" "grows ?k m m3"
      using mfree_grows [OF _ growsD(3) [OF m2(2) M(2)] M(3)] by blast
    then show ?thesis using True put m2(1) w(2) by simp
  qed
qed

lemma es_remove_mem:
  assumes ok: "im_ok (es_im es)" "mem_ok m" and f: "files (es_im es) (extent_inum i) = Some f"
  shows "follows (es_remove es i) (es_remove_mem es i m) (\<lambda>_. remove_cells (f_data f)) m"
proof (rule followsI)
  fix x assume r: "es_remove es i = Inr x"
  let ?im = "es_im es" and ?k = "extent_inum i"
  obtain im' where im': "remove_file ?im ?k = Inr im'" "x = (OK, es\<lparr>es_im := im'\<rparr>)"
    using r by (auto simp: es_remove_def andThen_eq_Inr_iff)
  obtain n where n: "get_inode ?im ?k = Inr (Some n)" "uint (isize n) = int (length (f_data f))"
      "sint (isize n) = int (length (f_data f))" "n = inode_at (im_bm ?im) ?k" "live (im_bm ?im) ?k"
    using file_inode [OF ok(1) f] by metis
  note D = im_okD [OF ok(1) n(5)]
  obtain bm1 where b: "free_blocks (im_bm ?im) n (uint (isize n)) = Inr bm1" "bm_ok bm1"
      "\<forall>c. c \<notin> bitmap_blocks \<longrightarrow> bm_blk bm1 c = bm_blk (im_bm ?im) c"
    using free_file_ok [OF ok(1) n(5)] unfolding n(4) by blast
  have at: "inode_at bm1 ?k = n"
    using b(3) ino_blk_region(2) [of ?k] D(5) unfolding inode_at_def n(4) by (simp add: layout)
  have "live bm1 ?k" using n(4,5) by (simp add: live_def at)
  then have n1: "get_inode (?im\<lparr>im_bm := bm1\<rparr>) ?k = Inr (Some n)"
    using get_inode_eq [of "?im\<lparr>im_bm := bm1\<rparr>" ?k] b(2) by (simp add: at)
  obtain m' where "remove_file_mem ?im ?k m = Inr (im', m')" "grows (remove_cells (f_data f)) m m'"
    using remove_file_mem [OF ok(2) n(1) b(1) [unfolded n(2) n(3) [symmetric]] n1 im'(1)]
    by (auto simp: n(3) remove_cells_def)
  then show "\<exists>m'. es_remove_mem es i m = Inr (x, m') \<and> grows (remove_cells (f_data f)) m m'"
    using im'(2) by (simp add: es_remove_mem_def)
qed

section \<open>Sessions\<close>

datatype ext_call = CallCreate u32 | CallGet u64 | CallPut u64 "byte list" | CallGetattr u64 | CallRemove u64

datatype ext_result = NewId u64 | Data "byte list" | Attrs attr | Done

fun ec_call :: "extent_client \<Rightarrow> ext_call \<Rightarrow> (ext_result \<times> extent_client) result" where
  "ec_call ec (CallCreate t) = andThen (ec_create ec t) (\<lambda>(_, i, ec). Inr (NewId i, ec))"
| "ec_call ec (CallGet i) = andThen (ec_get ec i) (\<lambda>(_, d, ec). Inr (Data d, ec))"
| "ec_call ec (CallPut i d) = andThen (ec_put ec i d) (\<lambda>(_, ec). Inr (Done, ec))"
| "ec_call ec (CallGetattr i) = andThen (ec_getattr ec i) (\<lambda>(_, a). Inr (Attrs a, ec))"
| "ec_call ec (CallRemove i) = andThen (ec_remove ec i) (\<lambda>(_, ec). Inr (Done, ec))"

text \<open>The same calls with memory; the stub itself allocates nothing.\<close>

fun ec_call_mem :: "extent_client \<Rightarrow> ext_call \<Rightarrow> mem \<Rightarrow> ((ext_result \<times> extent_client) \<times> mem) result" where
  "ec_call_mem ec (CallCreate t) m =
     andThen (es_create_mem (ec_es ec) t m) (\<lambda>((_, i, es), m). Inr ((NewId i, ec\<lparr>ec_es := es\<rparr>), m))"
| "ec_call_mem ec (CallGet i) m =
     andThen (es_get_mem (ec_es ec) i m) (\<lambda>((_, d, es), m). Inr ((Data d, ec\<lparr>ec_es := es\<rparr>), m))"
| "ec_call_mem ec (CallPut i d) m =
     andThen (es_put_mem (ec_es ec) i d m) (\<lambda>((_, es), m). Inr ((Done, ec\<lparr>ec_es := es\<rparr>), m))"
| "ec_call_mem ec (CallGetattr i) m =
     andThen (es_getattr_mem (ec_es ec) i m) (\<lambda>((_, a), m). Inr ((Attrs a, ec), m))"
| "ec_call_mem ec (CallRemove i) m =
     andThen (es_remove_mem (ec_es ec) i m) (\<lambda>((_, es), m). Inr ((Done, ec\<lparr>ec_es := es\<rparr>), m))"

fun ec_session_mem :: "extent_client \<Rightarrow> ext_call list \<Rightarrow> mem \<Rightarrow> ((ext_result list \<times> extent_client) \<times> mem) result" where
  "ec_session_mem ec [] m = Inr (([], ec), m)"
| "ec_session_mem ec (c # cs) m =
     andThen (ec_call_mem ec c m) (\<lambda>((r, ec), m).
     andThen (ec_session_mem ec cs m) (\<lambda>((rs, ec), m). Inr ((r # rs, ec), m)))"

fun ec_session :: "extent_client \<Rightarrow> ext_call list \<Rightarrow> (ext_result list \<times> extent_client) result" where
  "ec_session ec [] = Inr ([], ec)"
| "ec_session ec (c # cs) =
     andThen (ec_call ec c) (\<lambda>(r, ec).
     andThen (ec_session ec cs) (\<lambda>(rs, ec). Inr (r # rs, ec)))"

text \<open>What the calls need, what they change and what they leave, on the store.\<close>

definition data_of :: "store \<Rightarrow> u64 \<Rightarrow> byte list" where
  "data_of st i = (case st_files st (extent_inum i) of None \<Rightarrow> [] | Some (_, d) \<Rightarrow> d)"

fun call_fits :: "store \<Rightarrow> ext_call \<Rightarrow> bool" where
  "call_fits st (CallCreate t) \<longleftrightarrow> can_create st \<and> (ucast t :: u16) \<noteq> 0"
| "call_fits st (CallGet i) \<longleftrightarrow> st_files st (extent_inum i) \<noteq> None"
| "call_fits st (CallPut i d) \<longleftrightarrow> can_put st (extent_inum i) d"
| "call_fits st (CallGetattr i) \<longleftrightarrow> True"
| "call_fits st (CallRemove i) \<longleftrightarrow> st_files st (extent_inum i) \<noteq> None"

fun call_store :: "store \<Rightarrow> ext_call \<Rightarrow> store" where
  "call_store st (CallCreate t) = store_create st t"
| "call_store st (CallPut i d) = store_put st (extent_inum i) d"
| "call_store st (CallRemove i) = store_remove st (extent_inum i)"
| "call_store st _ = st"

fun call_cells :: "store \<Rightarrow> ext_call \<Rightarrow> nat" where
  "call_cells st (CallGet i) = get_cells (data_of st i)"
| "call_cells st (CallPut i d) = put_cells (data_of st i) d"
| "call_cells st (CallRemove i) = remove_cells (data_of st i)"
| "call_cells st _ = 0"

fun session_fits :: "store \<Rightarrow> ext_call list \<Rightarrow> bool" where
  "session_fits st [] \<longleftrightarrow> True"
| "session_fits st (c # cs) \<longleftrightarrow> call_fits st c \<and> session_fits (call_store st c) cs"

fun session_cells :: "store \<Rightarrow> ext_call list \<Rightarrow> nat" where
  "session_cells st [] = 0"
| "session_cells st (c # cs) = call_cells st c + session_cells (call_store st c) cs"

fun call_answer :: "store \<Rightarrow> ext_call \<Rightarrow> ext_result \<Rightarrow> bool" where
  "call_answer st (CallCreate t) r \<longleftrightarrow> r = NewId (ucast (st_last st + 1))"
| "call_answer st (CallGet i) r \<longleftrightarrow> r = Data (data_of st i)"
| "call_answer st (CallGetattr i) r \<longleftrightarrow>
     (\<exists>a. r = Attrs a \<and> a_size a = word_of_nat (length (data_of st i)))"
| "call_answer st _ r \<longleftrightarrow> r = Done"

fun session_answers :: "store \<Rightarrow> ext_call list \<Rightarrow> ext_result list \<Rightarrow> bool" where
  "session_answers st [] rs \<longleftrightarrow> rs = []"
| "session_answers st (c # cs) rs \<longleftrightarrow>
     (case rs of [] \<Rightarrow> False | r # rs \<Rightarrow> call_answer st c r \<and> session_answers (call_store st c) cs rs)"

section \<open>One call\<close>

lemma ec_call_ok:
  assumes "ec_ok ec" "call_fits (ec_store ec) c"
  obtains r ec' where "ec_call ec c = Inr (r, ec')" "ec_ok ec'" "ec_store ec' = call_store (ec_store ec) c"
    "call_answer (ec_store ec) c r"
proof (cases c)
  case (CallCreate t)
  then show ?thesis using that ec.create_ok [OF assms(1), of t] assms(2) by auto
next
  case (CallGet i)
  then show ?thesis using that ec.get_ok [OF assms(1), of i] assms(2) by (fastforce simp: data_of_def)
next
  case (CallPut i d)
  then show ?thesis using that ec.put_ok [OF assms(1), of i d] assms(2) by auto
next
  case (CallRemove i)
  then show ?thesis using that ec.remove_ok [OF assms(1), of i] assms(2) by auto
next
  case (CallGetattr i)
  show ?thesis
  proof (cases "st_files (ec_store ec) (extent_inum i)")
    case None
    then show ?thesis
      using that ec.attrs_none [OF assms(1) None] assms(1) CallGetattr by (simp add: data_of_def zero_attr_def)
  next
    case (Some x)
    then show ?thesis
      using that ec.attrs_ok [OF assms(1), of i "fst x" "snd x"] assms(1) CallGetattr by (fastforce simp: data_of_def split: prod.splits)
  qed
qed

lemma store_file:
  assumes "st_files (ec_store ec) k \<noteq> None"
  obtains f where "files (es_im (ec_es ec)) k = Some f" "st_files (ec_store ec) k = Some (f_type f, f_data f)"
  using assms by (auto simp: ec_store_simps)

text \<open>The calls whose string holds whole blocks, the only ones that \<open>write_block\<close> can serve.\<close>

fun call_whole :: "ext_call \<Rightarrow> bool" where
  "call_whole (CallPut i d) \<longleftrightarrow> put_whole d"
| "call_whole _ \<longleftrightarrow> True"

lemma ec_call_mem:
  assumes ok: "ec_ok ec" "mem_ok m" and fits: "call_fits (ec_store ec) c" and whole: "call_whole c"
  shows "follows (ec_call ec c) (ec_call_mem ec c m) (\<lambda>_. call_cells (ec_store ec) c) m"
proof -
  have im: "im_ok (es_im (ec_es ec))" using ok(1) by (simp add: ec_ok_def)
  show ?thesis
  proof (cases c)
    case (CallCreate t)
    then show ?thesis using es_create_mem [OF ok(2), of "ec_es ec" t]
      by (fastforce simp: follows_def ec_create_def andThen_eq_Inr_iff)
  next
    case (CallGetattr i)
    then show ?thesis using es_getattr_mem [OF ok(2), of "ec_es ec" i]
      by (fastforce simp: follows_def ec_getattr_def andThen_eq_Inr_iff)
  next
    case (CallGet i)
    then have "st_files (ec_store ec) (extent_inum i) \<noteq> None" using fits by simp
    then obtain f where f: "files (es_im (ec_es ec)) (extent_inum i) = Some f"
        "st_files (ec_store ec) (extent_inum i) = Some (f_type f, f_data f)"
      by (rule store_file)
    show ?thesis using es_get_mem [OF im ok(2) f(1)]
      by (fastforce simp: CallGet follows_def ec_get_def andThen_eq_Inr_iff data_of_def f(2))
  next
    case (CallRemove i)
    then have "st_files (ec_store ec) (extent_inum i) \<noteq> None" using fits by simp
    then obtain f where f: "files (es_im (ec_es ec)) (extent_inum i) = Some f"
        "st_files (ec_store ec) (extent_inum i) = Some (f_type f, f_data f)"
      by (rule store_file)
    show ?thesis using es_remove_mem [OF im ok(2) f(1)]
      by (fastforce simp: CallRemove follows_def ec_remove_def andThen_eq_Inr_iff data_of_def f(2))
  next
    case (CallPut i d)
    then have "can_put (ec_store ec) (extent_inum i) d" using fits by simp
    then have d: "length d < 2 ^ 31" "st_files (ec_store ec) (extent_inum i) \<noteq> None"
      by (auto simp: can_put_def layout split: option.splits)
    from d(2) obtain f where f: "files (es_im (ec_es ec)) (extent_inum i) = Some f"
        "st_files (ec_store ec) (extent_inum i) = Some (f_type f, f_data f)"
      by (rule store_file)
    show ?thesis using es_put_mem [OF im ok(2) f(1) d(1)] whole
      by (fastforce simp: CallPut follows_def ec_put_def andThen_eq_Inr_iff data_of_def f(2))
  qed
qed

lemma ec_call_over:
  assumes ok: "ec_ok ec" "mem_ok m" and fits: "call_fits (ec_store ec) c" and over: "\<not> call_whole c"
  shows "ec_call_mem ec c m = Inl HeapOverflow"
proof -
  have im: "im_ok (es_im (ec_es ec))" using ok(1) by (simp add: ec_ok_def)
  from over obtain i d where c: "c = CallPut i d" "\<not> put_whole d" by (cases c) auto
  then have "can_put (ec_store ec) (extent_inum i) d" using fits by simp
  then have d: "length d < 2 ^ 31" "st_files (ec_store ec) (extent_inum i) \<noteq> None"
    by (auto simp: can_put_def layout split: option.splits)
  from d(2) obtain f where f: "files (es_im (ec_es ec)) (extent_inum i) = Some f" by (rule store_file)
  obtain r ec' where "ec_call ec c = Inr (r, ec')" using ec_call_ok [OF ok(1) fits] .
  then obtain x where "es_put (ec_es ec) i d = Inr x"
    by (auto simp: c(1) ec_put_def andThen_eq_Inr_iff)
  then show ?thesis using es_put_mem [OF im ok(2) f d(1)] c by simp
qed

section \<open>A whole session\<close>

lemma session_mem:
  "ec_ok ec \<Longrightarrow> mem_ok m \<Longrightarrow> session_fits (ec_store ec) cs \<Longrightarrow>
   \<exists>rs ec'. ec_session ec cs = Inr (rs, ec') \<and>
     ec_ok ec' \<and> ec_store ec' = foldl call_store (ec_store ec) cs \<and> session_answers (ec_store ec) cs rs \<and>
     (if list_all call_whole cs
      then \<exists>m'. ec_session_mem ec cs m = Inr ((rs, ec'), m') \<and> grows (session_cells (ec_store ec) cs) m m'
      else ec_session_mem ec cs m = Inl HeapOverflow)"
proof (induction cs arbitrary: ec m)
  case Nil
  then show ?case by auto
next
  case (Cons c cs)
  from Cons.prems(3) have fits: "call_fits (ec_store ec) c" "session_fits (call_store (ec_store ec) c) cs" by auto
  obtain r ec1 where r: "ec_call ec c = Inr (r, ec1)" "ec_ok ec1" "ec_store ec1 = call_store (ec_store ec) c"
      "call_answer (ec_store ec) c r"
    using ec_call_ok [OF Cons.prems(1) fits(1)] .
  show ?case
  proof (cases "call_whole c")
    case False
    then have "ec_session_mem ec (c # cs) m = Inl HeapOverflow"
      using ec_call_over [OF Cons.prems(1,2) fits(1)] by simp
    then show ?thesis
      using Cons.IH [OF r(2) Cons.prems(2)] fits(2) r False by auto
  next
    case True
    obtain m1 where m1: "ec_call_mem ec c m = Inr ((r, ec1), m1)" "grows (call_cells (ec_store ec) c) m m1"
      using ec_call_mem [OF Cons.prems(1,2) fits(1) True] r(1) by (rule followsE)
    obtain rs ec2 where IH: "ec_session ec1 cs = Inr (rs, ec2)" "ec_ok ec2"
        "ec_store ec2 = foldl call_store (ec_store ec1) cs" "session_answers (ec_store ec1) cs rs"
        "if list_all call_whole cs
         then \<exists>m'. ec_session_mem ec1 cs m1 = Inr ((rs, ec2), m') \<and> grows (session_cells (ec_store ec1) cs) m1 m'
         else ec_session_mem ec1 cs m1 = Inl HeapOverflow"
      using Cons.IH [OF r(2) growsD(2) [OF m1(2)]] fits(2) r(3) by auto
    have "if list_all call_whole (c # cs)
        then \<exists>m'. ec_session_mem ec (c # cs) m = Inr ((r # rs, ec2), m') \<and> grows (session_cells (ec_store ec) (c # cs)) m m'
        else ec_session_mem ec (c # cs) m = Inl HeapOverflow"
      using IH(5) True m1(1) grows_trans [OF m1(2)] r(3) by (auto split: if_splits)
    then show ?thesis using r IH(1-4) by auto
  qed
qed

end
