(* ===== verification/Memory_Properties.thy ===== *)
theory Memory_Properties
  imports Memory_Session Yfs_Files
begin

text \<open>The use of memory by the extent server.\<close>



end
