(* ===== verification/Buffer_Memory.thy ===== *)
theory Buffer_Memory
  imports Marshall Memory "HOL-Library.Multiset"
begin

text \<open>
  The buffers of src/rpc/marshall.h as memory that somebody owns: a \<open>marshall\<close> and an
  \<open>unmarshall\<close> hold a pointer, their destructors release it, \<open>take_buf\<close> hands it to the
  caller, and the constructor \<open>unmarshall(char *, int)\<close> takes it from the caller.
  The values of theory Marshall are what the pointers point to.
\<close>

section \<open>Objects with pointers\<close>

type_synonym bytes_mem = "byte list memory"

record marshall_obj =
  mo_buf :: nat
  mo_capa :: nat
  mo_ind :: nat

record unmarshall_obj =
  uo_buf :: nat
  uo_sz :: nat
  uo_ind :: nat
  uo_ok :: bool

text \<open>What \<open>malloc\<close> returns; \<open>VERIFY(_buf)\<close> fails on the null pointer.\<close>

definition marshall_ctor :: "bool \<Rightarrow> (nat \<Rightarrow> byte) \<Rightarrow> bytes_mem \<Rightarrow> (marshall_obj \<times> bytes_mem) result" where
  "marshall_ctor ck junk m =
     (let (buf, m) = malloc (map junk [0..<DEFAULT_RPC_SZ]) m
      in andThen (VERIFY (buf \<noteq> 0)) (\<lambda>_.
         Inr (\<lparr>mo_buf = buf, mo_capa = DEFAULT_RPC_SZ, mo_ind = RPC_HEADER_SZ ck\<rparr>, m)))"

definition marshall_dtor :: "marshall_obj \<Rightarrow> bytes_mem \<Rightarrow> bytes_mem result" where
  "marshall_dtor o' m = (if mo_buf o' \<noteq> 0 then mfree (mo_buf o') m else Inr m)"

definition marshall_size :: "marshall_obj \<Rightarrow> nat" where
  "marshall_size o' = mo_ind o'"

definition marshall_cstr :: "marshall_obj \<Rightarrow> nat" where
  "marshall_cstr o' = mo_buf o'"

definition marshall_content :: "bool \<Rightarrow> marshall_obj \<Rightarrow> bytes_mem \<Rightarrow> byte list result" where
  "marshall_content ck o' m =
     andThen (mload (mo_buf o') m) (\<lambda>buf.
       if mo_ind o' < RPC_HEADER_SZ ck then Inl LengthError
       else if length buf < mo_ind o' then Inl HeapOverflow
       else Inr (take (mo_ind o' - RPC_HEADER_SZ ck) (drop (RPC_HEADER_SZ ck) buf)))"

definition marshall_str :: "bool \<Rightarrow> marshall_obj \<Rightarrow> bytes_mem \<Rightarrow> byte list result" where
  "marshall_str ck o' m = marshall_content ck o' m"

definition marshall_take :: "marshall_obj \<Rightarrow> (nat \<times> nat) \<times> marshall_obj" where
  "marshall_take o' = ((mo_buf o', mo_ind o'), o'\<lparr>mo_buf := 0, mo_ind := 0\<rparr>)"

definition unmarshall_ctor :: unmarshall_obj where
  "unmarshall_ctor = \<lparr>uo_buf = 0, uo_sz = 0, uo_ind = 0, uo_ok = False\<rparr>"

definition unmarshall_ctor_buf :: "nat \<Rightarrow> nat \<Rightarrow> unmarshall_obj" where
  "unmarshall_ctor_buf b sz = \<lparr>uo_buf = b, uo_sz = sz, uo_ind = 0, uo_ok = True\<rparr>"

definition unmarshall_dtor :: "unmarshall_obj \<Rightarrow> bytes_mem \<Rightarrow> bytes_mem result" where
  "unmarshall_dtor o' m = (if uo_buf o' \<noteq> 0 then mfree (uo_buf o') m else Inr m)"

text \<open>
  \<open>realloc\<close> keeps the bytes that fit into the new size; \<open>memcpy\<close> writes behind the
  header.  The size is an \<open>int\<close>.
\<close>

definition resized :: "nat \<Rightarrow> (nat \<Rightarrow> byte) \<Rightarrow> byte list \<Rightarrow> byte list" where
  "resized n junk old = map (\<lambda>i. if i < length old then old ! i else junk i) [0..<n]"

definition unmarshall_take_content ::
    "bool \<Rightarrow> (nat \<Rightarrow> byte) \<Rightarrow> byte list \<Rightarrow> unmarshall_obj \<Rightarrow> bytes_mem \<Rightarrow> (unmarshall_obj \<times> bytes_mem) result" where
  "unmarshall_take_content ck junk s o' m =
     (let sz = sint (word_of_nat (length s + RPC_HEADER_SZ ck) :: u32)
      in if sz < 0 then Inl VerifyFailed
         else andThen (mrealloc (uo_buf o') (resized (nat sz) junk []) (resized (nat sz) junk) m) (\<lambda>(buf, m).
              andThen (VERIFY (buf \<noteq> 0)) (\<lambda>_.
              andThen (mload buf m) (\<lambda>old.
                if length old < RPC_HEADER_SZ ck + length s then Inl HeapOverflow
                else andThen (mstore buf (take (RPC_HEADER_SZ ck) old @ s @ drop (RPC_HEADER_SZ ck + length s) old) m) (\<lambda>m.
                     Inr (\<lparr>uo_buf = buf, uo_sz = nat sz, uo_ind = RPC_HEADER_SZ ck, uo_ok = True\<rparr>, m))))))"

definition unmarshall_ctor_content ::
    "bool \<Rightarrow> (nat \<Rightarrow> byte) \<Rightarrow> byte list \<Rightarrow> bytes_mem \<Rightarrow> (unmarshall_obj \<times> bytes_mem) result" where
  "unmarshall_ctor_content ck junk s m = unmarshall_take_content ck junk s unmarshall_ctor m"

definition unmarshall_take :: "unmarshall_obj \<Rightarrow> (nat \<times> nat) \<times> unmarshall_obj" where
  "unmarshall_take o' = ((uo_buf o', uo_sz o'), o'\<lparr>uo_buf := 0, uo_sz := 0, uo_ind := 0\<rparr>)"

definition unmarshall_is_ok :: "unmarshall_obj \<Rightarrow> bool" where "unmarshall_is_ok o' = uo_ok o'"
definition unmarshall_cstr :: "unmarshall_obj \<Rightarrow> nat" where "unmarshall_cstr o' = uo_buf o'"
definition unmarshall_ind :: "unmarshall_obj \<Rightarrow> nat" where "unmarshall_ind o' = uo_ind o'"
definition unmarshall_size :: "unmarshall_obj \<Rightarrow> nat" where "unmarshall_size o' = uo_sz o'"

section \<open>What the pointers point to\<close>

definition at_ptr :: "nat \<Rightarrow> bytes_mem \<Rightarrow> byte list" where
  "at_ptr p m = (case cells m p of None \<Rightarrow> [] | Some b \<Rightarrow> b)"

definition marshall_value :: "marshall_obj \<Rightarrow> bytes_mem \<Rightarrow> marshall" where
  "marshall_value o' m = \<lparr>m_buf = at_ptr (mo_buf o') m, m_ind = mo_ind o'\<rparr>"

definition unmarshall_value :: "unmarshall_obj \<Rightarrow> bytes_mem \<Rightarrow> unmarshall" where
  "unmarshall_value o' m = \<lparr>u_buf = at_ptr (uo_buf o') m, u_sz = uo_sz o', u_ind = uo_ind o', u_ok = uo_ok o'\<rparr>"

lemma at_ptr_null [simp]: "mem_ok m \<Longrightarrow> at_ptr 0 m = []"
  by (simp add: at_ptr_def mem_ok_null)

lemma malloc_simps:
  "malloc c m = (p, m') \<longleftrightarrow> p = Suc (last_ptr m) \<and> m' = m\<lparr>cells := (cells m)(p \<mapsto> c), last_ptr := p\<rparr>"
  by (auto simp: malloc_def Let_def)

lemma marshall_ctor_eq:
  "marshall_ctor ck junk m =
     Inr (\<lparr>mo_buf = Suc (last_ptr m), mo_capa = DEFAULT_RPC_SZ, mo_ind = RPC_HEADER_SZ ck\<rparr>,
          snd (malloc (map junk [0..<DEFAULT_RPC_SZ]) m))"
  by (simp add: marshall_ctor_def malloc_def Let_def)

lemma marshall_ctor_value:
  "marshall_ctor ck junk m = Inr (o', m') \<Longrightarrow> marshall_value o' m' = marshall_new ck junk"
  by (auto simp: marshall_ctor_eq malloc_def Let_def marshall_value_def marshall_new_def at_ptr_def)

lemma marshall_take_value:
  "mem_ok m \<Longrightarrow> marshall_take o' = ((p, n), o'') \<Longrightarrow>
   take_buf (marshall_value o' m) = ((at_ptr p m, n), marshall_value o'' m)"
  by (auto simp: marshall_take_def take_buf_def marshall_value_def)

lemma marshall_content_value:
  "mload (mo_buf o') m = Inr b \<Longrightarrow> RPC_HEADER_SZ ck \<le> mo_ind o' \<Longrightarrow> mo_ind o' \<le> length b \<Longrightarrow>
   marshall_content ck o' m = Inr (get_content ck (marshall_value o' m))"
  by (auto simp: marshall_content_def get_content_def marshall_value_def at_ptr_def mload_def split: if_splits option.splits)

lemma unmarshall_ctor_value:
  "mem_ok m \<Longrightarrow> unmarshall_value unmarshall_ctor m = unmarshall_new"
  "unmarshall_value (unmarshall_ctor_buf p n) m = unmarshall_buf (at_ptr p m) n"
  by (simp_all add: unmarshall_value_def unmarshall_ctor_def unmarshall_new_def unmarshall_ctor_buf_def unmarshall_buf_def)

lemma unmarshall_take_value:
  "mem_ok m \<Longrightarrow> unmarshall_take o' = ((p, n), o'') \<Longrightarrow>
   unmarshall_take_buf (unmarshall_value o' m) = ((at_ptr p m, n), unmarshall_value o'' m)"
  by (auto simp: unmarshall_take_def unmarshall_take_buf_def unmarshall_value_def)

lemma unmarshall_take_content_value:
  assumes ok: "mem_ok m" and p: "uo_buf o' = 0 \<or> cells m (uo_buf o') \<noteq> None"
    and r: "take_content ck junk (unmarshall_value o' m) s = Inr u"
  shows "\<exists>o'' m'. unmarshall_take_content ck junk s o' m = Inr (o'', m') \<and> unmarshall_value o'' m' = u"
proof -
  let ?n = "length s + RPC_HEADER_SZ ck" and ?old = "at_ptr (uo_buf o') m"
  have sz: "sint (word_of_nat ?n :: u32) = int ?n"
  proof (cases "?n < 2 ^ 31")
    case True
    then show ?thesis by (rule sint_of_nat_u32)
  next
    case False
    then have "sint (word_of_nat ?n :: u32) < int ?n"
      using sint_lt [of "word_of_nat ?n :: u32"] by simp
    then show ?thesis using r by (simp add: take_content_def Let_def split: if_splits)
  qed
  have u: "u = \<lparr>u_buf = map (\<lambda>i. if i < length ?old then ?old ! i else junk i) [0..<RPC_HEADER_SZ ck] @ s,
      u_sz = ?n, u_ind = RPC_HEADER_SZ ck, u_ok = True\<rparr>"
    using r unfolding take_content_def Let_def sz by (auto simp: unmarshall_value_def simp flip: of_nat_add)
  define new where "new = resized ?n junk ?old"
  have new: "length new = ?n" "take (RPC_HEADER_SZ ck) new =
      map (\<lambda>i. if i < length ?old then ?old ! i else junk i) [0..<RPC_HEADER_SZ ck]"
    by (simp_all add: new_def resized_def take_map take_upt)
  let ?q = "Suc (last_ptr m)"
  obtain m1 where m1: "mrealloc (uo_buf o') (resized ?n junk []) (resized ?n junk) m = Inr (?q, m1)"
      "cells m1 ?q = Some new"
  proof (cases "uo_buf o' = 0")
    case True
    then show ?thesis
      using that [of "snd (malloc new m)"] ok by (simp add: mrealloc_def malloc_def Let_def new_def)
  next
    case False
    then obtain old where "cells m (uo_buf o') = Some old" using p by auto
    then show ?thesis
      using that False by (auto simp: mrealloc_def mload_def mfree_def malloc_def Let_def new_def at_ptr_def)
  qed
  have l: "mload ?q m1 = Inr new" using m1(2) by (simp add: mload_def)
  let ?c = "take (RPC_HEADER_SZ ck) new @ s @ drop (RPC_HEADER_SZ ck + length s) new"
  have st: "mstore ?q ?c m1 = Inr (m1\<lparr>cells := (cells m1)(?q \<mapsto> ?c)\<rparr>)" by (simp add: mstore_def l)
  have "unmarshall_take_content ck junk s o' m =
      Inr (\<lparr>uo_buf = ?q, uo_sz = ?n, uo_ind = RPC_HEADER_SZ ck, uo_ok = True\<rparr>, m1\<lparr>cells := (cells m1)(?q \<mapsto> ?c)\<rparr>)"
    unfolding unmarshall_take_content_def Let_def sz nat_int using m1(1) l st new(1) by simp
  then show ?thesis
    using new by (auto simp: u unmarshall_value_def at_ptr_def)
qed

end
