(* ===== verification/Buffer_Owners.thy ===== *)
theory Buffer_Owners
  imports Buffer_Memory
begin

text \<open>
  Who owns the message buffers: programs that make, fill, hand over and destroy
  \<open>marshall\<close> and \<open>unmarshall\<close> objects, one step at a time.  The classes have the copy
  constructor and the assignment that the compiler gives them, member by member: the
  programs may copy objects without a buffer, and the property says what a copy of any other
  object does.  \<open>unmarshall::take_in\<close> is only declared in src/rpc/marshall.h, so it is a
  parameter.
\<close>

section \<open>Programs\<close>

datatype owner = MObj marshall_obj | UObj unmarshall_obj | Raw nat | Gone

fun owner_ptr :: "owner \<Rightarrow> nat" where
  "owner_ptr (MObj x) = mo_buf x"
| "owner_ptr (UObj x) = uo_buf x"
| "owner_ptr (Raw p) = p"
| "owner_ptr Gone = 0"

record buffers =
  bf_mem :: bytes_mem
  bf_owners :: "owner list"

text \<open>The end of an owner: the destructors, and \<open>free\<close> for a buffer that was handed over.\<close>

fun release :: "owner \<Rightarrow> bytes_mem \<Rightarrow> bytes_mem result" where
  "release (MObj x) m = marshall_dtor x m"
| "release (UObj x) m = unmarshall_dtor x m"
| "release (Raw p) m = mfree p m"
| "release Gone m = Inr m"

text \<open>The copies that the compiler makes; a pointer that was handed over is copied as it is.\<close>

definition marshall_copy :: "marshall_obj \<Rightarrow> marshall_obj" where
  "marshall_copy x = \<lparr>mo_buf = mo_buf x, mo_capa = mo_capa x, mo_ind = mo_ind x\<rparr>"

definition unmarshall_copy :: "unmarshall_obj \<Rightarrow> unmarshall_obj" where
  "unmarshall_copy x = \<lparr>uo_buf = uo_buf x, uo_sz = uo_sz x, uo_ind = uo_ind x, uo_ok = uo_ok x\<rparr>"

fun copied :: "owner \<Rightarrow> owner" where
  "copied (MObj x) = MObj (marshall_copy x)"
| "copied (UObj x) = UObj (unmarshall_copy x)"
| "copied (Raw p) = Raw p"
| "copied Gone = Gone"

fun same_class :: "owner \<Rightarrow> owner \<Rightarrow> bool" where
  "same_class (MObj _) (MObj _) \<longleftrightarrow> True"
| "same_class (UObj _) (UObj _) \<longleftrightarrow> True"
| "same_class _ _ \<longleftrightarrow> False"

lemma owner_ptr_copied [simp]: "owner_ptr (copied x) = owner_ptr x"
  by (cases x) (simp_all add: marshall_copy_def unmarshall_copy_def)

text \<open>
  \<open>x.take_in(y)\<close>: \<open>take contents from another unmarshall object\<close>.  What is relied on: the
  buffer of \<open>x\<close> is released, that of \<open>y\<close> is now the one of \<open>x\<close>, and \<open>y\<close> has none.
\<close>

type_synonym take_in = "unmarshall_obj \<Rightarrow> unmarshall_obj \<Rightarrow> bytes_mem \<Rightarrow> (unmarshall_obj \<times> unmarshall_obj \<times> bytes_mem) result"

definition take_in_spec :: "take_in \<Rightarrow> bool" where
  "take_in_spec T \<longleftrightarrow> (\<forall>x y m x' y' m'. T x y m = Inr (x', y', m') \<longrightarrow>
     mfree (uo_buf x) m = Inr m' \<and> uo_buf x' = uo_buf y \<and> uo_buf y' = 0)"

text \<open>
  The steps.  \<open>grow\<close> is an operator \<open><<\<close>: the buffer is \<open>dynamically readjusted\<close>, which
  may move it.  The caller of \<open>unmarshall(char *, int)\<close> gives its buffer away.
\<close>

inductive own_step :: "take_in \<Rightarrow> bool \<Rightarrow> (nat \<Rightarrow> byte) \<Rightarrow> buffers \<Rightarrow> buffers \<Rightarrow> bool" for T ck junk where
  new_marshall: "marshall_ctor ck junk (bf_mem s) = Inr (x, m) \<Longrightarrow>
     own_step T ck junk s \<lparr>bf_mem = m, bf_owners = bf_owners s @ [MObj x]\<rparr>"
| new_unmarshall: "own_step T ck junk s (s\<lparr>bf_owners := bf_owners s @ [UObj unmarshall_ctor]\<rparr>)"
| new_content: "unmarshall_ctor_content ck junk d (bf_mem s) = Inr (x, m) \<Longrightarrow>
     own_step T ck junk s \<lparr>bf_mem = m, bf_owners = bf_owners s @ [UObj x]\<rparr>"
| new_buf: "i < length (bf_owners s) \<Longrightarrow> bf_owners s ! i = Raw p \<Longrightarrow>
     own_step T ck junk s (s\<lparr>bf_owners := (bf_owners s)[i := Gone] @ [UObj (unmarshall_ctor_buf p n)]\<rparr>)"
| take_marshall: "i < length (bf_owners s) \<Longrightarrow> bf_owners s ! i = MObj x \<Longrightarrow> marshall_take x = ((p, n), x') \<Longrightarrow>
     own_step T ck junk s (s\<lparr>bf_owners := (bf_owners s)[i := MObj x'] @ [Raw p]\<rparr>)"
| take_unmarshall: "i < length (bf_owners s) \<Longrightarrow> bf_owners s ! i = UObj x \<Longrightarrow> unmarshall_take x = ((p, n), x') \<Longrightarrow>
     own_step T ck junk s (s\<lparr>bf_owners := (bf_owners s)[i := UObj x'] @ [Raw p]\<rparr>)"
| content: "i < length (bf_owners s) \<Longrightarrow> bf_owners s ! i = UObj x \<Longrightarrow>
     unmarshall_take_content ck junk d x (bf_mem s) = Inr (x', m) \<Longrightarrow>
     own_step T ck junk s \<lparr>bf_mem = m, bf_owners = (bf_owners s)[i := UObj x']\<rparr>"
| grow: "i < length (bf_owners s) \<Longrightarrow> bf_owners s ! i = MObj x \<Longrightarrow>
     mrealloc (mo_buf x) c f (bf_mem s) = Inr (p, m) \<Longrightarrow>
     own_step T ck junk s \<lparr>bf_mem = m, bf_owners = (bf_owners s)[i := MObj (x\<lparr>mo_buf := p, mo_capa := k, mo_ind := n\<rparr>)]\<rparr>"
| take_in: "i < length (bf_owners s) \<Longrightarrow> j < length (bf_owners s) \<Longrightarrow> i \<noteq> j \<Longrightarrow>
     bf_owners s ! i = UObj x \<Longrightarrow> bf_owners s ! j = UObj y \<Longrightarrow> T x y (bf_mem s) = Inr (x', y', m) \<Longrightarrow>
     own_step T ck junk s \<lparr>bf_mem = m, bf_owners = (bf_owners s)[i := UObj x', j := UObj y']\<rparr>"
| copy_empty: "i < length (bf_owners s) \<Longrightarrow> same_class (bf_owners s ! i) (bf_owners s ! i) \<Longrightarrow>
     owner_ptr (bf_owners s ! i) = 0 \<Longrightarrow>
     own_step T ck junk s (s\<lparr>bf_owners := bf_owners s @ [copied (bf_owners s ! i)]\<rparr>)"
| assign_empty: "i < length (bf_owners s) \<Longrightarrow> j < length (bf_owners s) \<Longrightarrow>
     same_class (bf_owners s ! i) (bf_owners s ! j) \<Longrightarrow>
     owner_ptr (bf_owners s ! i) = 0 \<Longrightarrow> owner_ptr (bf_owners s ! j) = 0 \<Longrightarrow>
     own_step T ck junk s (s\<lparr>bf_owners := (bf_owners s)[i := copied (bf_owners s ! j)]\<rparr>)"
| finish: "i < length (bf_owners s) \<Longrightarrow> release (bf_owners s ! i) (bf_mem s) = Inr m \<Longrightarrow>
     own_step T ck junk s \<lparr>bf_mem = m, bf_owners = (bf_owners s)[i := Gone]\<rparr>"

inductive own_reachable :: "take_in \<Rightarrow> bool \<Rightarrow> (nat \<Rightarrow> byte) \<Rightarrow> buffers \<Rightarrow> bool" for T ck junk where
  start: "own_reachable T ck junk \<lparr>bf_mem = \<lparr>cells = Map.empty, last_ptr = k\<rparr>, bf_owners = []\<rparr>"
| step: "own_reachable T ck junk s \<Longrightarrow> own_step T ck junk s s' \<Longrightarrow> own_reachable T ck junk s'"

section \<open>Every cell has one owner\<close>

definition ptrs :: "owner \<Rightarrow> nat multiset" where
  "ptrs x = (if owner_ptr x = 0 then {#} else {#owner_ptr x#})"

definition owned :: "owner list \<Rightarrow> nat multiset" where
  "owned xs = (\<Sum>x\<in>#mset xs. ptrs x)"

lemma owned_simps [simp]:
  "owned [] = {#}" "owned (x # xs) = ptrs x + owned xs" "owned (xs @ ys) = owned xs + owned ys"
  by (simp_all add: owned_def)

lemma ptrs_simps [simp]:
  "ptrs Gone = {#}" "ptrs (Raw 0) = {#}" "owner_ptr x = 0 \<Longrightarrow> ptrs x = {#}"
  by (simp_all add: ptrs_def)

lemma owned_update:
  "i < length xs \<Longrightarrow> owned (xs[i := x]) + ptrs (xs ! i) = owned xs + ptrs x"
proof (induction xs arbitrary: i)
  case (Cons y ys)
  then show ?case by (cases i) (auto simp: ac_simps)
qed simp

definition own_ok :: "buffers \<Rightarrow> bool" where
  "own_ok s \<longleftrightarrow> mem_ok (bf_mem s) \<and> owned (bf_owners s) = mset_set (dom (cells (bf_mem s)))"

text \<open>The memory operations on the multiset of cells.\<close>

abbreviation cell_set :: "'c memory \<Rightarrow> nat multiset" where
  "cell_set m \<equiv> mset_set (dom (cells m))"

lemma malloc_set:
  assumes "mem_ok m" "malloc c m = (p, m')"
  shows "mem_ok m'" "p \<noteq> 0" "cell_set m' = cell_set m + {#p#}"
proof -
  note M = malloc_grows [OF assms]
  show "mem_ok m'" "p \<noteq> 0" using growsD(2) [OF M(1)] M(5) by auto
  have "dom (cells m') = insert p (dom (cells m))" using assms(2) by (auto simp: malloc_simps)
  then show "cell_set m' = cell_set m + {#p#}"
    using M(3) mem_ok_finite [OF assms(1)] by (simp add: domIff)
qed

lemma mfree_set:
  assumes "mem_ok m" "mfree p m = Inr m'"
  shows "mem_ok m'" "cell_set m' + (if p = 0 then {#} else {#p#}) = cell_set m"
proof -
  have p: "p = 0 \<and> m' = m \<or> p \<noteq> 0 \<and> cells m p \<noteq> None \<and> m' = m\<lparr>cells := (cells m)(p := None)\<rparr>"
    using assms(2) by (auto simp: mfree_def mload_def split: if_splits option.splits)
  then show "mem_ok m'" using assms(1) by (auto simp: mem_ok_def split: if_splits)
  show "cell_set m' + (if p = 0 then {#} else {#p#}) = cell_set m"
    using p mset_set.remove [OF mem_ok_finite [OF assms(1)], of p] by (auto simp: domI)
qed

lemma mrealloc_set:
  assumes "mem_ok m" "mrealloc p c f m = Inr (q, m')"
  shows "mem_ok m'" "q \<noteq> 0" "cell_set m' + (if p = 0 then {#} else {#p#}) = cell_set m + {#q#}"
proof -
  have "mem_ok m' \<and> q \<noteq> 0 \<and> cell_set m' + (if p = 0 then {#} else {#p#}) = cell_set m + {#q#}"
  proof (cases "p = 0")
    case True
    then show ?thesis using malloc_set [OF assms(1), of c q m'] assms(2) by (simp add: mrealloc_def)
  next
    case False
    then obtain old m1 where m1: "mfree p m = Inr m1" "malloc (f old) m1 = (q, m')"
      using assms(2) by (auto simp: mrealloc_def andThen_eq_Inr_iff)
    show ?thesis
      using malloc_set [OF mfree_set(1) [OF assms(1) m1(1)] m1(2)] mfree_set(2) [OF assms(1) m1(1)] False by auto
  qed
  then show "mem_ok m'" "q \<noteq> 0" "cell_set m' + (if p = 0 then {#} else {#p#}) = cell_set m + {#q#}" by auto
qed

lemma mstore_set:
  assumes "mem_ok m" "mstore p c m = Inr m'"
  shows "mem_ok m'" "cell_set m' = cell_set m"
proof -
  have "m' = m\<lparr>cells := (cells m)(p \<mapsto> c)\<rparr>" "cells m p \<noteq> None"
    using assms(2) by (auto simp: mstore_def mload_def split: if_splits option.splits)
  then show "mem_ok m'" "cell_set m' = cell_set m"
    using assms(1) by (auto simp: mem_ok_def insert_absorb domIff)
qed

lemma take_content_set:
  assumes "mem_ok m" "unmarshall_take_content ck junk d x m = Inr (x', m')"
  shows "mem_ok m'" "cell_set m' + ptrs (UObj x) = cell_set m + ptrs (UObj x')"
proof -
  obtain q m1 c where r: "mrealloc (uo_buf x) (resized (nat (sint (word_of_nat (length d + RPC_HEADER_SZ ck) :: u32))) junk [])
        (resized (nat (sint (word_of_nat (length d + RPC_HEADER_SZ ck) :: u32))) junk) m = Inr (q, m1)"
      "mstore q c m1 = Inr m'" "uo_buf x' = q"
    using assms(2) unfolding unmarshall_take_content_def Let_def
    by (auto simp: andThen_eq_Inr_iff split: if_splits)
  note R = mrealloc_set [OF assms(1) r(1)]
  show "mem_ok m'" "cell_set m' + ptrs (UObj x) = cell_set m + ptrs (UObj x')"
    using mstore_set [OF R(1) r(2)] R(2,3) r(3) by (auto simp: ptrs_def)
qed

lemma release_set:
  assumes "mem_ok m" "release x m = Inr m'"
  shows "mem_ok m'" "cell_set m' + ptrs x = cell_set m"
proof -
  have "mfree (owner_ptr x) m = Inr m'"
    using assms(2) by (cases x) (auto simp: marshall_dtor_def unmarshall_dtor_def mfree_def split: if_splits)
  from mfree_set [OF assms(1) this] show "mem_ok m'" "cell_set m' + ptrs x = cell_set m"
    by (auto simp: ptrs_def)
qed

lemma own_step_ok:
  assumes "own_step T ck junk s s'" "own_ok s" "take_in_spec T"
  shows "own_ok s'"
  using assms(1)
proof cases
  case (new_marshall x m)
  then show ?thesis
    using malloc_set [of "bf_mem s" "map junk [0..<DEFAULT_RPC_SZ]" "Suc (last_ptr (bf_mem s))" m] assms(2)
    by (auto simp: own_ok_def marshall_ctor_eq ptrs_def malloc_def Let_def)
next
  case new_unmarshall
  then show ?thesis using assms(2) by (simp add: own_ok_def unmarshall_ctor_def)
next
  case (new_content d x m)
  then show ?thesis
    using take_content_set [of "bf_mem s" ck junk d unmarshall_ctor x m] assms(2)
    by (simp add: own_ok_def unmarshall_ctor_content_def) (simp add: unmarshall_ctor_def)
next
  case (new_buf i p n)
  then show ?thesis
    using owned_update [of i "bf_owners s" Gone] assms(2) by (auto simp: own_ok_def unmarshall_ctor_buf_def ptrs_def)
next
  case (take_marshall i x p n x')
  then show ?thesis
    using owned_update [of i "bf_owners s" "MObj x'"] assms(2) by (auto simp: own_ok_def marshall_take_def ptrs_def)
next
  case (take_unmarshall i x p n x')
  then show ?thesis
    using owned_update [of i "bf_owners s" "UObj x'"] assms(2) by (auto simp: own_ok_def unmarshall_take_def ptrs_def)
next
  case (content i x d x' m)
  have "cell_set m + ptrs (UObj x) = owned (bf_owners s) + ptrs (UObj x')" "mem_ok m"
    using take_content_set [OF _ content(4)] assms(2) by (auto simp: own_ok_def)
  moreover have "owned ((bf_owners s)[i := UObj x']) + ptrs (UObj x) = owned (bf_owners s) + ptrs (UObj x')"
    using owned_update [OF content(2), of "UObj x'"] content(3) by simp
  ultimately have "owned ((bf_owners s)[i := UObj x']) = cell_set m" by (metis add_right_imp_eq)
  with \<open>mem_ok m\<close> show ?thesis using content(1) by (simp add: own_ok_def)
next
  case (grow i x c f p m n k)
  have "cell_set m + ptrs (MObj x) = owned (bf_owners s) + {#p#}" "mem_ok m" "p \<noteq> 0"
    using mrealloc_set [OF _ grow(4)] assms(2) by (auto simp: own_ok_def ptrs_def)
  moreover have "owned ((bf_owners s)[i := MObj (x\<lparr>mo_buf := p, mo_capa := k, mo_ind := n\<rparr>)]) + ptrs (MObj x) =
      owned (bf_owners s) + {#p#}"
    using owned_update [OF grow(2), of "MObj (x\<lparr>mo_buf := p, mo_capa := k, mo_ind := n\<rparr>)"] grow(3) calculation(3)
    by (simp add: ptrs_def)
  ultimately have "owned ((bf_owners s)[i := MObj (x\<lparr>mo_buf := p, mo_capa := k, mo_ind := n\<rparr>)]) = cell_set m"
    by (metis add_right_imp_eq)
  with \<open>mem_ok m\<close> show ?thesis using grow(1) by (simp add: own_ok_def)
next
  case (take_in i j x y x' y' m)
  have T: "mfree (uo_buf x) (bf_mem s) = Inr m" "uo_buf x' = uo_buf y" "uo_buf y' = 0"
    using assms(3) take_in(7) by (auto simp: take_in_spec_def)
  let ?mid = "(bf_owners s)[i := UObj x']" and ?fin = "(bf_owners s)[i := UObj x', j := UObj y']"
  have p: "ptrs (UObj y') = {#}" "ptrs (UObj x') = ptrs (UObj y)" using T(2,3) by (simp_all add: ptrs_def)
  have c: "cell_set m + ptrs (UObj x) = owned (bf_owners s)" "mem_ok m"
    using mfree_set [OF _ T(1)] assms(2) by (auto simp: own_ok_def ptrs_def)
  have "owned ?mid + ptrs (UObj x) = (cell_set m + ptrs (UObj y)) + ptrs (UObj x)"
    using owned_update [OF take_in(2), of "UObj x'"] by (simp add: take_in(5) p c(1) [symmetric] ac_simps)
  then have "owned ?mid = cell_set m + ptrs (UObj y)" by (rule add_right_imp_eq)
  moreover have "owned ?fin + ptrs (UObj y) = owned ?mid"
    using owned_update [of j ?mid "UObj y'"] take_in(3,4,6) by (simp add: p)
  ultimately have "owned ?fin + ptrs (UObj y) = cell_set m + ptrs (UObj y)" by (simp only:)
  then have "owned ?fin = cell_set m" by (rule add_right_imp_eq)
  then show ?thesis using take_in(1) c(2) by (simp add: own_ok_def)
next
  case (copy_empty i)
  then show ?thesis using assms(2) by (simp add: own_ok_def)
next
  case (assign_empty i j)
  then show ?thesis
    using owned_update [of i "bf_owners s" "copied (bf_owners s ! j)"] assms(2) by (simp add: own_ok_def)
next
  case (finish i m)
  have "cell_set m + ptrs (bf_owners s ! i) = owned (bf_owners s)" "mem_ok m"
    using release_set [OF _ finish(3)] assms(2) by (auto simp: own_ok_def)
  moreover have "owned ((bf_owners s)[i := Gone]) + ptrs (bf_owners s ! i) = owned (bf_owners s)"
    using owned_update [OF finish(2), of Gone] by simp
  ultimately have "owned ((bf_owners s)[i := Gone]) = cell_set m" by (metis add_right_imp_eq)
  with \<open>mem_ok m\<close> show ?thesis using finish(1) by (simp add: own_ok_def)
qed

lemma own_reachable_ok:
  assumes "own_reachable T ck junk s" "take_in_spec T"
  shows "own_ok s"
  using assms(1)
proof induction
  case (start k)
  show ?case by (simp add: own_ok_def)
next
  case (step s s')
  then show ?case using own_step_ok assms(2) by blast
qed

section \<open>The property\<close>

lemma ptr_owned: "x \<in> set xs \<Longrightarrow> owner_ptr x \<noteq> 0 \<Longrightarrow> owner_ptr x \<in># owned xs"
  by (induction xs) (auto simp: ptrs_def)

lemma two_owners:
  "i < length xs \<Longrightarrow> j < length xs \<Longrightarrow> i \<noteq> j \<Longrightarrow> owner_ptr (xs ! i) = p \<Longrightarrow> owner_ptr (xs ! j) = p \<Longrightarrow>
   p \<noteq> 0 \<Longrightarrow> 2 \<le> count (owned xs) p"
proof (induction xs arbitrary: i j)
  case (Cons x xs)
  have one: "owner_ptr (xs ! k) = p \<Longrightarrow> k < length xs \<Longrightarrow> 1 \<le> count (owned xs) p" for k
    using ptr_owned [of "xs ! k" xs] Cons.prems(6) by simp
  show ?case
  proof (cases i; cases j)
    fix k l assume "i = Suc k" "j = Suc l"
    then show ?thesis using Cons.IH [of k l] Cons.prems by auto
  next
    fix k assume "i = 0" "j = Suc k"
    then show ?thesis using Cons.prems one [of k] by (simp add: ptrs_def)
  next
    fix k assume "i = Suc k" "j = 0"
    then show ?thesis using Cons.prems one [of k] by (simp add: ptrs_def)
  qed (use Cons.prems in simp)
qed simp

text \<open>A buffer that is released once cannot be released again.\<close>

lemma release_twice:
  assumes "mem_ok m" "owner_ptr x \<noteq> 0" "release x m = Inr m'" "owner_ptr y = owner_ptr x"
  shows "release y m' = Inl BadPointer"
proof -
  have "mfree (owner_ptr x) m = Inr m'"
    using assms(2,3) by (cases x) (auto simp: marshall_dtor_def unmarshall_dtor_def)
  then have "mfree (owner_ptr y) m' = Inl BadPointer"
    using assms(2,4) by (auto simp: mfree_def mload_def split: option.splits)
  then show ?thesis
    using assms(2,4) by (cases y) (auto simp: marshall_dtor_def unmarshall_dtor_def)
qed

text \<open>
  C23. Buffers of messages are released once, as long as no object that holds one is copied.
  However a program makes, fills, reads into, hands over and destroys marshall and
  unmarshall objects, takes one into another, and copies or assigns objects without a
  buffer: no two owners ever hold the same buffer, every owner that is left can
  be destroyed without touching released memory, as many buffers are allocated as owners
  hold one, and when all objects are destroyed and all buffers handed over are freed, none
  is left.  The restriction is needed: in every state so reached, an object that holds a buffer and
  its copy release it twice, and an assignment to an object that holds a buffer leaves that
  allocated without an owner.
\<close>

theorem buffers_owned:
  assumes "take_in_spec T" "own_reachable T ck junk s"
  shows "(\<forall>i j. i < length (bf_owners s) \<longrightarrow> j < length (bf_owners s) \<longrightarrow> i \<noteq> j \<longrightarrow>
        owner_ptr (bf_owners s ! i) \<noteq> 0 \<longrightarrow> owner_ptr (bf_owners s ! i) \<noteq> owner_ptr (bf_owners s ! j)) \<and>
    (\<forall>i < length (bf_owners s). \<exists>m. release (bf_owners s ! i) (bf_mem s) = Inr m) \<and>
    allocated (bf_mem s) = length (filter (\<lambda>x. owner_ptr x \<noteq> 0) (bf_owners s)) \<and>
    (list_all (\<lambda>x. x = Gone) (bf_owners s) \<longrightarrow> cells (bf_mem s) = Map.empty) \<and>
    (\<forall>x \<in> set (bf_owners s). owner_ptr x \<noteq> 0 \<longrightarrow>
      (\<exists>m. release x (bf_mem s) = Inr m \<and> release (copied x) m = Inl BadPointer)) \<and>
    (\<forall>i j. i < length (bf_owners s) \<longrightarrow> j < length (bf_owners s) \<longrightarrow> i \<noteq> j \<longrightarrow>
      same_class (bf_owners s ! i) (bf_owners s ! j) \<longrightarrow> owner_ptr (bf_owners s ! i) \<noteq> 0 \<longrightarrow>
      cells (bf_mem s) (owner_ptr (bf_owners s ! i)) \<noteq> None \<and>
      (\<forall>x \<in> set ((bf_owners s)[i := copied (bf_owners s ! j)]). owner_ptr x \<noteq> owner_ptr (bf_owners s ! i)))"
proof -
  have ok: "mem_ok (bf_mem s)" and own: "owned (bf_owners s) = cell_set (bf_mem s)"
    using own_reachable_ok [OF assms(2,1)] by (auto simp: own_ok_def)
  note fin = mem_ok_finite [OF ok]
  have len: "size (owned xs) = length (filter (\<lambda>x. owner_ptr x \<noteq> 0) xs)" for xs
    by (induction xs) (auto simp: ptrs_def)
  have held: "\<exists>c. cells (bf_mem s) (owner_ptr x) = Some c" if "x \<in> set (bf_owners s)" "owner_ptr x \<noteq> 0" for x
    using ptr_owned [OF that] fin by (auto simp: own)
  have rel: "\<exists>m. release x (bf_mem s) = Inr m" if x: "x \<in> set (bf_owners s)" for x
    using held [OF x] by (cases "owner_ptr x = 0"; cases x)
      (auto simp: marshall_dtor_def unmarshall_dtor_def mfree_def mload_def split: option.splits)
  have one: "owner_ptr (bf_owners s ! i) \<noteq> owner_ptr (bf_owners s ! j)"
    if i: "i < length (bf_owners s)" "j < length (bf_owners s)" "i \<noteq> j" "owner_ptr (bf_owners s ! i) \<noteq> 0" for i j
    using two_owners [OF i(1-3) refl _ i(4)] fin by (auto simp: own count_mset_set' split: if_splits)
  show ?thesis
  proof (intro conjI allI impI ballI)
    show "allocated (bf_mem s) = length (filter (\<lambda>x. owner_ptr x \<noteq> 0) (bf_owners s))"
      using len [of "bf_owners s"] by (simp add: own allocated_def)
  next
    assume g: "list_all (\<lambda>x. x = Gone) (bf_owners s)"
    have "list_all (\<lambda>x. x = Gone) xs \<Longrightarrow> owned xs = {#}" for xs by (induction xs) auto
    with g have "cell_set (bf_mem s) = {#}" by (simp add: own [symmetric])
    then show "cells (bf_mem s) = Map.empty" using fin by (simp add: mset_set_empty_iff)
  next
    fix x assume "x \<in> set (bf_owners s)" "owner_ptr x \<noteq> 0"
    then show "\<exists>m. release x (bf_mem s) = Inr m \<and> release (copied x) m = Inl BadPointer"
      using rel release_twice [OF ok] by (metis owner_ptr_copied)
  next
    fix i j x
    assume i: "i < length (bf_owners s)" "j < length (bf_owners s)" "i \<noteq> j" "owner_ptr (bf_owners s ! i) \<noteq> 0"
      and "x \<in> set ((bf_owners s)[i := copied (bf_owners s ! j)])"
    then obtain k where k: "k < length (bf_owners s)" "x = (if k = i then copied (bf_owners s ! j) else bf_owners s ! k)"
      by (auto simp: in_set_conv_nth nth_list_update split: if_splits)
    then show "owner_ptr x \<noteq> owner_ptr (bf_owners s ! i)"
      using one [OF i(1) i(2) i(3) i(4)] one [OF i(1) k(1) _ i(4)] by (auto split: if_splits)
  qed (use rel held one in \<open>auto simp: in_set_conv_nth\<close>)
qed

text \<open>
  A message is written, its buffer handed to an \<open>unmarshall\<close>, which is taken into another one.
\<close>

definition move_in :: take_in where
  "move_in x y m = andThen (mfree (uo_buf x) m) (\<lambda>m.
     Inr (x\<lparr>uo_buf := uo_buf y, uo_sz := uo_sz y, uo_ok := True\<rparr>, y\<lparr>uo_buf := 0, uo_sz := 0, uo_ind := 0\<rparr>, m))"

theorem buffers_owned_witness:
  "\<exists>s. own_reachable move_in False (\<lambda>_. 0) s \<and>
     bf_owners s = [MObj \<lparr>mo_buf = 0, mo_capa = 1024, mo_ind = 0\<rparr>, Gone,
       UObj \<lparr>uo_buf = 0, uo_sz = 0, uo_ind = 0, uo_ok = True\<rparr>,
       UObj \<lparr>uo_buf = 1, uo_sz = 24, uo_ind = 0, uo_ok = True\<rparr>] \<and> allocated (bf_mem s) = 1"
proof -
  let ?s0 = "\<lparr>bf_mem = \<lparr>cells = Map.empty, last_ptr = 0\<rparr>, bf_owners = []\<rparr>"
  let ?m = "\<lparr>cells = [1 \<mapsto> map (\<lambda>_. 0) [0..<DEFAULT_RPC_SZ]], last_ptr = 1\<rparr> :: bytes_mem"
  let ?x = "\<lparr>mo_buf = 1, mo_capa = 1024, mo_ind = 24\<rparr>" and ?x' = "\<lparr>mo_buf = 0, mo_capa = 1024, mo_ind = 0\<rparr>"
  let ?y' = "\<lparr>uo_buf = 0, uo_sz = 0, uo_ind = 0, uo_ok = True\<rparr>" and ?z = "\<lparr>uo_buf = 1, uo_sz = 24, uo_ind = 0, uo_ok = True\<rparr>"
  let ?s1 = "\<lparr>bf_mem = ?m, bf_owners = [MObj ?x]\<rparr>"
  let ?s2 = "\<lparr>bf_mem = ?m, bf_owners = [MObj ?x', Raw 1]\<rparr>"
  let ?s3 = "\<lparr>bf_mem = ?m, bf_owners = [MObj ?x', Gone, UObj (unmarshall_ctor_buf 1 24)]\<rparr>"
  let ?s4 = "\<lparr>bf_mem = ?m, bf_owners = [MObj ?x', Gone, UObj (unmarshall_ctor_buf 1 24), UObj unmarshall_ctor]\<rparr>"
  let ?s5 = "\<lparr>bf_mem = ?m, bf_owners = [MObj ?x', Gone, UObj ?y', UObj ?z]\<rparr>"
  have T: "take_in_spec move_in" by (auto simp: take_in_spec_def move_in_def andThen_eq_Inr_iff)
  have s0: "own_step move_in False (\<lambda>_. 0) ?s0 ?s1"
    using own_step.new_marshall [of False "\<lambda>_. 0" ?s0 ?x ?m]
    by (simp add: marshall_ctor_eq malloc_def Let_def header_layout) (simp add: DEFAULT_RPC_SZ_def)
  have s1: "own_step move_in False (\<lambda>_. 0) ?s1 ?s2"
    using own_step.take_marshall [of 0 ?s1 ?x 1 24 ?x' move_in False "\<lambda>_. 0"] by (simp add: marshall_take_def)
  have s2: "own_step move_in False (\<lambda>_. 0) ?s2 ?s3"
    using own_step.new_buf [of 1 ?s2 1 move_in False "\<lambda>_. 0" 24] by simp
  have s3: "own_step move_in False (\<lambda>_. 0) ?s3 ?s4"
    using own_step.new_unmarshall [of move_in False "\<lambda>_. 0" ?s3] by simp
  have s4: "own_step move_in False (\<lambda>_. 0) ?s4 ?s5"
    using own_step.take_in [of 3 ?s4 2 unmarshall_ctor "unmarshall_ctor_buf 1 24" move_in ?z ?y' ?m False "\<lambda>_. 0"]
    by (simp add: move_in_def unmarshall_ctor_def unmarshall_ctor_buf_def mfree_def)
  note reach = own_reachable.step
  have r: "own_reachable move_in False (\<lambda>_. 0) ?s5"
    by (rule reach [OF reach [OF reach [OF reach [OF reach [OF own_reachable.start s0] s1] s2] s3] s4])
  have "allocated (bf_mem ?s5) = 1"
    using buffers_owned [OF T r, THEN conjunct2, THEN conjunct2, THEN conjunct1] by simp
  with r show ?thesis by (intro exI [of _ ?s5]) simp
qed

end
