(* ===== verification/Fifo_Locks.thy ===== *)
theory Fifo_Locks
  imports Fifo
begin

text \<open>
  The queue of src/rpc/fifo.h with its mutex, statement by statement: theory Fifo takes
  a call from the acquisition of the mutex to its release or to a wait as one step,
  here threads interleave between any two statements and the \<open>ScopedLock\<close> of
  src/rpc/slock.h is what keeps them apart.  Every run of this model is a run of
  that one.
\<close>

section \<open>The scoped lock\<close>

text \<open>A mutex is the thread that holds it.  The constructor waits while there is one.\<close>

type_synonym mutex = "nat option"

definition scoped_lock :: "mutex \<Rightarrow> nat \<Rightarrow> mutex option" where
  "scoped_lock m i = (if m = None then Some (Some i) else None)"

definition scoped_unlock :: "mutex \<Rightarrow> nat \<Rightarrow> mutex result" where
  "scoped_unlock m i = andThen (VERIFY (m = Some i)) (\<lambda>_. Inr None)"

section \<open>Statements\<close>

datatype 'a ret = RetEnq bool | RetDeq 'a

text \<open>
  Where a call is: before the mutex, at the test of the loop, behind the change of
  the list and before the signal, in a wait, before the destructor of the lock, done.
\<close>

datatype 'a pc =
    AtLock "'a op" | InLoop "'a op" | Pushed 'a bool | Popped 'a
  | Waiting "'a op" | Leaving "'a ret" | Finished "'a ret"

definition enq_body :: "'a fifo \<Rightarrow> 'a \<Rightarrow> bool \<Rightarrow> 'a fifo \<times> 'a pc" where
  "enq_body f e blocking =
     (if f_max f = 0 \<or> length (f_q f) < f_max f then (f\<lparr>f_q := f_q f @ [e]\<rparr>, Pushed e blocking)
      else if blocking then (f, Waiting (Enq e blocking))
      else (f, Leaving (RetEnq False)))"

definition deq_body :: "'a fifo \<Rightarrow> 'a fifo \<times> 'a pc" where
  "deq_body f = (case f_q f of [] \<Rightarrow> (f, Waiting Deq) | x # q \<Rightarrow> (f\<lparr>f_q := q\<rparr>, Popped x))"

definition deq_signals :: "'a fifo \<Rightarrow> bool" where
  "deq_signals f \<longleftrightarrow> f_max f \<noteq> 0 \<and> length (f_q f) < f_max f"

fun body :: "'a op \<Rightarrow> 'a fifo \<Rightarrow> 'a fifo \<times> 'a pc" where
  "body (Enq e b) f = enq_body f e b"
| "body Deq f = deq_body f"

record 'a locked =
  lk_fifo :: "'a fifo"
  lk_mutex :: mutex
  lk_pcs :: "'a pc list"
  lk_pushed :: "'a list"
  lk_popped :: "'a list"

section \<open>Interleaved steps\<close>

fun pc_waits :: "'a pc \<Rightarrow> cond option" where
  "pc_waits (Waiting p) = Some (goes_for p)"
| "pc_waits _ = None"

fun pc_wake :: "'a pc \<Rightarrow> 'a pc" where
  "pc_wake (Waiting p) = AtLock p"
| "pc_wake x = x"

definition pc_signalled :: "cond \<Rightarrow> 'a pc list \<Rightarrow> 'a pc list \<Rightarrow> bool" where
  "pc_signalled c xs ys \<longleftrightarrow>
     list_all2 (\<lambda>x y. y = x \<or> pc_waits x = Some c \<and> y = pc_wake x) xs ys \<and>
     (ys = xs \<longrightarrow> (\<forall>x\<in>set xs. pc_waits x \<noteq> Some c))"

text \<open>\<open>fifo::~fifo\<close>: destroying a mutex that is held or a condition with waiters is an error.\<close>

definition fifo_delete :: "'a locked \<Rightarrow> unit result" where
  "fifo_delete s =
     andThen (VERIFY (lk_mutex s = None)) (\<lambda>_.
     andThen (VERIFY (list_all (\<lambda>x. pc_waits x \<noteq> Some NonEmpty) (lk_pcs s))) (\<lambda>_.
     VERIFY (list_all (\<lambda>x. pc_waits x \<noteq> Some HasSpace) (lk_pcs s))))"

text \<open>
  \<open>pthread_cond_wait\<close> releases the mutex and waits in one step; a waiter that wakes
  has to get the mutex again.
\<close>

inductive lock_step :: "'a locked \<Rightarrow> 'a locked \<Rightarrow> bool" where
  acquire: "i < length (lk_pcs s) \<Longrightarrow> lk_pcs s ! i = AtLock p \<Longrightarrow> scoped_lock (lk_mutex s) i = Some m \<Longrightarrow>
     lock_step s (s\<lparr>lk_mutex := m, lk_pcs := (lk_pcs s)[i := InLoop p]\<rparr>)"
| run: "i < length (lk_pcs s) \<Longrightarrow> lk_pcs s ! i = InLoop p \<Longrightarrow> body p (lk_fifo s) = (f, x) \<Longrightarrow> pc_waits x = None \<Longrightarrow>
     lock_step s (s\<lparr>lk_fifo := f, lk_pcs := (lk_pcs s)[i := x]\<rparr>)"
| cond_wait: "i < length (lk_pcs s) \<Longrightarrow> lk_pcs s ! i = InLoop p \<Longrightarrow> body p (lk_fifo s) = (f, Waiting p) \<Longrightarrow>
     scoped_unlock (lk_mutex s) i = Inr m \<Longrightarrow>
     lock_step s (s\<lparr>lk_fifo := f, lk_mutex := m, lk_pcs := (lk_pcs s)[i := Waiting p]\<rparr>)"
| enq_signal: "i < length (lk_pcs s) \<Longrightarrow> lk_pcs s ! i = Pushed e b \<Longrightarrow>
     pc_signalled NonEmpty ((lk_pcs s)[i := Leaving (RetEnq True)]) xs \<Longrightarrow>
     lock_step s (s\<lparr>lk_pcs := xs, lk_pushed := lk_pushed s @ [e]\<rparr>)"
| deq_signal: "i < length (lk_pcs s) \<Longrightarrow> lk_pcs s ! i = Popped x \<Longrightarrow> deq_signals (lk_fifo s) \<Longrightarrow>
     pc_signalled HasSpace ((lk_pcs s)[i := Leaving (RetDeq x)]) xs \<Longrightarrow>
     lock_step s (s\<lparr>lk_pcs := xs, lk_popped := lk_popped s @ [x]\<rparr>)"
| deq_silent: "i < length (lk_pcs s) \<Longrightarrow> lk_pcs s ! i = Popped x \<Longrightarrow> \<not> deq_signals (lk_fifo s) \<Longrightarrow>
     lock_step s (s\<lparr>lk_pcs := (lk_pcs s)[i := Leaving (RetDeq x)], lk_popped := lk_popped s @ [x]\<rparr>)"
| unlock: "i < length (lk_pcs s) \<Longrightarrow> lk_pcs s ! i = Leaving r \<Longrightarrow> scoped_unlock (lk_mutex s) i = Inr m \<Longrightarrow>
     lock_step s (s\<lparr>lk_mutex := m, lk_pcs := (lk_pcs s)[i := Finished r]\<rparr>)"
| arrive: "lock_step s (s\<lparr>lk_pcs := lk_pcs s @ [AtLock p]\<rparr>)"
| spurious: "i < length (lk_pcs s) \<Longrightarrow> lk_pcs s ! i = Waiting p \<Longrightarrow>
     lock_step s (s\<lparr>lk_pcs := (lk_pcs s)[i := AtLock p]\<rparr>)"

definition locked_new :: "int \<Rightarrow> 'a op list \<Rightarrow> 'a locked" where
  "locked_new limit ops =
     \<lparr>lk_fifo = fifo_new limit, lk_mutex = None, lk_pcs = map AtLock ops, lk_pushed = [], lk_popped = []\<rparr>"

inductive locked_reachable :: "int \<Rightarrow> 'a locked \<Rightarrow> bool" for limit where
  start: "locked_reachable limit (locked_new limit ops)"
| step: "locked_reachable limit s \<Longrightarrow> lock_step s s' \<Longrightarrow> locked_reachable limit s'"

section \<open>The run of whole segments\<close>

fun ret_call :: "'a ret \<Rightarrow> 'a call" where
  "ret_call (RetEnq b) = EnqDone b"
| "ret_call (RetDeq x) = DeqDone x"

text \<open>A call counts as made when it has signalled: until then it is ready, and the list
  is the one before it.\<close>

fun pc_call :: "'a pc \<Rightarrow> 'a call" where
  "pc_call (AtLock p) = Ready p"
| "pc_call (InLoop p) = Ready p"
| "pc_call (Pushed e b) = Ready (Enq e b)"
| "pc_call (Popped x) = Ready Deq"
| "pc_call (Waiting p) = Blocked p"
| "pc_call (Leaving r) = ret_call r"
| "pc_call (Finished r) = ret_call r"

fun undo :: "'a pc \<Rightarrow> 'a fifo \<Rightarrow> 'a fifo" where
  "undo (Pushed e b) f = f\<lparr>f_q := butlast (f_q f)\<rparr>"
| "undo (Popped x) f = f\<lparr>f_q := x # f_q f\<rparr>"
| "undo _ f = f"

definition seen_fifo :: "'a locked \<Rightarrow> 'a fifo" where
  "seen_fifo s = (case lk_mutex s of None \<Rightarrow> lk_fifo s | Some i \<Rightarrow> undo (lk_pcs s ! i) (lk_fifo s))"

definition as_monitor :: "'a locked \<Rightarrow> 'a monitor" where
  "as_monitor s = \<lparr>fifo = seen_fifo s, calls = map pc_call (lk_pcs s), pushed = lk_pushed s, popped = lk_popped s\<rparr>"

text \<open>The statements that run with the mutex held.\<close>

fun critical :: "'a pc \<Rightarrow> bool" where
  "critical (InLoop p) = True"
| "critical (Pushed e b) = True"
| "critical (Popped x) = True"
| "critical (Leaving r) = True"
| "critical _ = False"

fun pc_ok :: "'a fifo \<Rightarrow> 'a pc \<Rightarrow> bool" where
  "pc_ok f (Pushed e b) \<longleftrightarrow> (\<exists>q. f_q f = q @ [e] \<and> (f_max f = 0 \<or> length q < f_max f))"
| "pc_ok f _ \<longleftrightarrow> True"

definition locked_ok :: "'a locked \<Rightarrow> bool" where
  "locked_ok s \<longleftrightarrow>
     (\<forall>i < length (lk_pcs s). critical (lk_pcs s ! i) \<longleftrightarrow> lk_mutex s = Some i) \<and>
     (\<forall>i. lk_mutex s = Some i \<longrightarrow> i < length (lk_pcs s) \<and> pc_ok (lk_fifo s) (lk_pcs s ! i))"

lemma locked_okD:
  assumes "locked_ok s"
  shows "i < length (lk_pcs s) \<Longrightarrow> critical (lk_pcs s ! i) \<Longrightarrow> lk_mutex s = Some i"
    "lk_mutex s = Some i \<Longrightarrow> i < length (lk_pcs s)" "lk_mutex s = Some i \<Longrightarrow> critical (lk_pcs s ! i)"
    "lk_mutex s = Some i \<Longrightarrow> pc_ok (lk_fifo s) (lk_pcs s ! i)"
  using assms by (auto simp: locked_ok_def)

text \<open>A signal changes no statement that runs with the mutex held.\<close>

lemma pc_signalledD:
  assumes "pc_signalled c xs ys"
  shows "length ys = length xs" "i < length xs \<Longrightarrow> critical (xs ! i) \<Longrightarrow> ys ! i = xs ! i"
    "i < length xs \<Longrightarrow> critical (ys ! i) = critical (xs ! i)"
proof -
  have l: "list_all2 (\<lambda>x y. y = x \<or> pc_waits x = Some c \<and> y = pc_wake x) xs ys"
    using assms by (simp add: pc_signalled_def)
  then show "length ys = length xs" by (simp add: list_all2_lengthD)
  show "ys ! i = xs ! i" if "i < length xs" "critical (xs ! i)"
    using list_all2_nthD [OF l that(1)] that(2) by (cases "xs ! i") auto
  show "critical (ys ! i) = critical (xs ! i)" if "i < length xs"
    using list_all2_nthD [OF l that] by (cases "xs ! i") auto
qed

lemma pc_call_waits: "waits_on (pc_call x) = pc_waits x"
proof (cases x)
  case (Leaving r) then show ?thesis by (cases r) auto
next
  case (Finished r) then show ?thesis by (cases r) auto
qed auto

lemma pc_call_wake: "pc_waits x = Some c \<Longrightarrow> pc_call (pc_wake x) = wake (pc_call x)"
  by (cases x) auto

lemma pc_call_woken: "pc_waits x = Some c \<Longrightarrow> pc_call (pc_wake x) \<noteq> pc_call x"
  by (cases x) auto

lemma signalled_pcs:
  assumes "pc_signalled c xs ys"
  shows "signalled c (map pc_call xs) (map pc_call ys)"
proof -
  have l: "list_all2 (\<lambda>x y. y = x \<or> pc_waits x = Some c \<and> y = pc_wake x) xs ys"
    using assms by (simp add: pc_signalled_def)
  have "list_all2 (\<lambda>x y. y = x \<or> waits_on x = Some c \<and> y = wake x) (map pc_call xs) (map pc_call ys)"
    unfolding list_all2_map1 list_all2_map2 pc_call_waits
    by (rule list_all2_mono [OF l]) (auto simp: pc_call_wake)
  moreover have "ys = xs" if "map pc_call ys = map pc_call xs"
  proof (rule nth_equalityI)
    show "length ys = length xs" using l by (simp add: list_all2_lengthD)
    fix i assume "i < length ys"
    then show "ys ! i = xs ! i"
      using list_all2_nthD2 [OF l, of i] arg_cong [OF that, of "\<lambda>zs. zs ! i"] l
      by (auto simp: list_all2_lengthD dest: pc_call_woken)
  qed
  ultimately show ?thesis
    using assms by (auto simp: signalled_def pc_signalled_def pc_call_waits)
qed

section \<open>The simulation\<close>

lemma calls_same:
  "i < length xs \<Longrightarrow> pc_call x = pc_call (xs ! i) \<Longrightarrow> map pc_call (xs[i := x]) = map pc_call xs"
  by (simp add: map_update list_update_same_conv)

text \<open>The holder of the mutex goes on, and holds it still or has given it up.\<close>

lemma locked_ok_hold:
  assumes "locked_ok s" "lk_mutex s = Some i" "critical x" "pc_ok f x"
  shows "locked_ok (s\<lparr>lk_fifo := f, lk_pcs := (lk_pcs s)[i := x]\<rparr>)"
  using assms by (auto simp: locked_ok_def nth_list_update)

lemma locked_ok_drop:
  assumes "locked_ok s" "lk_mutex s = Some i" "\<not> critical x"
  shows "locked_ok (s\<lparr>lk_mutex := None, lk_pcs := (lk_pcs s)[i := x]\<rparr>)"
  using assms by (auto simp: locked_ok_def nth_list_update)

lemma locked_ok_signal:
  assumes ok: "locked_ok s" "lk_mutex s = Some i" and x: "critical x" "pc_ok (lk_fifo s) x"
    and sg: "pc_signalled c ((lk_pcs s)[i := x]) xs"
  shows "locked_ok (s\<lparr>lk_pcs := xs\<rparr>)" "xs ! i = x"
proof -
  let ?s = "s\<lparr>lk_fifo := lk_fifo s, lk_pcs := (lk_pcs s)[i := x]\<rparr>"
  have h: "locked_ok ?s" by (rule locked_ok_hold [OF ok x])
  have i: "i < length (lk_pcs s)" by (rule locked_okD(2) [OF ok])
  note P = pc_signalledD [OF sg]
  show "xs ! i = x" using P(2) [of i] i x(1) by simp
  then show "locked_ok (s\<lparr>lk_pcs := xs\<rparr>)"
    using h P(1,3) i ok(2) x(2) by (auto simp: locked_ok_def)
qed

lemma seen_hold: "lk_mutex s = Some i \<Longrightarrow> seen_fifo s = undo (lk_pcs s ! i) (lk_fifo s)"
  by (simp add: seen_fifo_def)

lemma unlocked: "scoped_unlock m i = Inr m' \<longleftrightarrow> m = Some i \<and> m' = None"
  by (auto simp: scoped_unlock_def andThen_eq_Inr_iff)

text \<open>A statement of the loop: the list seen from outside changes with the signal only.\<close>

lemma run_simulated:
  assumes ok: "locked_ok s" and i: "i < length (lk_pcs s)" "lk_pcs s ! i = InLoop p"
    and b: "body p (lk_fifo s) = (f, x)" "pc_waits x = None"
  defines "s' \<equiv> s\<lparr>lk_fifo := f, lk_pcs := (lk_pcs s)[i := x]\<rparr>"
  shows "locked_ok s' \<and> (as_monitor s' = as_monitor s \<or> work (as_monitor s) (as_monitor s'))"
proof -
  have m: "lk_mutex s = Some i" using locked_okD(1) [OF ok i(1)] i(2) by simp
  have seen: "seen_fifo s = lk_fifo s" by (simp add: seen_hold [OF m] i(2))
  have call: "map pc_call (lk_pcs s) ! i = Ready p" using i by simp
  consider e c where "p = Enq e c" "x = Pushed e c" "f = lk_fifo s\<lparr>f_q := f_q (lk_fifo s) @ [e]\<rparr>"
      "f_max (lk_fifo s) = 0 \<or> length (f_q (lk_fifo s)) < f_max (lk_fifo s)"
    | e where "p = Enq e False" "x = Leaving (RetEnq False)" "f = lk_fifo s"
      "\<not> (f_max (lk_fifo s) = 0 \<or> length (f_q (lk_fifo s)) < f_max (lk_fifo s))"
    | y q where "p = Deq" "x = Popped y" "f = lk_fifo s\<lparr>f_q := q\<rparr>" "f_q (lk_fifo s) = y # q"
    using b by (cases p) (auto simp: enq_body_def deq_body_def split: if_splits list.splits)
  then show ?thesis
  proof cases
    case (1 e c)
    have "locked_ok s'" unfolding s'_def using 1 by (intro locked_ok_hold [OF ok m]) auto
    moreover have "as_monitor s' = as_monitor s"
      using i m calls_same [OF i(1), of x] 1 by (simp add: as_monitor_def seen seen_fifo_def s'_def)
    ultimately show ?thesis by blast
  next
    case (3 y q)
    have "locked_ok s'" unfolding s'_def using 3 by (intro locked_ok_hold [OF ok m]) auto
    moreover have "as_monitor s' = as_monitor s"
      using i m calls_same [OF i(1), of x] 3 by (simp add: as_monitor_def seen seen_fifo_def s'_def)
    ultimately show ?thesis by blast
  next
    case (2 e)
    have "locked_ok s'" unfolding s'_def using 2 by (intro locked_ok_hold [OF ok m]) auto
    moreover have "as_monitor s' = (as_monitor s)\<lparr>fifo := lk_fifo s, calls := (calls (as_monitor s))[i := EnqDone False]\<rparr>"
      using i m 2 by (simp add: as_monitor_def seen_fifo_def s'_def map_update)
    moreover have "enq_segment (fifo (as_monitor s)) e False = (lk_fifo s, Returns False [])"
      using 2(4) by (simp add: enq_segment_def as_monitor_def seen)
    ultimately show ?thesis
      using enq_full [of i "as_monitor s" e False "lk_fifo s"] i(1) call 2(1) by (simp add: as_monitor_def)
  qed
qed

lemma wait_simulated:
  assumes ok: "locked_ok s" and i: "i < length (lk_pcs s)" "lk_pcs s ! i = InLoop p"
    and b: "body p (lk_fifo s) = (f, Waiting p)" and m: "lk_mutex s = Some i"
  defines "s' \<equiv> s\<lparr>lk_fifo := f, lk_mutex := None, lk_pcs := (lk_pcs s)[i := Waiting p]\<rparr>"
  shows "locked_ok s' \<and> work (as_monitor s) (as_monitor s')"
proof -
  have f: "f = lk_fifo s" using b by (cases p) (auto simp: enq_body_def deq_body_def split: if_splits list.splits)
  have s': "s' = s\<lparr>lk_mutex := None, lk_pcs := (lk_pcs s)[i := Waiting p]\<rparr>" by (simp add: s'_def f)
  have seen: "seen_fifo s = lk_fifo s" by (simp add: seen_hold [OF m] i(2))
  have call: "calls (as_monitor s) ! i = Ready p" "i < length (calls (as_monitor s))" using i by (simp_all add: as_monitor_def)
  have mon: "as_monitor s' = (as_monitor s)\<lparr>fifo := lk_fifo s, calls := (calls (as_monitor s))[i := Blocked p]\<rparr>"
    by (simp add: as_monitor_def seen_fifo_def s' map_update)
  have fi: "fifo (as_monitor s) = lk_fifo s" by (simp add: as_monitor_def seen)
  have "work (as_monitor s) (as_monitor s')"
  proof (cases p)
    case (Enq e c)
    then have "enq_segment (fifo (as_monitor s)) e c = (lk_fifo s, Waits HasSpace)"
      using b by (auto simp: fi enq_body_def enq_segment_def split: if_splits)
    then show ?thesis unfolding mon using Enq call by (auto intro: work.enq_wait)
  next
    case Deq
    then have "deq_segment (fifo (as_monitor s)) = (lk_fifo s, Waits NonEmpty)"
      using b by (auto simp: fi deq_body_def deq_segment_def split: list.splits)
    then show ?thesis unfolding mon using Deq call by (auto intro: work.deq_wait)
  qed
  moreover have "locked_ok s'" unfolding s' by (rule locked_ok_drop [OF ok m]) simp
  ultimately show ?thesis by blast
qed

lemma locked_ok_ghost: "locked_ok (s\<lparr>lk_pushed := a, lk_popped := b\<rparr>) = locked_ok s"
  by (simp add: locked_ok_def)

lemma lock_step_simulated:
  assumes "lock_step s s'" "locked_ok s"
  shows "locked_ok s' \<and> (as_monitor s' = as_monitor s \<or> Fifo.step (as_monitor s) (as_monitor s'))"
  using assms(1)
proof cases
  case (acquire i p m)
  have m: "lk_mutex s = None" "m = Some i" using acquire(4) by (auto simp: scoped_lock_def split: if_splits)
  have "locked_ok s'"
    using assms(2) m acquire(2,3) by (auto simp: acquire(1) locked_ok_def nth_list_update)
  moreover have "as_monitor s' = as_monitor s"
    using m acquire(2,3) calls_same [OF acquire(2), of "InLoop p"] by (simp add: acquire(1) as_monitor_def seen_fifo_def)
  ultimately show ?thesis by blast
next
  case (run i p f x)
  then show ?thesis using run_simulated [OF assms(2) run(2-5)] by (auto intro: segment)
next
  case (cond_wait i p f m)
  then show ?thesis using wait_simulated [OF assms(2) cond_wait(2-4)] by (auto simp: unlocked intro: segment)
next
  case (enq_signal i e b xs)
  have m: "lk_mutex s = Some i" using locked_okD(1) [OF assms(2) enq_signal(2)] enq_signal(3) by simp
  obtain q where q: "f_q (lk_fifo s) = q @ [e]" "f_max (lk_fifo s) = 0 \<or> length q < f_max (lk_fifo s)"
    using locked_okD(4) [OF assms(2) m] enq_signal(3) by auto
  note L = locked_ok_signal [OF assms(2) m _ _ enq_signal(4), simplified]
  have call: "calls (as_monitor s) ! i = Ready (Enq e b)" "i < length (calls (as_monitor s))"
    using enq_signal(2,3) by (simp_all add: as_monitor_def)
  have seg: "enq_segment (fifo (as_monitor s)) e b = (lk_fifo s, Returns True [NonEmpty])"
    using q by (simp add: enq_segment_def as_monitor_def seen_hold [OF m] enq_signal(3))
  have sg: "signalled NonEmpty ((calls (as_monitor s))[i := EnqDone True]) (map pc_call xs)"
    using signalled_pcs [OF enq_signal(4)] by (simp add: as_monitor_def map_update)
  have "as_monitor s' = (as_monitor s)\<lparr>fifo := lk_fifo s, calls := map pc_call xs, pushed := pushed (as_monitor s) @ [e]\<rparr>"
    using L(2) m by (simp add: enq_signal(1) as_monitor_def seen_fifo_def)
  then have "work (as_monitor s) (as_monitor s')"
    using work.enq_done [OF call(2,1) seg sg] by simp
  moreover have "locked_ok s'" using L(1) by (simp add: enq_signal(1) locked_ok_def)
  ultimately show ?thesis by (blast intro: segment)
next
  case (deq_signal i x xs)
  have m: "lk_mutex s = Some i" using locked_okD(1) [OF assms(2) deq_signal(2)] deq_signal(3) by simp
  note L = locked_ok_signal [OF assms(2) m _ _ deq_signal(5), simplified]
  have call: "calls (as_monitor s) ! i = Ready Deq" "i < length (calls (as_monitor s))"
    using deq_signal(2,3) by (simp_all add: as_monitor_def)
  have seg: "deq_segment (fifo (as_monitor s)) = (lk_fifo s, Returns x [HasSpace])"
    using deq_signal(4) by (simp add: deq_segment_def deq_signals_def as_monitor_def seen_hold [OF m] deq_signal(3))
  have sg: "signalled HasSpace ((calls (as_monitor s))[i := DeqDone x]) (map pc_call xs)"
    using signalled_pcs [OF deq_signal(5)] by (simp add: as_monitor_def map_update)
  have "as_monitor s' = (as_monitor s)\<lparr>fifo := lk_fifo s, calls := map pc_call xs, popped := popped (as_monitor s) @ [x]\<rparr>"
    using L(2) m by (simp add: deq_signal(1) as_monitor_def seen_fifo_def)
  then have "work (as_monitor s) (as_monitor s')"
    using work.deq_signal [OF call(2,1) seg sg] by simp
  moreover have "locked_ok s'" using L(1) by (simp add: deq_signal(1) locked_ok_def)
  ultimately show ?thesis by (blast intro: segment)
next
  case (deq_silent i x)
  have m: "lk_mutex s = Some i" using locked_okD(1) [OF assms(2) deq_silent(2)] deq_silent(3) by simp
  have call: "calls (as_monitor s) ! i = Ready Deq" "i < length (calls (as_monitor s))"
    using deq_silent(2,3) by (simp_all add: as_monitor_def)
  have seg: "deq_segment (fifo (as_monitor s)) = (lk_fifo s, Returns x [])"
    using deq_silent(4) by (simp add: deq_segment_def deq_signals_def as_monitor_def seen_hold [OF m] deq_silent(3))
  have "as_monitor s' = (as_monitor s)\<lparr>fifo := lk_fifo s, calls := (calls (as_monitor s))[i := DeqDone x],
      popped := popped (as_monitor s) @ [x]\<rparr>"
    using m deq_silent(2) by (simp add: deq_silent(1) as_monitor_def seen_fifo_def map_update)
  then have "work (as_monitor s) (as_monitor s')"
    using work.deq_silent [OF call(2,1) seg] by simp
  moreover have "locked_ok s'"
    using locked_ok_hold [OF assms(2) m, of "Leaving (RetDeq x)" "lk_fifo s"] by (simp add: deq_silent(1) locked_ok_def)
  ultimately show ?thesis by (blast intro: segment)
next
  case (unlock i r m)
  have m: "lk_mutex s = Some i" "m = None" using unlock(4) by (auto simp: unlocked)
  have "locked_ok s'" unfolding unlock(1) m(2) by (rule locked_ok_drop [OF assms(2) m(1)]) simp
  moreover have "as_monitor s' = as_monitor s"
    using m unlock(2,3) calls_same [OF unlock(2), of "Finished r"] by (simp add: unlock(1) as_monitor_def seen_fifo_def)
  ultimately show ?thesis by blast
next
  case (arrive p)
  have "locked_ok s'" using assms(2) by (auto simp: arrive locked_ok_def nth_append less_Suc_eq)
  moreover have "as_monitor s' = (as_monitor s)\<lparr>calls := calls (as_monitor s) @ [Ready p]\<rparr>"
    using locked_okD(2) [OF assms(2)] by (auto simp: arrive as_monitor_def seen_fifo_def nth_append split: option.split)
  ultimately show ?thesis by (simp add: step.arrive)
next
  case (spurious i p)
  have m: "lk_mutex s \<noteq> Some i" using locked_okD(3) [OF assms(2), of i] spurious(3) by auto
  have "locked_ok s'" using assms(2) spurious(2,3) m by (auto simp: spurious(1) locked_ok_def nth_list_update)
  moreover have "as_monitor s' = (as_monitor s)\<lparr>calls := (calls (as_monitor s))[i := Ready p]\<rparr>"
    using m by (auto simp: spurious(1) as_monitor_def seen_fifo_def map_update split: option.split)
  moreover have "calls (as_monitor s) ! i = Blocked p" "i < length (calls (as_monitor s))"
    using spurious(2,3) by (simp_all add: as_monitor_def)
  ultimately show ?thesis by (simp add: step.spurious)
qed

lemma locked_reachable_ok:
  "locked_reachable limit s \<Longrightarrow> locked_ok s \<and> fifo_reachable limit (as_monitor s)"
proof (induction rule: locked_reachable.induct)
  case (start ops)
  have "as_monitor (locked_new limit ops) = monitor_new limit ops"
    by (simp add: as_monitor_def locked_new_def monitor_new_def seen_fifo_def)
  moreover have "locked_ok (locked_new limit ops)" by (auto simp: locked_ok_def locked_new_def)
  ultimately show ?case using fifo_reachable.start [of limit ops] by simp
next
  case (step s s')
  then show ?case using lock_step_simulated [OF step.hyps(2)] by (auto intro: fifo_reachable.next_step)
qed

text \<open>
  C22. Threads that interleave between any two statements of enq and deq are kept
  apart by the scoped lock: at most one is between its acquisition and its release,
  the release of the mutex by the one that leaves never fails, and every such run is
  a run in which each call works in whole segments, so that order, bound and
  wake-ups are as shown for those.  When all calls have returned, the queue can be
  destroyed.
\<close>

theorem locked_queue:
  assumes "locked_reachable limit s"
  shows "fifo_reachable limit (as_monitor s) \<and>
    (\<forall>i j. i < length (lk_pcs s) \<longrightarrow> j < length (lk_pcs s) \<longrightarrow>
       critical (lk_pcs s ! i) \<longrightarrow> critical (lk_pcs s ! j) \<longrightarrow> i = j) \<and>
    (\<forall>i < length (lk_pcs s). critical (lk_pcs s ! i) \<longrightarrow> scoped_unlock (lk_mutex s) i = Inr None) \<and>
    (list_all (\<lambda>x. \<exists>r. x = Finished r) (lk_pcs s) \<longrightarrow> fifo_delete s = Inr ())"
proof -
  note R = locked_reachable_ok [OF assms]
  have hold: "lk_mutex s = Some i" if "i < length (lk_pcs s)" "critical (lk_pcs s ! i)" for i
    using locked_okD(1) R that by blast
  have "fifo_delete s = Inr ()" if fin: "list_all (\<lambda>x. \<exists>r. x = Finished r) (lk_pcs s)"
  proof -
    have "lk_mutex s \<noteq> Some i" for i
      using locked_okD(2,3) [of s i] R fin by (fastforce simp: list_all_length)
    then have "lk_mutex s = None" by (cases "lk_mutex s") auto
    moreover have "list_all (\<lambda>x. pc_waits x \<noteq> Some c) (lk_pcs s)" for c
      using fin by (rule list.pred_mono_strong) auto
    ultimately show ?thesis by (simp add: fifo_delete_def)
  qed
  then show ?thesis using R hold by (auto simp: scoped_unlock_def) (metis hold option.inject)+
qed

theorem locked_queue_witness:
  "\<exists>s. locked_reachable 1 s \<and> lk_mutex s = Some 0 \<and> lk_pcs s = [Pushed (5 :: nat) True, AtLock Deq] \<and>
     f_q (lk_fifo s) = [5] \<and> fifo_reachable 1 \<lparr>fifo = \<lparr>f_q = [], f_max = 1\<rparr>,
       calls = [Ready (Enq (5 :: nat) True), Ready Deq], pushed = [], popped = []\<rparr>"
proof -
  let ?s0 = "locked_new 1 [Enq 5 True, Deq] :: nat locked"
  let ?s1 = "?s0\<lparr>lk_mutex := Some 0, lk_pcs := [InLoop (Enq 5 True), AtLock Deq]\<rparr>"
  let ?s2 = "?s1\<lparr>lk_fifo := \<lparr>f_q = [5], f_max = 1\<rparr>, lk_pcs := [Pushed 5 True, AtLock Deq]\<rparr>"
  have "lock_step ?s0 ?s1"
    using lock_step.acquire [of 0 ?s0 "Enq 5 True" "Some 0"] by (simp add: locked_new_def scoped_lock_def)
  moreover have "lock_step ?s1 ?s2"
    using lock_step.run [of 0 ?s1 "Enq 5 True" "\<lparr>f_q = [5], f_max = 1\<rparr>" "Pushed 5 True"]
    by (simp add: locked_new_def enq_body_def fifo_new_def)
  ultimately have r: "locked_reachable 1 ?s2" by (blast intro: locked_reachable.intros)
  have "as_monitor ?s2 = \<lparr>fifo = \<lparr>f_q = [], f_max = 1\<rparr>, calls = [Ready (Enq (5 :: nat) True), Ready Deq], pushed = [], popped = []\<rparr>"
    by (simp add: as_monitor_def seen_fifo_def locked_new_def)
  then show ?thesis using locked_queue [OF r] r by (intro exI [of _ ?s2]) (simp add: locked_new_def)
qed

end
