(* ===== verification/Clock_Stub.thy ===== *)
theory Clock_Stub
  imports Prelude "HOL-Library.Log_Nat"
begin

text \<open>
  \<open>clock_gettime\<close> of src/gettime.cc, which stands in for the POSIX function on systems
  that lack it.  The calls of the Mach kernel are an argument.  Two clocks are
  answered in floating point: a \<open>double\<close> is an integer mantissa of at most 53 bits and a
  power of two, and every operation rounds its exact result to the nearest one, ties
  to even.  All numbers here are far inside the range of exponents.
\<close>

section \<open>Doubles\<close>

record double =
  mant :: int
  expo :: int

text \<open>\<open>m / 2 ^ k\<close>, rounded to an integer.\<close>

definition round_half_even :: "int \<Rightarrow> nat \<Rightarrow> int" where
  "round_half_even m k =
     (let q = m div 2 ^ k; r = m mod 2 ^ k
      in if 2 ^ k < 2 * r \<or> (2 ^ k = 2 * r \<and> odd q) then q + 1 else q)"

definition round_double :: "int \<Rightarrow> int \<Rightarrow> double" where
  "round_double m e =
     (let k = floorlog 2 (nat \<bar>m\<bar>) - 53
      in if k = 0 then \<lparr>mant = m, expo = e\<rparr>
         else \<lparr>mant = sgn m * round_half_even \<bar>m\<bar> k, expo = e + int k\<rparr>)"

definition double_of_int :: "int \<Rightarrow> double" where
  "double_of_int i = round_double i 0"

definition double_mult :: "double \<Rightarrow> double \<Rightarrow> double" where
  "double_mult x y = round_double (mant x * mant y) (expo x + expo y)"

definition double_minus :: "double \<Rightarrow> double \<Rightarrow> double" where
  "double_minus x y =
     (let e = min (expo x) (expo y)
      in round_double (mant x * 2 ^ nat (expo x - e) - mant y * 2 ^ nat (expo y - e)) e)"

text \<open>Conversion to an integer drops the fraction.\<close>

definition double_trunc :: "double \<Rightarrow> int" where
  "double_trunc x =
     (if 0 \<le> expo x then mant x * 2 ^ nat (expo x)
      else sgn (mant x) * (\<bar>mant x\<bar> div 2 ^ nat (- expo x)))"

text \<open>The constants \<open>1e-9\<close> and \<open>1e9\<close>: the first is not a double, the next one is a little greater.\<close>

definition d1e_9 :: double where "d1e_9 = \<lparr>mant = 4835703278458517, expo = - 82\<rparr>"
definition d1e9 :: double where "d1e9 = \<lparr>mant = 1000000000, expo = 0\<rparr>"

section \<open>The kernel and the state\<close>

datatype clockid_t =
    CLOCK_REALTIME | CLOCK_MONOTONIC | CLOCK_PROCESS_CPUTIME_ID | CLOCK_THREAD_CPUTIME_ID
  | Other_Clock int

text \<open>
  The answers of the kernel: the result and the port of \<open>host_get_clock_service\<close>, the
  result and the time of \<open>clock_get_time\<close>, the value of the \<open>n\<close>-th call of
  \<open>mach_absolute_time\<close>, numerator and denominator of \<open>mach_timebase_info\<close>.
\<close>

record mach =
  host_get_clock_service :: "u32 \<Rightarrow> u32 \<times> u32"
  clock_get_time :: "u32 \<Rightarrow> u32 \<times> u32 \<times> u32"
  mach_absolute_time :: "nat \<Rightarrow> u64"
  mach_timebase_info :: "u32 \<times> u32"

definition KERN_SUCCESS :: u32 where "KERN_SUCCESS = 0"
definition SYSTEM_CLOCK :: u32 where "SYSTEM_CLOCK = 0"
definition CALENDAR_CLOCK :: u32 where "CALENDAR_CLOCK = 1"
definition EINVAL :: int where "EINVAL = 22"

record timespec =
  tv_sec :: int
  tv_nsec :: int

text \<open>The static \<open>__clock_gettime_inf\<close>, \<open>errno\<close>, and the number of readings so far.\<close>

record clock_state =
  inf_numer :: u32
  inf_denom :: u32
  c_errno :: int
  c_reads :: nat

section \<open>clock_gettime\<close>

definition clock_service :: "mach \<Rightarrow> clockid_t \<Rightarrow> timespec \<Rightarrow> clock_state \<Rightarrow> int \<times> timespec \<times> clock_state" where
  "clock_service M clk_id tp s =
     (let clk_serv_id = (if clk_id = CLOCK_REALTIME then CALENDAR_CLOCK else SYSTEM_CLOCK);
          (ret, clk) = host_get_clock_service M clk_serv_id
      in if ret = KERN_SUCCESS
         then (let (ret, sec, nsec) = clock_get_time M clk
               in if ret = KERN_SUCCESS
                  then (0, \<lparr>tv_sec = uint sec, tv_nsec = sint nsec\<rparr>, s)
                  else (-1, tp, s\<lparr>c_errno := EINVAL\<rparr>))
         else (-1, tp, s\<lparr>c_errno := EINVAL\<rparr>))"

text \<open>\<open>tp->tv_sec = nano * 1e-9; tp->tv_nsec = nano - (tp->tv_sec * 1e9)\<close>\<close>

definition split_nano :: "u64 \<Rightarrow> timespec" where
  "split_nano nano =
     (let x = double_of_int (uint nano);
          sec = double_trunc (double_mult x d1e_9);
          nsec = double_trunc (double_minus x (double_mult (double_of_int sec) d1e9))
      in \<lparr>tv_sec = sec, tv_nsec = nsec\<rparr>)"

text \<open>\<open>getpid\<close> and \<open>sched_yield\<close> have no effect here: only their duration is measured.\<close>

definition clock_duration :: "mach \<Rightarrow> clock_state \<Rightarrow> (int \<times> timespec \<times> clock_state) result" where
  "clock_duration M s =
     (let start = mach_absolute_time M (c_reads s);
          end' = mach_absolute_time M (Suc (c_reads s));
          s = s\<lparr>c_reads := Suc (Suc (c_reads s))\<rparr>;
          delta = end' - start;
          s = (if inf_denom s = 0
               then s\<lparr>inf_numer := fst (mach_timebase_info M), inf_denom := snd (mach_timebase_info M)\<rparr>
               else s)
      in if inf_denom s = 0 then Inl DivideByZero
         else (let nano = delta * ucast (inf_numer s) div ucast (inf_denom s)
               in Inr (0, split_nano nano, s)))"

definition clock_gettime :: "mach \<Rightarrow> clockid_t \<Rightarrow> timespec \<Rightarrow> clock_state \<Rightarrow> (int \<times> timespec \<times> clock_state) result" where
  "clock_gettime M clk_id tp s =
     (case clk_id of
        CLOCK_REALTIME \<Rightarrow> Inr (clock_service M clk_id tp s)
      | CLOCK_MONOTONIC \<Rightarrow> Inr (clock_service M clk_id tp s)
      | CLOCK_PROCESS_CPUTIME_ID \<Rightarrow> clock_duration M s
      | CLOCK_THREAD_CPUTIME_ID \<Rightarrow> clock_duration M s
      | Other_Clock _ \<Rightarrow> Inr (-1, tp, s\<lparr>c_errno := EINVAL\<rparr>))"

section \<open>Rounding\<close>

lemma floorlog_53: "n < 2 ^ 53 \<Longrightarrow> floorlog 2 n - 53 = 0"
  using floorlog_leI [of n 2 53] by simp

lemma round_double_exact: "\<bar>m\<bar> < 2 ^ 53 \<Longrightarrow> round_double m e = \<lparr>mant = m, expo = e\<rparr>"
  using floorlog_53 [of "nat \<bar>m\<bar>"] by (simp add: round_double_def nat_less_iff)

text \<open>Rounding moves a number by at most one half.\<close>

lemma round_half_even_bounds:
  assumes "0 \<le> m"
  shows "m div 2 ^ k \<le> round_half_even m k" "2 * (2 ^ k * round_half_even m k) \<le> 2 * m + 2 ^ k"
proof -
  define q r where "q = m div 2 ^ k" and "r = m mod 2 ^ k"
  have m: "m = 2 ^ k * q + r" "0 \<le> r" "r < 2 ^ k" by (simp_all add: q_def r_def)
  have rhe: "round_half_even m k = (if 2 ^ k < 2 * r \<or> (2 ^ k = 2 * r \<and> odd q) then q + 1 else q)"
    by (simp add: round_half_even_def Let_def q_def r_def)
  show "m div 2 ^ k \<le> round_half_even m k" by (simp add: rhe q_def [symmetric])
  show "2 * (2 ^ k * round_half_even m k) \<le> 2 * m + 2 ^ k"
    unfolding rhe using m by (auto simp: algebra_simps)
qed

text \<open>The product with \<open>1e-9\<close>, for durations below \<open>2 ^ 23\<close> seconds.\<close>

lemma product_trunc:
  assumes n: "0 \<le> n" "n < 2 ^ 23 * 10 ^ 9"
  shows "double_trunc (round_double (n * 4835703278458517) (- 82)) = n div 10 ^ 9"
proof -
  let ?M = "4835703278458517 :: int" and ?D = "301175296 :: int"
  define P s where "P = n * ?M" and "s = n div 10 ^ 9"
  have MD: "?M * 10 ^ 9 = 2 ^ 82 + ?D" by simp
  have s: "10 ^ 9 * s \<le> n" "n \<le> 10 ^ 9 * s + (10 ^ 9 - 1)" "0 \<le> s" "s + 1 \<le> 2 ^ 23"
    using n by (simp_all add: s_def)
  have s_eq: "n div 1000000000 = s" by (simp add: s_def)
  have low: "2 ^ 82 * s \<le> P"
  proof -
    have "10 ^ 9 * s * ?M \<le> P" unfolding P_def using s(1) by (intro mult_right_mono) auto
    moreover have "10 ^ 9 * s * ?M = 2 ^ 82 * s + ?D * s" using MD by (simp add: algebra_simps)
    ultimately show ?thesis using s(3) by simp
  qed
  have high: "P + ?M \<le> 2 ^ 82 * (s + 1) + ?D * (s + 1)"
  proof -
    have "(n + 1) * ?M \<le> 10 ^ 9 * (s + 1) * ?M" using s(2) by (intro mult_right_mono) auto
    then show ?thesis using MD by (simp add: P_def algebra_simps)
  qed
  have D: "?D * (s + 1) \<le> ?D * 2 ^ 23" using s(4) by (intro mult_left_mono) auto
  have P0: "0 \<le> P" using n(1) by (simp add: P_def)
  have "P < 2 ^ 105"
  proof -
    have "2 ^ 82 * (s + 1) \<le> 2 ^ 82 * 2 ^ 23" using s(4) by (intro mult_left_mono) auto
    then show ?thesis using high D by simp
  qed
  then have fl: "floorlog 2 (nat P) \<le> 105" by (intro floorlog_leI) (simp_all add: nat_less_iff)
  define k where "k = floorlog 2 (nat P) - 53"
  have k: "k \<le> 52" using fl by (simp add: k_def)
  have r: "round_double P (- 82) =
      (if k = 0 then \<lparr>mant = P, expo = - 82\<rparr> else \<lparr>mant = sgn P * round_half_even P k, expo = - 82 + int k\<rparr>)"
    using P0 by (simp add: round_double_def Let_def k_def)
  have small: "P + 2 ^ 51 < 2 ^ 82 * (s + 1)" using high D by simp
  show ?thesis
  proof (cases "k = 0")
    case True
    have "P div 2 ^ 82 = s"
      using low small by (intro int_div_pos_eq [of _ _ _ "P - 2 ^ 82 * s"]) (simp_all add: algebra_simps)
    then show ?thesis
      using r True P0 by (auto simp: P_def [symmetric] s_eq double_trunc_def sgn_if)
  next
    case False
    let ?q = "round_half_even P k" and ?h = "2 ^ (82 - k) :: int"
    have split: "2 ^ 82 = 2 ^ k * ?h" using k by (simp flip: power_add)
    note B = round_half_even_bounds [OF P0, of k]
    have "?h * s \<le> P div 2 ^ k"
      using zdiv_mono1 [OF low, of "2 ^ k"] unfolding split by (simp add: mult.assoc)
    then have q1: "?h * s \<le> ?q" using B(1) by linarith
    have "(2 :: int) ^ k \<le> 2 ^ 52" using k by (intro power_increasing) auto
    then have e1: "(2 :: int) ^ k \<le> 4503599627370496" by simp
    have "P + 2251799813685248 < 2 ^ k * (?h * (s + 1))" using small unfolding split mult.assoc by simp
    then have "2 * (2 ^ k * ?q) < 2 * (2 ^ k * (?h * (s + 1)))" using B(2) e1 by linarith
    then have q2: "?q < ?h * (s + 1)" by simp
    have "0 \<le> ?q" using q1 s(3) by (smt (verit) mult_nonneg_nonneg zero_le_power)
    moreover have "?q div ?h = s"
      using q1 q2 by (intro int_div_pos_eq [of _ _ _ "?q - ?h * s"]) (simp_all add: algebra_simps)
    moreover have "P \<noteq> 0" using False by (auto simp: k_def floorlog_def)
    ultimately show ?thesis
      using r False P0 k by (auto simp: P_def [symmetric] s_eq double_trunc_def sgn_if nat_diff_distrib)
  qed
qed

lemma split_nano_exact:
  assumes "uint nano < 2 ^ 23 * 10 ^ 9"
  shows "split_nano nano = \<lparr>tv_sec = uint nano div 10 ^ 9, tv_nsec = uint nano mod 10 ^ 9\<rparr>"
proof -
  let ?n = "uint nano"
  have n: "0 \<le> ?n" "?n < 2 ^ 53" using assms by auto
  let ?s = "?n div 10 ^ 9"
  have s: "0 \<le> ?s" "?s * 10 ^ 9 \<le> ?n" using n by (simp_all add: pos_imp_zdiv_nonneg_iff)
  have a: "double_of_int ?n = \<lparr>mant = ?n, expo = 0\<rparr>"
    unfolding double_of_int_def using n by (intro round_double_exact) simp
  have b: "double_trunc (double_mult \<lparr>mant = ?n, expo = 0\<rparr> d1e_9) = ?s"
    using product_trunc [OF n(1) assms] by (simp add: double_mult_def d1e_9_def)
  have c: "double_of_int ?s = \<lparr>mant = ?s, expo = 0\<rparr>"
    unfolding double_of_int_def using s n by (intro round_double_exact) simp
  have d: "double_mult \<lparr>mant = ?s, expo = 0\<rparr> d1e9 = \<lparr>mant = ?s * 10 ^ 9, expo = 0\<rparr>"
    using s n by (simp add: double_mult_def d1e9_def) (subst round_double_exact, auto)
  have e: "double_minus \<lparr>mant = ?n, expo = 0\<rparr> \<lparr>mant = ?s * 10 ^ 9, expo = 0\<rparr> = \<lparr>mant = ?n - ?s * 10 ^ 9, expo = 0\<rparr>"
    unfolding double_minus_def Let_def using s n by (subst round_double_exact) auto
  show ?thesis
    unfolding split_nano_def Let_def a b c d e
    by (simp add: double_trunc_def minus_div_mult_eq_mod)
qed

lemma floorlog_eq: "2 ^ (k - 1) \<le> n \<Longrightarrow> n < 2 ^ k \<Longrightarrow> floorlog 2 n = k"
  using floorlog_leI [of n 2 k] floorlog_geI [of 2 k n] by simp

lemma split_nano_late: "split_nano 8388608999999999 = \<lparr>tv_sec = 8388609, tv_nsec = -1\<rparr>"
proof -
  have f: "floorlog 2 (40564824043006616997149721541483 :: nat) = 106"
    by (rule floorlog_eq) simp_all
  have g: "round_double 40564824043006616997149721541483 (- 82) = \<lparr>mant = 4503600164241408, expo = - 29\<rparr>"
    by (simp add: round_double_def f round_half_even_def Let_def)
  show ?thesis
    unfolding split_nano_def Let_def
    by (simp add: double_of_int_def round_double_exact double_mult_def d1e_9_def d1e9_def g double_trunc_def
        double_minus_def)
qed

section \<open>The property\<close>

text \<open>The duration measured by the two clocks of CPU time, in nanoseconds.\<close>

definition measured :: "mach \<Rightarrow> clock_state \<Rightarrow> u64" where
  "measured M s =
     (mach_absolute_time M (Suc (c_reads s)) - mach_absolute_time M (c_reads s)) *
     ucast (if inf_denom s = 0 then fst (mach_timebase_info M) else inf_numer s) div
     ucast (if inf_denom s = 0 then snd (mach_timebase_info M) else inf_denom s)"

text \<open>
  C29. What clock_gettime answers.  An unknown clock, or a kernel that refuses, gives -1
  and EINVAL and leaves the caller's structure alone; the real-time and the monotonic
  clock give the kernel's time and leave errno alone.  The two clocks of CPU time
  give the duration between two readings of the absolute time, split exactly, in
  spite of floating point, into seconds and less than 10^9 nanoseconds as long as it is
  shorter than 2^23 seconds; the next nanosecond but 999999998 after that is answered
  with -1 nanoseconds.
\<close>

theorem clock_answers:
  assumes "inf_denom s \<noteq> 0 \<or> snd (mach_timebase_info M) \<noteq> 0"
    and "uint (measured M s) < 2 ^ 23 * 10 ^ 9"
    and "c = CLOCK_PROCESS_CPUTIME_ID \<or> c = CLOCK_THREAD_CPUTIME_ID"
  shows "(\<exists>s'. clock_gettime M c tp s = Inr (0, \<lparr>tv_sec = uint (measured M s) div 10 ^ 9, tv_nsec = uint (measured M s) mod 10 ^ 9\<rparr>, s') \<and>
      inf_denom s' \<noteq> 0 \<and> c_errno s' = c_errno s \<and> c_reads s' = c_reads s + 2) \<and>
    clock_gettime M (Other_Clock i) tp s = Inr (-1, tp, s\<lparr>c_errno := EINVAL\<rparr>) \<and>
    (\<forall>clk id. (clk, id) = (CLOCK_REALTIME, CALENDAR_CLOCK) \<or> (clk, id) = (CLOCK_MONOTONIC, SYSTEM_CLOCK) \<longrightarrow>
       clock_gettime M clk tp s =
         (case (host_get_clock_service M id, clock_get_time M (snd (host_get_clock_service M id))) of
            ((r1, port), (r2, sec, nsec)) \<Rightarrow>
              if r1 = KERN_SUCCESS \<and> r2 = KERN_SUCCESS then Inr (0, \<lparr>tv_sec = uint sec, tv_nsec = sint nsec\<rparr>, s)
              else Inr (-1, tp, s\<lparr>c_errno := EINVAL\<rparr>))) \<and>
    split_nano 8388608999999999 = \<lparr>tv_sec = 8388609, tv_nsec = -1\<rparr>"
proof -
  have d: "\<exists>s'. clock_duration M s = Inr (0, split_nano (measured M s), s') \<and>
      inf_denom s' \<noteq> 0 \<and> c_errno s' = c_errno s \<and> c_reads s' = c_reads s + 2"
    using assms(1) by (auto simp: clock_duration_def measured_def Let_def)
  have k: "clock_gettime M c tp s = clock_duration M s"
    using assms(3) by (auto simp: clock_gettime_def)
  show ?thesis
    using d unfolding k split_nano_exact [OF assms(2)]
    by (auto simp: clock_gettime_def clock_service_def split_nano_late Let_def split: prod.splits)
qed

theorem clock_answers_witness:
  "\<exists>s'. clock_gettime
     \<lparr>host_get_clock_service = (\<lambda>_. (0, 0)), clock_get_time = (\<lambda>_. (0, 0, 0)),
       mach_absolute_time = (\<lambda>n. if n = 0 then 7 else 3000000009), mach_timebase_info = (1, 1)\<rparr>
     CLOCK_THREAD_CPUTIME_ID \<lparr>tv_sec = 0, tv_nsec = 0\<rparr>
     \<lparr>inf_numer = 0, inf_denom = 0, c_errno = 0, c_reads = 0\<rparr> = Inr (0, \<lparr>tv_sec = 3, tv_nsec = 2\<rparr>, s')"
proof -
  let ?M = "\<lparr>host_get_clock_service = (\<lambda>_. (0, 0)), clock_get_time = (\<lambda>_. (0, 0, 0)),
       mach_absolute_time = (\<lambda>n. if n = 0 then 7 else 3000000009), mach_timebase_info = (1, 1)\<rparr>"
  let ?s = "\<lparr>inf_numer = 0, inf_denom = 0, c_errno = 0, c_reads = 0\<rparr>"
  have m: "measured ?M ?s = 3000000002" by (simp add: measured_def)
  show ?thesis
    using clock_answers [of ?s ?M CLOCK_THREAD_CPUTIME_ID "\<lparr>tv_sec = 0, tv_nsec = 0\<rparr>" 0] unfolding m by auto
qed

end
