(* ===== verification/Transport.thy ===== *)
theory Transport
  imports Prelude
begin

text \<open>
  The parts of the transport that the headers implement themselves: small structures
  with their constructors and tests (src/rpc/rpc.h, connection.h, pollmgr.h,
  jsl_log.h).  The classes around them are implemented in the binary librpc.a.
\<close>

section \<open>Structures of the client\<close>

text \<open>A request the client keeps to send it again: the message and its number, -1 for none.\<close>

record request_copy =
  rc_buf :: "byte list"
  rc_xid :: int

definition request_clear :: "request_copy \<Rightarrow> request_copy" where
  "request_clear r = r\<lparr>rc_buf := [], rc_xid := -1\<rparr>"

definition request_new :: "request_copy \<Rightarrow> request_copy" where
  "request_new r = request_clear r"

definition request_isvalid :: "request_copy \<Rightarrow> bool" where
  "request_isvalid r \<longleftrightarrow> rc_xid r \<noteq> -1"

record TO =
  to_ms :: int

definition to_of :: "int \<Rightarrow> TO" where
  "to_of x = \<lparr>to_ms = x\<rparr>"

text \<open>The plain fields of \<open>rpcc\<close>, some of which its inline members use.\<close>

record rpcc_part =
  rpcc_clt_nonce :: u32
  rpcc_srv_nonce :: u32
  rpcc_bind_done :: bool
  rpcc_xid :: u32
  rpcc_lossytest :: int
  rpcc_retrans :: bool
  rpcc_reachable :: bool

definition rpcc_id :: "rpcc_part \<Rightarrow> u32" where
  "rpcc_id c = rpcc_clt_nonce c"

definition rpcc_set_reachable :: "bool \<Rightarrow> rpcc_part \<Rightarrow> rpcc_part" where
  "rpcc_set_reachable r c = c\<lparr>rpcc_reachable := r\<rparr>"

definition rpcc_islossy :: "rpcc_part \<Rightarrow> bool" where
  "rpcc_islossy c \<longleftrightarrow> 0 < rpcc_lossytest c"

text \<open>The number under which every server registers the handler that clients bind to.\<close>

definition bind_proc :: u32 where "bind_proc = 1"

section \<open>Structures of the server\<close>

text \<open>The counters of \<open>rpcs\<close> and the switch that its inline member sets.\<close>

record rpcs_part =
  rpcs_counting :: int
  rpcs_curr_counts :: int
  rpcs_counts :: "int \<rightharpoonup> int"
  rpcs_lossytest :: int
  rpcs_reachable :: bool

definition rpcs_set_reachable :: "bool \<Rightarrow> rpcs_part \<Rightarrow> rpcs_part" where
  "rpcs_set_reachable r s = s\<lparr>rpcs_reachable := r\<rparr>"

text \<open>What the server knows of a request number.\<close>

datatype rpcstate_t = NEW | INPROGRESS | DONE | FORGOTTEN

text \<open>A reply that is kept for the case that its request comes again; 0 is the null pointer.\<close>

record reply_t =
  rt_xid :: u32
  rt_cb_present :: bool
  rt_buf :: nat
  rt_sz :: int

definition reply_new :: "u32 \<Rightarrow> reply_t" where
  "reply_new xid = \<lparr>rt_xid = xid, rt_cb_present = False, rt_buf = 0, rt_sz = 0\<rparr>"

record djob_t =
  dj_buf :: nat
  dj_sz :: int
  dj_conn :: nat

definition djob_new :: "nat \<Rightarrow> nat \<Rightarrow> int \<Rightarrow> djob_t" where
  "djob_new c b bsz = \<lparr>dj_buf = b, dj_sz = bsz, dj_conn = c\<rparr>"

section \<open>Connections and polling\<close>

text \<open>A buffer that is being read or written, and how far.\<close>

record charbuf =
  cb_buf :: nat
  cb_sz :: int
  cb_solong :: int

definition charbuf_new :: charbuf where
  "charbuf_new = \<lparr>cb_buf = 0, cb_sz = 0, cb_solong = 0\<rparr>"

definition charbuf_of :: "nat \<Rightarrow> int \<Rightarrow> charbuf" where
  "charbuf_of b s = \<lparr>cb_buf = b, cb_sz = s, cb_solong = 0\<rparr>"

record accept_bundle =
  bn_mgr :: nat
  bn_tcp :: int
  bn_lossy :: int

definition bundle_new :: "nat \<Rightarrow> int \<Rightarrow> int \<Rightarrow> accept_bundle" where
  "bundle_new m s l = \<lparr>bn_mgr = m, bn_tcp = s, bn_lossy = l\<rparr>"

definition CB_NONE :: u32 where "CB_NONE = 0x0"
definition CB_RDONLY :: u32 where "CB_RDONLY = 0x1"
definition CB_WRONLY :: u32 where "CB_WRONLY = 0x10"
definition CB_RDWR :: u32 where "CB_RDWR = 0x11"
definition CB_MASK :: u32 where "CB_MASK = NOT 0x11"

text \<open>Reading and writing are separate bits, and the mask has all others.\<close>

lemma poll_flags:
  "CB_RDONLY OR CB_WRONLY = CB_RDWR" "CB_RDONLY AND CB_WRONLY = CB_NONE" "CB_MASK AND CB_RDWR = CB_NONE"
  "CB_MASK OR CB_RDWR = - 1"
  by (simp_all add: CB_NONE_def CB_RDONLY_def CB_WRONLY_def CB_RDWR_def CB_MASK_def)

section \<open>Debug messages\<close>

definition JSL_DBG_OFF :: int where "JSL_DBG_OFF = 0"
definition JSL_DBG_1 :: int where "JSL_DBG_1 = 1"
definition JSL_DBG_2 :: int where "JSL_DBG_2 = 2"
definition JSL_DBG_3 :: int where "JSL_DBG_3 = 3"
definition JSL_DBG_4 :: int where "JSL_DBG_4 = 4"

text \<open>Whether \<open>jsl_log\<close> prints at the given debug level.\<close>

definition jsl_log :: "int \<Rightarrow> int \<Rightarrow> bool" where
  "jsl_log debug_level level = (if debug_level < \<bar>level\<bar> then False else True)"

text \<open>A message that is printed is printed at every higher level too, and none when it is off.\<close>

lemma jsl_log_mono: "jsl_log a level \<Longrightarrow> a \<le> b \<Longrightarrow> jsl_log b level"
  by (auto simp: jsl_log_def split: if_splits)

lemma jsl_log_off: "level \<in> {JSL_DBG_1, JSL_DBG_2, JSL_DBG_3, JSL_DBG_4} \<Longrightarrow> \<not> jsl_log JSL_DBG_OFF level"
  by (auto simp: jsl_log_def JSL_DBG_OFF_def JSL_DBG_1_def JSL_DBG_2_def JSL_DBG_3_def JSL_DBG_4_def)

end
