(* ===== verification/Spec2Isabelle.thy ===== *)
theory Spec2Isabelle
  imports Mount Threads Wire_Properties Fifo_Properties Tester_Properties Space Block_Properties Inode_Properties Format_Properties Edge_Properties
    Inode_Limit Exact_Requests Memory_Properties Buffer_Owners Fifo_Locks Clock_Stub Transport
begin

text \<open>
  A verification library for a file system in user space: src/fuse.cc serves the
  requests of the kernel, src/yfs_client.cc keeps directories and files, the extent
  client and server (src/extent_client.cc, src/extent_server.cc) keep numbered
  extents, and src/inode_manager.cc keeps them as inodes and blocks of a disk in
  memory.  Beside it stand the headers of the RPC library (src/rpc), the program that
  serves extents over it (src/extent_smain.cc) and a test program
  (src/part1_tester.cc).

  \<^bold>\<open>How the code is modelled.\<close>  A class is a record of its fields, a method a function
  from the state before to the result and the state after.  What an execution can do
  besides returning (access outside a buffer, null pointer, uncaught exception, exit,
  failed assertion) is a value of the type \<open>fault\<close> of theory Prelude, and a method
  that can end so returns a sum.  Integers of the code are words of their width where
  they are stored or wrap around, and numbers where a bound is kept.  The clock and
  memory that is read before it is written come from an environment that theorems
  quantify over.  Library functions whose code is not in the repository (fuse, the
  binary librpc.a, the Mach kernel, the sizes of directory entries) are arguments.
  Memory from \<open>malloc\<close> is a heap of cells in the theories named Memory; the other
  theories speak of the values in it.

  \<^bold>\<open>The theories, from the disk upwards.\<close>
  \<^item> Prelude: words, faults, \<open>VERIFY\<close> of src/lang/verify.h, sequencing, environment, byte
    images of integers.
  \<^item> Disk: class disk of src/inode_manager.cc.
  \<^item> Extent_Protocol: statuses, inode types and attributes of src/extent_protocol.h.
  \<^item> Block_Manager: class block_manager, the bitmap scan and masks loop by loop; the
    locale block_store states what its clients use (which blocks are free, allocating
    and freeing one, reading and writing one), interpreted on the class; full_store
    extends it with what happens when no block is free.
  \<^item> Inode_Manager: class inode_manager with the loops of read_file and write_file;
    Inode_Loops, Inode_Blocks and Inode_Files prove what they do: the abstract files,
    the invariant \<open>im_ok\<close> (no block in two files, every used block marked) and the
    effect of each operation.
  \<^item> Extent_Server: both extent classes; Extent_Store: the locale extent_store, typed
    files by number with the room left, interpreted on the extent client; Inode_Room:
    the loops and the extent layer return only when the data fits (locale exact_store).
  \<^item> Memory: \<open>malloc\<close>, \<open>realloc\<close> and \<open>free\<close>, with every use of released memory a fault;
    Inode_Memory: block_manager, inode_manager and extent_server again, with their
    pointers, the string that put stores included, and with memory that was never written
    told from memory that was; Memory_Refine and Memory_Files: each of these methods does
    what the one without memory does, keeps all cells and leaves a known number behind, except that
    write_file faults when it reads behind the end of that string (where the model without memory
    has undetermined bytes); Memory_Session: whole sessions of calls on the extent client.
  \<^item> Dir_Format: the text of a directory and the stream operations that parse it.
  \<^item> Yfs_Client: class yfs_client; Yfs_Files: its methods on the store.
  \<^item> Namespace: the tree of directories and the invariant \<open>tree_ok\<close>.
  \<^item> Fuse: the handlers of src/fuse.cc and the table of operations as \<open>dispatch\<close>.
  \<^item> Fs_Spec: the specification: which requests are admissible, how one changes the
    files, which replies answer it; Fs_Refine: every handler implements it, and the
    reachable states; Exact_Requests: only admissible requests are answered; Space:
    where the blocks are; Mount: main of src/fuse.cc.
  \<^item> Marshall: the message buffers of src/rpc/marshall.h; Codec: the locale codec, the
    contract of a pair of operators \<open><<\<close> and \<open>>>\<close>, interpreted on the operators for
    vectors and maps over a plain byte codec; Headers: the headers of messages;
    Buffer_Memory: the constructors, destructors and hand-over of the buffers as
    memory; Buffer_Owners: programs that use them, the copies that the compiler makes and
    take_in (a parameter) included.
  \<^item> Rpc: the call and handler templates of src/rpc/rpc.h for every number of
    arguments; Rpc_Spec: the promise of the transport and the outcome of a call;
    Rpc_Arity: any stub against any handler.
  \<^item> Extent_Wire: attributes on the wire, the procedures of the extent server and
    src/extent_smain.cc; Loopback: a transport inside one process that keeps the
    promise, for the witnesses.
  \<^item> Fifo: the blocking queue of src/rpc/fifo.h as a step relation over interleaved
    calls, with the invariant that no wake-up is lost; Fifo_Locks: the same methods
    statement by statement with the lock of src/rpc/slock.h, simulated by Fifo.
  \<^item> Threads: how a thread or a job of the pool gets its method and arguments
    (src/rpc/method_thread.h and addObjJob of src/rpc/thr_pool.h).
  \<^item> Transport: the structures, constructors and macros that rpc.h, connection.h,
    pollmgr.h and jsl_log.h implement themselves.
  \<^item> Clock_Stub: src/gettime.cc with its floating point.
  \<^item> Tester: src/part1_tester.cc.

  \<^bold>\<open>What is shown.\<close>  This theory holds the properties of the whole file system: each
  request and each session implements the specification, the directories stay a
  forest, no block is lost.  Exact_Requests shows that the condition on requests is
  exact: a well formed request is answered if and only if it is admissible, and ends in
  a fault otherwise.  The theories named Properties hold those of the parts:
  blocks and inodes (Block_Properties, Inode_Properties), the directory format
  (Format_Properties), files, trees and links through the fuse handlers
  (File_Properties, Tree_Properties, Link_Properties), the places where the code does
  not do what its comments say or faults (Edge_Properties), messages, calls and the
  extent server over the wire (Wire_Properties), the queue: order, bound, end of its
  loops and absence of lost wake-ups (Fifo_Properties), the hand-over to threads
  (Threads), and the full score of the test program (Tester_Properties).  Beside
  them stand the pointers of the file system, the one read behind the end of a buffer
  and what it leaks (Memory_Properties),
  the owners of the message buffers (Buffer_Owners), the lock of the queue
  (Fifo_Locks), the answers of the clock (Clock_Stub) and the end of the inode
  numbers (Inode_Limit).  Demo has the states of the
  witnesses.

  \<^bold>\<open>Bounds.\<close>  No definition uses fuel: loops over blocks, bits and bytes recurse on what
  is left of them, and \<open>while (1)\<close> of the queue is the step relation.  Admissible
  requests name existing directories and files, and those that write keep a file
  within 228 blocks and find room on the disk; for requests that lack only the size or the room, or read from
  behind the end of a file, Exact_Requests says that they fault, for others the theorems
  of Edge_Properties and Inode_Properties say what the code does.  Inode numbers are
  never reused, so a run makes at most 1022 files beside the root; Inode_Limit says
  what the next ones do.  Messages are
  smaller than \<open>INT_MAX\<close> bytes and vectors and maps shorter than \<open>2 ^ 32\<close> elements.

  \<^bold>\<open>Not modelled.\<close>  What rpcc and rpcs do behind the templates, connections, the workers
  of the thread pool and the poll loop: the repository has their declarations, the
  implementation is the binary librpc.a.  Printing is left out, and \<open>malloc\<close> has memory.
\<close>

section \<open>Properties of the whole file system\<close>

text \<open>
  C1. The session loop never gets stuck: in every state a new file system can
  reach by serving admissible requests, the next admissible request is served
  without a fault, the reply is the one of the specification, and the files change
  exactly as the specification says, down through the client, the extent server,
  the inodes and the bitmap.
\<close>

theorem reachable_serves:
  assumes "reachable L tsym e y" "symlink_type tsym" "admissible L tsym (y_store y) req"
  shows "\<exists>rep y'. dispatch L tsym y req = Inr (rep, y') \<and> reachable L tsym e y' \<and>
    y_store y' = fs_apply L tsym (y_store y) req \<and> answers L tsym (y_store y) req (y_store y') rep"
proof -
  have "implements L tsym y req"
    using dispatch_implements [OF reachable_fs_ok [OF assms(1,2)] assms(2,3)] .
  then obtain rep y' where "dispatch L tsym y req = Inr (rep, y')"
      "y_store y' = fs_apply L tsym (y_store y) req" "answers L tsym (y_store y) req (y_store y') rep"
    unfolding implements_def by blast
  then show ?thesis using reachable.serve [OF assms(1,3)] by blast
qed

theorem reachable_serves_witness:
  "\<exists>y rep y'. yfs_client_new 0 demo_env = Inr y \<and>
     dispatch demo_lib 3 y (ReqCreate 1 demo_name) = Inr (rep, y') \<and> y_store y' = demo_store_a"
proof -
  obtain y where y: "yfs_client_new 0 demo_env = Inr y" "y_store y = demo_store"
      "reachable demo_lib 3 demo_env y"
    using demo_new by metis
  have "admissible demo_lib 3 (y_store y) (ReqCreate 1 demo_name)"
    using link_make_fits [OF demo_fits] by (simp add: y(2))
  from reachable_serves [OF y(3) demo_symlink_type this] show ?thesis
    using y(1,2) demo_link by auto
qed

text \<open>
  C2. A whole run of the program: started with a mount point, on a fuse library that
  mounts it, main serves any list of requests of which each is admissible when it
  comes, replies to each as the specification says, leaves the files that the
  specification computes from the empty file system, and returns the code of the
  session.  Without exactly one argument it exits before it makes a file system.
\<close>

theorem main_serves:
  assumes "symlink_type tsym"
    and "all_admissible L tsym \<lparr>st_files = [1 \<mapsto> (DIR, [])], st_last = 1, st_room = 24576\<rparr> (session_requests F)"
    and "length argv = 2" "parse_cmdline F [argv ! 0, argv ! 1, [45, 100]] (argv ! 1) = (0, mp)"
    and "mount_fd F mp \<noteq> - 1" "lowlevel_new F" "kern_chan_new F (mount_fd F mp)"
  shows "(\<exists>reps y. fuse_main L tsym F argv 0 e = Inr (if session_err F = 0 then 0 else 1, reps, y) \<and>
      reachable L tsym e y \<and>
      y_store y = foldl (fs_apply L tsym) \<lparr>st_files = [1 \<mapsto> (DIR, [])], st_last = 1, st_room = 24576\<rparr>
        (session_requests F) \<and>
      all_answered L tsym \<lparr>st_files = [1 \<mapsto> (DIR, [])], st_last = 1, st_room = 24576\<rparr>
        (session_requests F) reps) \<and>
    (\<forall>args. length args = 2 \<or> fuse_main L tsym F args 0 e = Inl Exited)"
proof -
  obtain y where y: "yfs_client_new 0 e = Inr y"
      "y_store y = \<lparr>st_files = [1 \<mapsto> (DIR, [])], st_last = 1, st_room = 24576\<rparr>"
    using new_fs_ok [of e] by metis
  obtain reps y' where "fuse_session_loop L tsym y (session_requests F) = Inr (reps, y')" "reachable L tsym e y'"
      "y_store y' = foldl (fs_apply L tsym) (y_store y) (session_requests F)"
      "all_answered L tsym (y_store y) (session_requests F) reps"
    using session_implements [OF reachable.start [OF y(1)] assms(1), of L "session_requests F"] assms(2)
    by (auto simp: y(2))
  then show ?thesis
    using y assms(3-7) by (auto simp: fuse_main_def)
qed

definition demo_boot :: fuse_boot where
  "demo_boot = \<lparr>parse_cmdline = (\<lambda>_ mp. (0, mp)), mount_fd = (\<lambda>_. 3), lowlevel_new = True,
     kern_chan_new = (\<lambda>_. True), session_requests = [ReqCreate 1 demo_name], session_err = 0\<rparr>"

theorem main_serves_witness:
  "\<exists>rep y. fuse_main demo_lib 3 demo_boot [[121], [47]] 0 demo_env = Inr (0, [rep], y) \<and>
     y_store y = demo_store_a"
proof -
  have "all_admissible demo_lib 3 \<lparr>st_files = [1 \<mapsto> (DIR, [])], st_last = 1, st_room = 24576\<rparr>
      (session_requests demo_boot)"
    using link_make_fits [OF demo_fits] by (simp add: demo_boot_def demo_store_def)
  from main_serves [OF demo_symlink_type this, of "[[121], [47]]" "[47]" demo_env]
  obtain reps y where m: "fuse_main demo_lib 3 demo_boot [[121], [47]] 0 demo_env = Inr (0, reps, y)"
      "y_store y = fs_apply demo_lib 3 demo_store (ReqCreate 1 demo_name)"
      "all_answered demo_lib 3 demo_store [ReqCreate 1 demo_name] reps"
    by (auto simp: demo_boot_def demo_store_def)
  from m(3) obtain rep where "reps = [rep]" by (auto split: list.splits)
  with m(1,2) demo_link show ?thesis by auto
qed

text \<open>
  C4. In every reachable state the directories form a forest rooted in inode
  numbers: the root is a directory, every directory file parses, every entry names
  an existing inode whose number is greater than its directory's, and no inode has
  two entries, in one directory or in two.
\<close>

theorem reachable_tree:
  assumes "reachable L tsym e y" "symlink_type tsym"
  shows "(\<exists>es. dir_in (st_files (y_store y)) 1 es) \<and>
    (\<forall>k d. st_files (y_store y) k = Some (DIR, d) \<longrightarrow> (\<exists>es. parse_dir d = Inr es)) \<and>
    (\<forall>k es x. dir_in (st_files (y_store y)) k es \<longrightarrow> x \<in> set es \<longrightarrow>
       st_files (y_store y) (ekey x) \<noteq> None \<and> k < ekey x) \<and>
    (\<forall>k es. dir_in (st_files (y_store y)) k es \<longrightarrow> distinct (map ekey es)) \<and>
    (\<forall>k k' es es' x x'. dir_in (st_files (y_store y)) k es \<longrightarrow> dir_in (st_files (y_store y)) k' es' \<longrightarrow>
       k \<noteq> k' \<longrightarrow> x \<in> set es \<longrightarrow> x' \<in> set es' \<longrightarrow> ekey x \<noteq> ekey x')"
proof -
  let ?F = "st_files (y_store y)"
  note T = tree_okD [OF fs_okD(2) [OF reachable_fs_ok [OF assms]]]
  have parse: "\<exists>es. parse_dir d = Inr es" if f: "?F k = Some (DIR, d)" for k d
  proof -
    obtain es where "dir_in ?F k es" using T(2) [OF f] by blast
    then have "d = print_entries es" "\<forall>e \<in> set es. entry_ok e" using f by (auto simp: dir_in_def)
    then show ?thesis using parse_print by blast
  qed
  show ?thesis
  proof (intro conjI allI impI)
    show "\<exists>es. dir_in ?F 1 es" by (rule T(1))
  qed (blast intro: T parse dest: T(3-6))+
qed

theorem reachable_tree_witness:
  "\<exists>y. reachable demo_lib 3 demo_env y \<and> y_store y = demo_store_a \<and>
     (\<exists>es. dir_in (st_files (y_store y)) 1 es)"
proof -
  obtain y where y: "reachable demo_lib 3 demo_env y" "y_store y = demo_store_a"
    using demo_created by metis
  show ?thesis using reachable_tree [OF y(1) demo_symlink_type] y by blast
qed

text \<open>
  C5. No block is lost: in every reachable state the free data blocks together with
  the blocks the files need, the blocks of block numbers included, are the 24576
  data blocks of the disk.
\<close>

theorem no_block_lost:
  assumes "reachable L tsym e y" "symlink_type tsym"
  shows "finite (dom (st_files (y_store y))) \<and>
    room (es_im (ec_es (yfs_ec y))) +
      (\<Sum>k \<in> dom (st_files (y_store y)). file_blocks (contents (y_store y) k)) = 24576"
  using reachable_space [OF assms] by (simp add: space_ok_def y_store_def ec_store_simps)

theorem no_block_lost_witness:
  "\<exists>y. reachable demo_lib 3 demo_env y \<and> y_store y = demo_store_a \<and>
     room (es_im (ec_es (yfs_ec y))) + (\<Sum>k \<in> dom (st_files (y_store y)). file_blocks (contents (y_store y) k)) = 24576"
proof -
  obtain y where y: "reachable demo_lib 3 demo_env y" "y_store y = demo_store_a"
    using demo_created by metis
  show ?thesis using no_block_lost [OF y(1) demo_symlink_type] y by blast
qed

end
